(* ===== verification/Prelude.thy ===== *)
theory Prelude
  imports Main "HOL-Library.Word"
begin

text \<open>
  Shared vocabulary of the development.

  \<^item> Python \<open>bytes\<close> are lists of 8-bit words; Python's unbounded integers are \<open>int\<close>,
    whose bit operations (\<open>AND\<close>, \<open>OR\<close>, \<open>XOR\<close>, \<open>push_bit\<close>, \<open>drop_bit\<close>) are those of
    Python's \<open>&\<close>, \<open>|\<close>, \<open>^\<close>, \<open><<\<close>, \<open>>>\<close>.
  \<^item> A function that may raise returns \<open>'e + 'a\<close>: \<open>Inl\<close> the exception, \<open>Inr\<close> the value.
    \<open>rbind\<close> sequences two such calls.
  \<^item> \<open>int.to_bytes\<close> and \<open>int.from_bytes\<close>, \<open>bytes([x])\<close>, \<open>round\<close> of a quotient and the dynamic
    type test \<open>isinstance(x, int)\<close> are the standard-library pieces the sources use.
  \<^item> The locale \<open>cyclic_counter\<close> is the contract shared by every wrapping counter of the
    transport (chunk sequence, encryption counter, message id).
\<close>

unbundle bit_operations_syntax

type_synonym byte = "8 word"
type_synonym bytes = "byte list"

named_theorems result_simps \<open>sequencing of calls that may raise\<close>
named_theorems byte_simps \<open>conversions between integers and byte strings\<close>

subsection \<open>Results of calls that may raise\<close>

type_synonym ('err, 'val) outcome = "'err + 'val"

definition rbind :: "('e, 'a) outcome \<Rightarrow> ('a \<Rightarrow> ('e, 'b) outcome) \<Rightarrow> ('e, 'b) outcome" where
  "rbind m f = (case m of Inl e \<Rightarrow> Inl e | Inr x \<Rightarrow> f x)"

lemma rbind_Inl [simp]: "rbind (Inl e) f = Inl e"
  by (simp add: rbind_def)

lemma rbind_Inr [simp]: "rbind (Inr x) f = f x"
  by (simp add: rbind_def)

lemma rbind_eq_Inr [result_simps]:
  "rbind m f = Inr y \<longleftrightarrow> (\<exists>x. m = Inr x \<and> f x = Inr y)"
  by (cases m) auto

lemma rbind_eq_Inl [result_simps]:
  "rbind m f = Inl e \<longleftrightarrow> m = Inl e \<or> (\<exists>x. m = Inr x \<and> f x = Inl e)"
  by (cases m) auto

lemma if_Inl_eq_Inr [result_simps]:
  "(if b then Inl e else m) = Inr y \<longleftrightarrow> \<not> b \<and> m = Inr y"
  by simp

subsection \<open>Integers and byte strings\<close>

text \<open>
  \<open>x.to_bytes(n, "little")\<close> and \<open>x.to_bytes(n, "big")\<close>. Python raises \<open>OverflowError\<close> when
  \<open>x\<close> is not in \<open>0 .. 256 ^ n - 1\<close>; every call in the sources is in range, which the
  component theories prove of each argument.
\<close>

primrec to_bytes_little :: "nat \<Rightarrow> int \<Rightarrow> bytes" where
  "to_bytes_little 0 x = []"
| "to_bytes_little (Suc n) x = word_of_int x # to_bytes_little n (x div 256)"

definition to_bytes_big :: "nat \<Rightarrow> int \<Rightarrow> bytes" where
  "to_bytes_big n x = rev (to_bytes_little n x)"

primrec from_bytes_little :: "bytes \<Rightarrow> int" where
  "from_bytes_little [] = 0"
| "from_bytes_little (b # bs) = uint b + 256 * from_bytes_little bs"

definition from_bytes_big :: "bytes \<Rightarrow> int" where
  "from_bytes_big bs = from_bytes_little (rev bs)"

lemma to_bytes_little_numeral [byte_simps]:
  "to_bytes_little (numeral k) x = word_of_int x # to_bytes_little (pred_numeral k) (x div 256)"
  by (simp add: numeral_eq_Suc)

lemma length_to_bytes_little [simp]: "length (to_bytes_little n x) = n"
  by (induction n arbitrary: x) auto

lemma length_to_bytes_big [simp]: "length (to_bytes_big n x) = n"
  by (simp add: to_bytes_big_def)

lemma uint_byte_bounds: "0 \<le> uint (b :: byte)" "uint (b :: byte) < 256"
  using uint_bounded [of b] by simp_all

lemma from_bytes_little_bounds:
  "0 \<le> from_bytes_little bs \<and> from_bytes_little bs < 256 ^ length bs"
proof (induction bs)
  case Nil
  then show ?case by simp
next
  case (Cons b bs)
  then have "from_bytes_little bs \<le> 256 ^ length bs - 1" by simp
  with Cons show ?case using uint_byte_bounds [of b] by simp
qed

lemma from_bytes_big_bounds:
  "0 \<le> from_bytes_big bs \<and> from_bytes_big bs < 256 ^ length bs"
  using from_bytes_little_bounds [of "rev bs"] by (simp add: from_bytes_big_def)

lemma uint_byte_of_int: "uint (word_of_int x :: byte) = x mod 256"
  by (simp add: uint_word_of_int)

lemma from_to_bytes_little [byte_simps]:
  "0 \<le> x \<Longrightarrow> x < 256 ^ n \<Longrightarrow> from_bytes_little (to_bytes_little n x) = x"
proof (induction n arbitrary: x)
  case 0
  then show ?case by simp
next
  case (Suc n)
  then have "x div 256 < 256 ^ n" by (simp add: div_less_iff_less_mult mult.commute)
  with Suc show ?case by (simp add: uint_byte_of_int pos_imp_zdiv_nonneg_iff)
qed

lemma from_to_bytes_big [byte_simps]:
  "0 \<le> x \<Longrightarrow> x < 256 ^ n \<Longrightarrow> from_bytes_big (to_bytes_big n x) = x"
  by (simp add: from_bytes_big_def to_bytes_big_def from_to_bytes_little)

lemma to_from_bytes_little [byte_simps]:
  "to_bytes_little (length bs) (from_bytes_little bs) = bs"
proof (induction bs)
  case Nil
  then show ?case by simp
next
  case (Cons b bs)
  have "(uint b + 256 * from_bytes_little bs) div 256 = from_bytes_little bs"
    using uint_byte_bounds [of b] by simp
  moreover have "(word_of_int (uint b + 256 * from_bytes_little bs) :: byte) = b"
    using uint_byte_bounds [of b] by (intro word_uint_eqI) (simp add: uint_byte_of_int del: of_int_add of_int_mult)
  ultimately show ?case using Cons by simp
qed

lemma to_from_bytes_big [byte_simps]:
  "to_bytes_big (length bs) (from_bytes_big bs) = bs"
  using to_from_bytes_little [of "rev bs"] by (simp add: from_bytes_big_def to_bytes_big_def)

lemma to_bytes_little_inject:
  "0 \<le> x \<Longrightarrow> x < 256 ^ n \<Longrightarrow> 0 \<le> y \<Longrightarrow> y < 256 ^ n \<Longrightarrow>
     to_bytes_little n x = to_bytes_little n y \<longleftrightarrow> x = y"
  by (metis from_to_bytes_little)

subsection \<open>Values with a dynamic type\<close>

text \<open>
  Arguments whose type the code tests at run time: an \<open>int\<close>, a \<open>bool\<close> (a subclass of
  \<open>int\<close> in Python, which the code excludes explicitly) or anything else.
\<close>

datatype pyval = PyInt int | PyBool bool | PyOther

subsection \<open>Rounding and printing\<close>

text \<open>
  \<open>round(a / b)\<close> for a positive \<open>b\<close>: Python rounds half to even. The quotients the sources
  round are exact at the ties and far from a tie elsewhere, so that the rounding error of the
  binary quotient never moves the result.
\<close>

definition round_div :: "int \<Rightarrow> int \<Rightarrow> int" where
  "round_div a b =
     (let q = a div b; r = a mod b
      in if 2 * r < b then q else if b < 2 * r then q + 1 else if even q then q else q + 1)"

lemma round_div_exact: "0 < b \<Longrightarrow> round_div (b * q) b = q"
  by (simp add: round_div_def)

lemma round_div_near: "0 < b \<Longrightarrow> \<bar>2 * (b * round_div a b - a)\<bar> \<le> b"
proof -
  assume b: "0 < b"
  define q r where "q = a div b" and "r = a mod b"
  then have a: "a = b * q + r" and r: "0 \<le> r" "r < b" using b by simp_all
  have "round_div a b = (if 2 * r < b then q else if b < 2 * r then q + 1
      else if even q then q else q + 1)"
    by (simp add: round_div_def q_def r_def Let_def)
  moreover have "b * (q + 1) = b * q + b" by (simp add: algebra_simps)
  ultimately show ?thesis using a r by auto
qed

lemma round_div_mono:
  assumes b: "0 < b" and le: "a \<le> c"
  shows "round_div a b \<le> round_div c b"
proof (cases "a div b = c div b")
  case True
  then have "a mod b \<le> c mod b" using le by (simp add: minus_div_mult_eq_mod [symmetric])
  with True show ?thesis by (auto simp: round_div_def Let_def)
next
  case False
  moreover have "a div b \<le> c div b" using b le by (simp add: zdiv_mono1)
  ultimately have "a div b + 1 \<le> c div b" by simp
  then show ?thesis by (auto simp: round_div_def Let_def)
qed

text \<open>Decimal digits of an integer, as in \<open>str(n)\<close> and f-strings.\<close>

fun digits_of_nat :: "nat \<Rightarrow> string" where
  "digits_of_nat n =
     (if n < 10 then [char_of (48 + n)] else digits_of_nat (n div 10) @ [char_of (48 + n mod 10)])"

declare digits_of_nat.simps [simp del]

definition str_of_int :: "int \<Rightarrow> string" where
  "str_of_int i = (if i < 0 then ''-'' @ digits_of_nat (nat (- i)) else digits_of_nat (nat i))"

subsection \<open>Wrapping counters\<close>

text \<open>
  Three counters of the transport count \<open>1 .. hi\<close> and wrap back to 1: the chunk sequence, the
  encryption counter and the message id. The contract is what the code does at and below the
  wrap; the lemmas give the position after any number of steps and that values repeat exactly
  with period \<open>hi\<close>.
\<close>

locale cyclic_counter =
  fixes nxt :: "int \<Rightarrow> int" and hi :: int
  assumes hi_pos: "1 \<le> hi"
    and nxt_below: "1 \<le> k \<Longrightarrow> k < hi \<Longrightarrow> nxt k = k + 1"
    and nxt_wrap: "nxt hi = 1"
begin

lemma mod_succ_range: "1 \<le> m \<Longrightarrow> 1 \<le> x mod m + 1 \<and> x mod m + 1 \<le> (m :: int)"
  using pos_mod_bound [of m x] pos_mod_sign [of m x] by linarith

lemma nxt_range: "1 \<le> k \<Longrightarrow> k \<le> hi \<Longrightarrow> 1 \<le> nxt k \<and> nxt k \<le> hi"
  using hi_pos nxt_wrap nxt_below [of k] by (cases "k = hi") auto

lemma nxt_mod: "1 \<le> k \<Longrightarrow> k \<le> hi \<Longrightarrow> nxt k = k mod hi + 1"
  using hi_pos nxt_wrap nxt_below [of k] by (cases "k = hi") auto

lemma iterate_mod: "1 \<le> k \<Longrightarrow> k \<le> hi \<Longrightarrow> (nxt ^^ n) k = (k - 1 + int n) mod hi + 1"
proof (induction n)
  case 0
  then show ?case by simp
next
  case (Suc n)
  let ?m = "(k - 1 + int n) mod hi + 1"
  have "1 \<le> ?m \<and> ?m \<le> hi" using hi_pos by (rule mod_succ_range)
  then have "nxt ?m = ?m mod hi + 1" by (simp add: nxt_mod)
  also have "?m mod hi = (k - 1 + int n + 1) mod hi"
    by (rule mod_add_left_eq)
  also have "k - 1 + int n + 1 = k - 1 + int (Suc n)"
    by simp
  finally show ?case using Suc by simp
qed

lemma iterate_range: "1 \<le> k \<Longrightarrow> k \<le> hi \<Longrightarrow> 1 \<le> (nxt ^^ n) k \<and> (nxt ^^ n) k \<le> hi"
  using mod_succ_range [OF hi_pos] by (simp add: iterate_mod)

lemma iterate_eq_iff:
  assumes "1 \<le> k" and "k \<le> hi"
  shows "(nxt ^^ m) k = (nxt ^^ n) k \<longleftrightarrow> int m mod hi = int n mod hi"
proof -
  have "(nxt ^^ m) k = (nxt ^^ n) k \<longleftrightarrow> (k - 1 + int m) mod hi = (k - 1 + int n) mod hi"
    using assms by (simp add: iterate_mod)
  also have "\<dots> \<longleftrightarrow> int m mod hi = int n mod hi"
    by (simp add: mod_eq_dvd_iff)
  finally show ?thesis .
qed

lemma iterate_distinct:
  assumes "1 \<le> k" and "k \<le> hi" and "int m < hi" and "int n < hi" and "m \<noteq> n"
  shows "(nxt ^^ m) k \<noteq> (nxt ^^ n) k"
  using assms by (simp add: iterate_eq_iff)

end

end
