(* ===== verification/Tilt_Types.thy ===== *)
theory Tilt_Types
  imports Prelude
begin

text \<open>
  Enumerations, dataclasses and exceptions of \<open>smartblinds_ble.tilt\<close>
  (\<open>tilt/protocol.py\<close> and \<open>tilt/ble.py\<close>).

  An \<open>IntEnum\<close> is a datatype with its wire value; calling the enumeration on a byte is
  \<open>crypto_command_of\<close> / \<open>shade_command_of\<close>, with \<open>None\<close> for Python's \<open>ValueError\<close>. All
  exceptions the Tilt package raises or catches are one datatype; \<open>isinstance_exc\<close> is
  Python's subclass test, which decides every \<open>except\<close> clause of the model.
\<close>

subsection \<open>Commands\<close>

datatype crypto_command =
    Crypto_ACK
  | Crypto_REQUEST_PROTOCOL_VERSIONS
  | Crypto_SELECT_PROTOCOL_VERSION
  | Crypto_REQUEST_NONCE

fun crypto_value :: "crypto_command \<Rightarrow> byte" where
  "crypto_value Crypto_ACK = 0x01"
| "crypto_value Crypto_REQUEST_PROTOCOL_VERSIONS = 0x02"
| "crypto_value Crypto_SELECT_PROTOCOL_VERSION = 0x03"
| "crypto_value Crypto_REQUEST_NONCE = 0x0A"

definition crypto_command_of :: "byte \<Rightarrow> crypto_command option" where
  "crypto_command_of b =
     (if b = 0x01 then Some Crypto_ACK
      else if b = 0x02 then Some Crypto_REQUEST_PROTOCOL_VERSIONS
      else if b = 0x03 then Some Crypto_SELECT_PROTOCOL_VERSION
      else if b = 0x0A then Some Crypto_REQUEST_NONCE
      else None)"

datatype shade_command =
    Shade_ACK
  | Shade_GET_VERSION
  | Shade_GET_NAME
  | Shade_GET_STATUS
  | Shade_GET_POSITION
  | Shade_SET_POSITION
  | Shade_GET_BATTERY

fun shade_value :: "shade_command \<Rightarrow> byte" where
  "shade_value Shade_ACK = 0x01"
| "shade_value Shade_GET_VERSION = 0x04"
| "shade_value Shade_GET_NAME = 0x05"
| "shade_value Shade_GET_STATUS = 0x10"
| "shade_value Shade_GET_POSITION = 0x12"
| "shade_value Shade_SET_POSITION = 0x13"
| "shade_value Shade_GET_BATTERY = 0x16"

definition shade_command_of :: "byte \<Rightarrow> shade_command option" where
  "shade_command_of b =
     (if b = 0x01 then Some Shade_ACK
      else if b = 0x04 then Some Shade_GET_VERSION
      else if b = 0x05 then Some Shade_GET_NAME
      else if b = 0x10 then Some Shade_GET_STATUS
      else if b = 0x12 then Some Shade_GET_POSITION
      else if b = 0x13 then Some Shade_SET_POSITION
      else if b = 0x16 then Some Shade_GET_BATTERY
      else None)"

fun shade_name :: "shade_command \<Rightarrow> string" where
  "shade_name Shade_ACK = ''ACK''"
| "shade_name Shade_GET_VERSION = ''GET_VERSION''"
| "shade_name Shade_GET_NAME = ''GET_NAME''"
| "shade_name Shade_GET_STATUS = ''GET_STATUS''"
| "shade_name Shade_GET_POSITION = ''GET_POSITION''"
| "shade_name Shade_SET_POSITION = ''SET_POSITION''"
| "shade_name Shade_GET_BATTERY = ''GET_BATTERY''"

lemma crypto_command_of_value [simp]: "crypto_command_of (crypto_value c) = Some c"
  by (cases c) (simp_all add: crypto_command_of_def)

lemma crypto_value_of_command: "crypto_command_of b = Some c \<Longrightarrow> crypto_value c = b"
  by (auto simp: crypto_command_of_def split: if_splits)

lemma shade_command_of_value [simp]: "shade_command_of (shade_value c) = Some c"
  by (cases c) (simp_all add: shade_command_of_def)

lemma shade_value_of_command: "shade_command_of b = Some c \<Longrightarrow> shade_value c = b"
  by (auto simp: shade_command_of_def split: if_splits)

lemma shade_value_inject [simp]: "shade_value c = shade_value d \<longleftrightarrow> c = d"
  by (metis option.inject shade_command_of_value)

lemma crypto_value_inject [simp]: "crypto_value c = crypto_value d \<longleftrightarrow> c = d"
  by (metis option.inject crypto_command_of_value)

text \<open>An \<open>IntEnum\<close> compares as its value.\<close>

instantiation shade_command :: linorder
begin

definition less_eq_shade_command :: "shade_command \<Rightarrow> shade_command \<Rightarrow> bool" where
  "less_eq_shade_command c d \<longleftrightarrow> shade_value c \<le> shade_value d"

definition less_shade_command :: "shade_command \<Rightarrow> shade_command \<Rightarrow> bool" where
  "less_shade_command c d \<longleftrightarrow> shade_value c < shade_value d"

instance
  by standard
    (auto simp: less_eq_shade_command_def less_shade_command_def simp flip: shade_value_inject)

end

definition READ_COMMANDS :: "shade_command set" where
  "READ_COMMANDS =
     {Shade_GET_VERSION, Shade_GET_NAME, Shade_GET_STATUS, Shade_GET_POSITION,
      Shade_GET_BATTERY}"

definition WRITE_COMMANDS :: "shade_command set" where
  "WRITE_COMMANDS = {Shade_SET_POSITION}"

definition RUNTIME_COMMANDS :: "shade_command set" where
  "RUNTIME_COMMANDS = READ_COMMANDS \<union> WRITE_COMMANDS"

definition SUPPORTED_CRYPTO_PROTOCOLS :: "int list" where
  "SUPPORTED_CRYPTO_PROTOCOLS = [2, 1]"

lemma RUNTIME_COMMANDS_iff: "c \<in> RUNTIME_COMMANDS \<longleftrightarrow> c \<noteq> Shade_ACK"
  by (cases c) (auto simp: RUNTIME_COMMANDS_def READ_COMMANDS_def WRITE_COMMANDS_def)

lemma READ_COMMANDS_iff: "c \<in> READ_COMMANDS \<longleftrightarrow> c \<noteq> Shade_ACK \<and> c \<noteq> Shade_SET_POSITION"
  by (cases c) (auto simp: READ_COMMANDS_def)

subsection \<open>Status and exceptions\<close>

record shade_status =
  raw_position :: int
  battery_percent :: int
  charge_status :: int
  calibrated :: bool

datatype exc =
    TiltProtocolError string
  | UnsafeCommandError string
  | AuthenticationError string
  | TiltBleError string
  | TiltBleTimeout string
  | TiltBleCleanupError string
  | AmbiguousPositionWrite string
  | PositionVerificationPending string shade_status
  | BleakError string
  | TimeoutError
  | QueueFull
  | OtherException string
  | CancelledError

datatype exc_class =
    BaseException_class
  | Exception_class
  | RuntimeError_class
  | TiltProtocolError_class
  | UnsafeCommandError_class
  | AuthenticationError_class
  | TiltBleError_class
  | TiltBleTimeout_class
  | TiltBleCleanupError_class
  | AmbiguousPositionWrite_class
  | PositionVerificationPending_class
  | BleakError_class
  | TimeoutError_class
  | QueueFull_class
  | CancelledError_class

text \<open>The method resolution order of each exception's class, most specific class first.\<close>

fun exc_mro :: "exc \<Rightarrow> exc_class list" where
  "exc_mro (TiltProtocolError _) =
     [TiltProtocolError_class, RuntimeError_class, Exception_class, BaseException_class]"
| "exc_mro (UnsafeCommandError _) =
     [UnsafeCommandError_class, TiltProtocolError_class, RuntimeError_class, Exception_class,
      BaseException_class]"
| "exc_mro (AuthenticationError _) =
     [AuthenticationError_class, TiltProtocolError_class, RuntimeError_class, Exception_class,
      BaseException_class]"
| "exc_mro (TiltBleError _) =
     [TiltBleError_class, RuntimeError_class, Exception_class, BaseException_class]"
| "exc_mro (TiltBleTimeout _) =
     [TiltBleTimeout_class, TiltBleError_class, RuntimeError_class, Exception_class,
      BaseException_class]"
| "exc_mro (TiltBleCleanupError _) =
     [TiltBleCleanupError_class, RuntimeError_class, Exception_class, BaseException_class]"
| "exc_mro (AmbiguousPositionWrite _) =
     [AmbiguousPositionWrite_class, TiltBleError_class, RuntimeError_class, Exception_class,
      BaseException_class]"
| "exc_mro (PositionVerificationPending _ _) =
     [PositionVerificationPending_class, AmbiguousPositionWrite_class, TiltBleError_class,
      RuntimeError_class, Exception_class, BaseException_class]"
| "exc_mro (BleakError _) = [BleakError_class, Exception_class, BaseException_class]"
| "exc_mro TimeoutError = [TimeoutError_class, Exception_class, BaseException_class]"
| "exc_mro QueueFull = [QueueFull_class, Exception_class, BaseException_class]"
| "exc_mro (OtherException _) = [Exception_class, BaseException_class]"
| "exc_mro CancelledError = [CancelledError_class, BaseException_class]"

definition isinstance_exc :: "exc \<Rightarrow> exc_class list \<Rightarrow> bool" where
  "isinstance_exc e cs \<longleftrightarrow> (\<exists>c \<in> set cs. c \<in> set (exc_mro e))"

end
