(* ===== verification/Checksum.thy ===== *)
theory Checksum
  imports Tilt_Types
begin

text \<open>
  The CRC-16 of \<open>tilt/protocol.py\<close> (\<open>crc16\<close>, \<open>_append_checksum\<close>, \<open>_verify_checksum\<close>).

  \<open>crc16\<close> is the code's table-free routine on unbounded integers. It is shown equal to the
  textbook bit-by-bit CRC-16/CCITT-FALSE (polynomial 0x1021, initial value 0xFFFF, most
  significant bit first), from which follow its range and that a change confined to two
  adjacent bytes of a message is always detected.
\<close>

subsection \<open>The routine\<close>

definition crc16_step :: "int \<Rightarrow> byte \<Rightarrow> int" where
  "crc16_step value0 b =
     (let value1 = ((push_bit 8 value0 OR drop_bit 8 value0) AND 0xFFFF) XOR uint b;
          value2 = value1 XOR drop_bit 4 (value1 AND 0xFF);
          value3 = value2 XOR (push_bit 12 value2 AND 0xFFFF)
      in value3 XOR (push_bit 5 (value3 AND 0xFF) AND 0xFFFF))"

definition crc16 :: "bytes \<Rightarrow> int" where
  "crc16 data = foldl crc16_step 0xFFFF data AND 0xFFFF"

definition append_checksum :: "bytes \<Rightarrow> bytes \<Rightarrow> bytes" where
  "append_checksum header payload =
     (let checksum = crc16 (header @ payload)
      in header @ payload @ to_bytes_little 2 checksum)"

definition verify_checksum :: "bytes \<Rightarrow> bytes \<Rightarrow> exc + bytes" where
  "verify_checksum header payload_with_checksum =
     (if length payload_with_checksum < 3
      then Inl (TiltProtocolError ''Tilt message is too short for payload and checksum.'')
      else let payload = take (length payload_with_checksum - 2) payload_with_checksum;
               received = from_bytes_little (drop (length payload_with_checksum - 2) payload_with_checksum)
           in if to_bytes_little 2 received \<noteq> to_bytes_little 2 (crc16 (header @ payload))
              then Inl (AuthenticationError ''Tilt message checksum verification failed.'')
              else Inr payload)"

subsection \<open>The reference: CRC-16/CCITT-FALSE bit by bit\<close>

definition crc_bit_step :: "16 word \<Rightarrow> 16 word" where
  "crc_bit_step v = (if bit v 15 then push_bit 1 v XOR 0x1021 else push_bit 1 v)"

definition crc_ref_step :: "16 word \<Rightarrow> byte \<Rightarrow> 16 word" where
  "crc_ref_step v b = (crc_bit_step ^^ 8) (v XOR push_bit 8 (ucast b))"

definition crc_ccitt_false :: "bytes \<Rightarrow> 16 word" where
  "crc_ccitt_false data = foldl crc_ref_step 0xFFFF data"

subsection \<open>The routine on 16-bit words\<close>

definition crc_word_step :: "16 word \<Rightarrow> byte \<Rightarrow> 16 word" where
  "crc_word_step v b =
     (let v1 = (push_bit 8 v OR drop_bit 8 v) XOR ucast b;
          v2 = v1 XOR drop_bit 4 (v1 AND mask 8);
          v3 = v2 XOR push_bit 12 v2
      in v3 XOR push_bit 5 (v3 AND mask 8))"

lemma uint16_ops:
  fixes v w :: "16 word"
  shows "uint v XOR uint w = uint (v XOR w)"
    and "uint v OR uint w = uint (v OR w)"
    and "uint v AND 0xFF = uint (v AND mask 8)"
    and "uint v AND 0xFFFF = uint v"
    and "push_bit k (uint v) AND 0xFFFF = uint (push_bit k v)"
    and "drop_bit k (uint v) = uint (drop_bit k v)"
    and "uint (b :: byte) = uint (ucast b :: 16 word)"
proof -
  have m: "(0xFFFF :: int) = mask 16" "(0xFF :: int) = uint (mask 8 :: 16 word)"
    by (simp_all add: mask_eq_exp_minus_1)
  have t: "take_bit 16 (uint v) = uint v"
    using uint_bounded [of v] by (simp add: take_bit_int_eq_self)
  show "uint v XOR uint w = uint (v XOR w)" by (simp add: unsigned_xor_eq)
  show "uint v OR uint w = uint (v OR w)" by (simp add: unsigned_or_eq)
  show "uint v AND 0xFF = uint (v AND mask 8)" unfolding m(2) by (simp add: unsigned_and_eq)
  show "uint v AND 0xFFFF = uint v"
    unfolding m(1) by (simp add: t flip: take_bit_eq_mask)
  show "push_bit k (uint v) AND 0xFFFF = uint (push_bit k v)"
    unfolding m(1) by (simp add: unsigned_push_bit_eq flip: take_bit_eq_mask)
  show "drop_bit k (uint v) = uint (drop_bit k v)" by (simp add: unsigned_drop_bit_eq t)
  show "uint (b :: byte) = uint (ucast b :: 16 word)"
    using uint_byte_bounds [of b] by (simp add: unsigned_ucast_eq take_bit_int_eq_self)
qed

lemma crc16_step_word: "crc16_step (uint v) b = uint (crc_word_step v b)"
  unfolding crc16_step_def crc_word_step_def Let_def
  by (simp only: bit.conj_disj_distrib2 uint16_ops)

subsection \<open>Bits of the reference\<close>

lemmas bit_word_ops =
  bit_xor_iff bit_or_iff bit_and_iff bit_push_bit_iff bit_drop_bit_eq comp_def bit_mask_iff
  possible_bit_word bit_ucast_iff

lemma bit_beyond:
  "8 \<le> n \<Longrightarrow> \<not> bit (b :: byte) n"
  "16 \<le> n \<Longrightarrow> \<not> bit (v :: 16 word) n"
  by (auto dest: bit_imp_le_length)

lemma bit_crc_polynomial: "bit (0x1021 :: 16 word) n \<longleftrightarrow> n = 0 \<or> n = 5 \<or> n = 12"
proof -
  have "(0x1021 :: 16 word) = push_bit 0 1 OR push_bit 5 1 OR push_bit 12 1" by simp
  then show ?thesis by (simp only: bit_or_iff bit_push_bit_iff bit_1_iff) auto
qed

lemma bit_crc_bit_step:
  assumes "n < 16"
  shows "bit (crc_bit_step v) n \<longleftrightarrow>
    ((0 < n \<and> bit v (n - 1)) \<noteq> (bit v 15 \<and> (n = 0 \<or> n = 5 \<or> n = 12)))"
proof -
  have "bit (push_bit 1 v) n \<longleftrightarrow> 0 < n \<and> bit v (n - 1)"
    unfolding bit_word_ops using assms by auto
  then show ?thesis
    by (simp only: crc_bit_step_def bit_xor_iff bit_crc_polynomial
        if_distrib [where f = "\<lambda>x. bit x n"] split: if_splits) auto
qed

lemma bit_high_byte:
  "bit (v XOR push_bit 8 (ucast (b :: byte)) :: 16 word) n \<longleftrightarrow>
    (bit v n \<noteq> (n < 16 \<and> 8 \<le> n \<and> bit b (n - 8)))"
  unfolding bit_word_ops by auto

lemma bit_low_byte:
  "bit (v XOR ucast (b :: byte) :: 16 word) n \<longleftrightarrow> (bit v n \<noteq> (n < 8 \<and> bit b n))"
  unfolding bit_word_ops using bit_beyond(1) [of n b] by auto

lemma below_16_cases:
  "(n :: nat) < 16 \<Longrightarrow> n \<in> {0, 1, 2, 3, 4, 5, 6, 7, 8, 9, 10, 11, 12, 13, 14, 15}"
  by (simp add: less_Suc_eq numeral_eq_Suc)

lemma funpow_8: "(f ^^ 8) x = f (f (f (f (f (f (f (f x)))))))"
  by (simp add: eval_nat_numeral)

lemma crc_ref_step_eq: "crc_ref_step v b = crc_word_step v b"
proof (rule bit_word_eqI)
  fix n assume "n < LENGTH(16)"
  then have "n < 16" by simp
  then show "bit (crc_ref_step v b) n \<longleftrightarrow> bit (crc_word_step v b) n"
    unfolding crc_ref_step_def
    apply -
    apply (drule below_16_cases)
    apply (elim insertE emptyE)
    apply (simp_all add: funpow_8 bit_crc_bit_step bit_high_byte)
    apply (unfold crc_word_step_def Let_def bit_word_ops)
    apply (simp_all add: bit_beyond)
    apply argo+
    done
qed

lemma foldl_crc16: "foldl crc16_step (uint v) data = uint (foldl crc_ref_step v data)"
  by (induction data arbitrary: v) (simp_all add: crc16_step_word crc_ref_step_eq)

lemma crc16_eq_reference: "crc16 data = uint (crc_ccitt_false data)"
  using foldl_crc16 [of "0xFFFF" data] by (simp add: crc16_def crc_ccitt_false_def uint16_ops)

lemma crc16_range: "0 \<le> crc16 data" "crc16 data < 65536"
  using uint_bounded [of "crc_ccitt_false data"] by (simp_all add: crc16_eq_reference)

subsection \<open>Injectivity and error detection\<close>

text \<open>
  The polynomial has a constant term, so one bit step loses nothing: the bit shifted out
  reappears as bit 0 of the result.
\<close>

lemma inj_crc_bit_step: "inj crc_bit_step"
proof (rule injI)
  fix v w
  assume eq: "crc_bit_step v = crc_bit_step w"
  then have top: "bit v 15 \<longleftrightarrow> bit w 15"
    using bit_crc_bit_step [of 0 v] bit_crc_bit_step [of 0 w] by simp
  show "v = w"
  proof (rule bit_word_eqI)
    fix n assume "n < LENGTH(16)"
    show "bit v n \<longleftrightarrow> bit w n"
    proof (cases "n = 15")
      case True
      with top show ?thesis by simp
    next
      case False
      with \<open>n < LENGTH(16)\<close> have "Suc n < 16" by simp
      then show ?thesis
        using eq top bit_crc_bit_step [of "Suc n" v] bit_crc_bit_step [of "Suc n" w] by auto
    qed
  qed
qed

lemma inj_funpow_crc: "(crc_bit_step ^^ n) v = (crc_bit_step ^^ n) w \<longleftrightarrow> v = w"
  using inj_fn [OF inj_crc_bit_step, of n] by (auto dest: injD)

lemma crc_ref_step_inject_state: "crc_ref_step v b = crc_ref_step w b \<longleftrightarrow> v = w"
proof
  assume "crc_ref_step v b = crc_ref_step w b"
  then have "v XOR push_bit 8 (ucast b) = w XOR push_bit 8 (ucast b)"
    by (simp add: crc_ref_step_def inj_funpow_crc)
  then show "v = w"
    by (auto simp: bit_eq_iff bit_xor_iff)
qed simp

lemma foldl_crc_inject:
  "foldl crc_ref_step v data = foldl crc_ref_step w data \<longleftrightarrow> v = w"
  by (induction data arbitrary: v w) (simp_all add: crc_ref_step_inject_state)

text \<open>Eight bit steps do not mix the low byte: they only move it up.\<close>

lemma funpow_8_low_byte:
  "(crc_bit_step ^^ 8) (v XOR ucast (b :: byte)) = (crc_bit_step ^^ 8) v XOR push_bit 8 (ucast b)"
proof (rule bit_word_eqI)
  fix n assume "n < LENGTH(16)"
  then have "n < 16" by simp
  then show "bit ((crc_bit_step ^^ 8) (v XOR ucast b)) n \<longleftrightarrow>
      bit ((crc_bit_step ^^ 8) v XOR push_bit 8 (ucast b)) n"
    unfolding bit_high_byte
    apply -
    apply (drule below_16_cases)
    apply (elim insertE emptyE)
    apply (simp_all add: funpow_8 bit_crc_bit_step bit_low_byte)
    apply argo+
    done
qed

lemma crc_two_bytes:
  "crc_ref_step (crc_ref_step v a) b =
     (crc_bit_step ^^ 16) ((v XOR push_bit 8 (ucast a)) XOR ucast b)"
proof -
  have "crc_ref_step (crc_ref_step v a) b =
      (crc_bit_step ^^ 8) ((crc_bit_step ^^ 8) ((v XOR push_bit 8 (ucast a)) XOR ucast b))"
    by (simp add: crc_ref_step_def funpow_8_low_byte)
  also have "\<dots> = (crc_bit_step ^^ 16) ((v XOR push_bit 8 (ucast a)) XOR ucast b)"
    using funpow_add [of 8 8 crc_bit_step] by (simp add: fun_eq_iff)
  finally show ?thesis .
qed

lemma two_bytes_inject:
  fixes a b a' b' :: byte
  assumes "((v :: 16 word) XOR push_bit 8 (ucast a)) XOR ucast b =
    (v XOR push_bit 8 (ucast a')) XOR ucast b'"
  shows "a = a' \<and> b = b'"
proof -
  have bits: "bit ((v XOR push_bit 8 (ucast x)) XOR ucast y) n \<longleftrightarrow>
      ((bit v n \<noteq> (n < 16 \<and> 8 \<le> n \<and> bit x (n - 8))) \<noteq> (n < 8 \<and> bit y n))" for x y :: byte and n
    by (simp only: bit_low_byte bit_high_byte)
  have "bit b n \<longleftrightarrow> bit b' n" if "n < 8" for n
    using assms bits [of a b n] bits [of a' b' n] that by auto
  moreover have "bit a n \<longleftrightarrow> bit a' n" if "n < 8" for n
    using assms bits [of a b "n + 8"] bits [of a' b' "n + 8"] that by auto
  ultimately show ?thesis by (auto intro!: bit_word_eqI)
qed

lemma crc16_detects_two_bytes:
  assumes "(a, b) \<noteq> (a', b')"
  shows "crc16 (xs @ [a, b] @ ys) \<noteq> crc16 (xs @ [a', b'] @ ys)"
proof -
  let ?v = "foldl crc_ref_step 0xFFFF xs"
  have "crc_ref_step (crc_ref_step ?v a) b \<noteq> crc_ref_step (crc_ref_step ?v a') b'"
    using assms two_bytes_inject [of ?v a b a' b'] by (auto simp: crc_two_bytes inj_funpow_crc)
  then show ?thesis
    by (auto simp: crc16_eq_reference crc_ccitt_false_def foldl_crc_inject dest!: word_uint_eqI)
qed

subsection \<open>Appending and verifying\<close>

lemma verify_checksum_field:
  assumes "payload \<noteq> []" and "0 \<le> c" and "c < 65536"
  shows "verify_checksum header (payload @ to_bytes_little 2 c) =
    (if c = crc16 (header @ payload) then Inr payload
     else Inl (AuthenticationError ''Tilt message checksum verification failed.''))"
proof -
  have "0 < length payload" using assms by simp
  then show ?thesis
    using assms crc16_range [of "header @ payload"] to_bytes_little_inject [of c 2 "crc16 (header @ payload)"]
    by (simp add: verify_checksum_def Let_def from_to_bytes_little)
qed

lemma verify_append_checksum:
  assumes "payload \<noteq> []"
  shows "verify_checksum header (payload @ to_bytes_little 2 (crc16 (header @ payload))) = Inr payload"
  using verify_checksum_field [OF assms, of "crc16 (header @ payload)"] by (simp add: crc16_range)

lemma verify_checksum_Inr:
  assumes "verify_checksum header body = Inr payload"
  shows "body = payload @ to_bytes_little 2 (crc16 (header @ payload)) \<and> payload \<noteq> []"
proof -
  let ?n = "length body - 2"
  from assms have len: "3 \<le> length body" and pay: "payload = take ?n body"
    and eq: "to_bytes_little 2 (from_bytes_little (drop ?n body)) =
      to_bytes_little 2 (crc16 (header @ payload))"
    by (auto simp: verify_checksum_def Let_def split: if_splits)
  have "length (drop ?n body) = 2" using len by simp
  then have "drop ?n body = to_bytes_little 2 (crc16 (header @ payload))"
    using eq to_from_bytes_little [of "drop ?n body"] by simp
  moreover have "body = payload @ drop ?n body" using pay by simp
  moreover have "payload \<noteq> []" using len pay by auto
  ultimately show ?thesis by simp
qed

lemma verify_checksum_iff:
  "verify_checksum header body = Inr payload \<longleftrightarrow>
     body = payload @ to_bytes_little 2 (crc16 (header @ payload)) \<and> payload \<noteq> []"
  using verify_append_checksum verify_checksum_Inr by blast

lemma verify_checksum_error_cases:
  "verify_checksum header body = Inl e \<Longrightarrow>
     e = TiltProtocolError ''Tilt message is too short for payload and checksum.'' \<or>
     e = AuthenticationError ''Tilt message checksum verification failed.''"
  by (auto simp: verify_checksum_def Let_def split: if_splits)

text \<open>Two messages with their checksums that differ in two adjacent bytes only are the same.\<close>

lemma split_pair:
  "Suc k < length m \<Longrightarrow> m = take k m @ [m ! k, m ! Suc k] @ drop (Suc (Suc k)) m"
  by (simp add: Cons_nth_drop_Suc)

lemma same_codeword:
  assumes len: "length m' = length m" and k: "Suc k \<noteq> length m"
    and eq: "\<forall>i < length m + 2. i \<noteq> k \<and> i \<noteq> Suc k \<longrightarrow>
      (m' @ to_bytes_little 2 (crc16 m')) ! i = (m @ to_bytes_little 2 (crc16 m)) ! i"
  shows "m' = m"
proof (cases "Suc k < length m")
  case True
  have "to_bytes_little 2 (crc16 m') ! j = to_bytes_little 2 (crc16 m) ! j" if "j < 2" for j
    using eq [rule_format, of "length m + j"] True that len by (simp add: nth_append)
  then have "to_bytes_little 2 (crc16 m') = to_bytes_little 2 (crc16 m)" by (intro nth_equalityI) simp_all
  then have crc: "crc16 m' = crc16 m" using to_bytes_little_inject [of "crc16 m'" 2 "crc16 m"] crc16_range by simp
  have nth: "m' ! i = m ! i" if "i < length m" "i \<noteq> k" "i \<noteq> Suc k" for i
    using eq [rule_format, of i] that len by (simp add: nth_append)
  have parts: "take k m' = take k m" "drop (Suc (Suc k)) m' = drop (Suc (Suc k)) m"
    using nth True len by (auto intro!: nth_equalityI)
  have "(m' ! k, m' ! Suc k) = (m ! k, m ! Suc k)"
    using crc16_detects_two_bytes [of "m' ! k" "m' ! Suc k" "m ! k" "m ! Suc k" "take k m" "drop (Suc (Suc k)) m"]
      crc split_pair [of k m] split_pair [of k m'] parts True len by metis
  then show ?thesis using split_pair [of k m] split_pair [of k m'] parts True len by (metis prod.inject)
next
  case False
  then have "m' ! i = m ! i" if "i < length m" for i
    using eq [rule_format, of i] that k len by (simp add: nth_append)
  then show ?thesis using len by (intro nth_equalityI) simp_all
qed

lemma straddling_change_accepted:
  "append_checksum [0x80, 0x00] [0x02, 0x10] = [0x80, 0x00, 0x02, 0x10, 0xAB, 0x2D]"
  "verify_checksum [0x80, 0x00] [0x02, 0x99, 0x0A, 0x2D] = Inr [0x02, 0x99]"
  by code_simp+

subsection \<open>Properties\<close>

text \<open>C21: The table-free routine \<open>crc16\<close> computes CRC-16/CCITT-FALSE (polynomial 0x1021,
  initial value 0xFFFF, most significant bit first) of every byte string.\<close>

theorem crc16_is_ccitt_false:
  "crc16 data = uint (crc_ccitt_false data) \<and> 0 \<le> crc16 data \<and> crc16 data < 65536"
  using crc16_eq_reference crc16_range by simp

text \<open>C22: A message made by \<open>_append_checksum\<close> that arrives at the same length with any change within
  two adjacent bytes, in the header, the payload or the checksum, never passes \<open>_verify_checksum\<close>:
  the call raises \<open>AuthenticationError\<close>. The one exception is a change of the pair that the last
  payload byte and the first checksum byte form, which the byte order of the checksum can hide
  (\<open>straddling_change_accepted\<close>).\<close>

theorem corrupted_message_rejected:
  assumes "payload \<noteq> []" and "length header' = length header" and "length body' = length payload + 2"
    and "header' @ body' \<noteq> append_checksum header payload"
    and "\<forall>i < length (header' @ body'). i \<noteq> k \<and> i \<noteq> Suc k \<longrightarrow>
      (header' @ body') ! i = append_checksum header payload ! i"
    and "Suc k \<noteq> length (header @ payload)"
  shows "verify_checksum header' body' =
    Inl (AuthenticationError ''Tilt message checksum verification failed.'')"
proof (cases "verify_checksum header' body'")
  case (Inr payload')
  then have body': "body' = payload' @ to_bytes_little 2 (crc16 (header' @ payload'))"
    using verify_checksum_Inr by blast
  then have "length payload' = length payload" using assms(3) by simp
  then have "header' @ body' = append_checksum header payload"
    using same_codeword [of "header' @ payload'" "header @ payload" k] assms(2,5,6)
    by (simp add: body' append_checksum_def)
  with assms(4) show ?thesis by contradiction
next
  case (Inl e)
  then show ?thesis using verify_checksum_error_cases [OF Inl] assms(1,3)
    by (auto simp: verify_checksum_def Let_def split: if_splits)
qed

theorem corrupted_message_rejected_witness:
  "verify_checksum [0x80, 0] ([0x02, 0x11] @ to_bytes_little 2 (crc16 [0x80, 0, 0x02, 0x10])) =
    Inl (AuthenticationError ''Tilt message checksum verification failed.'')"
proof (rule corrupted_message_rejected [where header = "[0x80, 0]" and payload = "[0x02, 0x10]" and k = 2])
  show "\<forall>i < length ([0x80, 0] @ [0x02, 0x11] @ to_bytes_little 2 (crc16 [0x80, 0, 0x02, 0x10])). i \<noteq> 2 \<and> i \<noteq> Suc 2 \<longrightarrow>
      ([0x80, 0] @ [0x02, 0x11] @ to_bytes_little 2 (crc16 [0x80, 0, 0x02, 0x10])) ! i =
      append_checksum [0x80, 0] [0x02, 0x10] ! i"
    by (auto simp: append_checksum_def nth_append less_Suc_eq nth_Cons split: nat.split)
qed (simp_all add: append_checksum_def)

end
