(* ===== verification/Crypto_Layer.thy ===== *)
theory Crypto_Layer
  imports Checksum Hmac_Sha256
begin

text \<open>
  The plaintext handshake layer of \<open>tilt/protocol.py\<close>: the pairing-key proof, the three
  crypto requests and the parsers of their responses.

  A crypto frame is the two-byte header 0x8000, a command byte, its payload and a CRC. The
  encoders accept exactly the allowlisted requests; the parser accepts exactly the frames that
  \<open>append_checksum\<close> builds from a known command byte, so that encoding and parsing are inverse.
\<close>

definition CRYPTO_LAYER_FLAG :: int where
  "CRYPTO_LAYER_FLAG = 0x8000"

definition PAIRING_KEY_PROOF_MESSAGE :: bytes where
  "PAIRING_KEY_PROOF_MESSAGE = map of_char ''Signed Trogdor string, by Ryjan.''"

record crypto_response =
  cr_command :: crypto_command
  cr_payload :: bytes

record nonce_response =
  nr_nonce :: bytes
  nr_key_proof :: bytes

subsection \<open>The pairing key\<close>

definition require_key_and_nonce :: "bytes \<Rightarrow> bytes \<Rightarrow> exc + unit" where
  "require_key_and_nonce key nonce =
     (if length key \<noteq> 32 then Inl (TiltProtocolError ''Tilt pairing keys must be exactly 32 bytes.'')
      else if length nonce \<noteq> 12 then Inl (TiltProtocolError ''Tilt nonces must be exactly 12 bytes.'')
      else Inr ())"

definition pairing_key_proof :: "bytes \<Rightarrow> exc + bytes" where
  "pairing_key_proof key =
     (if length key \<noteq> 32 then Inl (TiltProtocolError ''Tilt pairing keys must be exactly 32 bytes.'')
      else Inr (hmac_sha256 key PAIRING_KEY_PROOF_MESSAGE))"

definition pairing_key_matches_proof :: "bytes \<Rightarrow> bytes \<Rightarrow> exc + bool" where
  "pairing_key_matches_proof key proof_bytes =
     (if length proof_bytes \<noteq> 32 then Inr False
      else rbind (pairing_key_proof key) (\<lambda>expected. Inr (compare_digest expected proof_bytes)))"

lemma require_key_and_nonce_Inr [simp]:
  "require_key_and_nonce key nonce = Inr u \<longleftrightarrow> length key = 32 \<and> length nonce = 12"
  by (simp add: require_key_and_nonce_def)

lemma pairing_key_matches_own_proof:
  "pairing_key_proof key = Inr p \<Longrightarrow> pairing_key_matches_proof key q = Inr (q = p)"
  by (auto simp: pairing_key_matches_proof_def pairing_key_proof_def compare_digest_def
      split: if_splits)

subsection \<open>Requests\<close>

fun check_crypto_request :: "crypto_command \<Rightarrow> bytes \<Rightarrow> exc + unit" where
  "check_crypto_request Crypto_REQUEST_PROTOCOL_VERSIONS payload =
     (if payload \<noteq> []
      then Inl (UnsafeCommandError ''Protocol-version request does not accept a payload.'')
      else Inr ())"
| "check_crypto_request Crypto_SELECT_PROTOCOL_VERSION payload =
     (if length payload \<noteq> 1 \<or> uint (payload ! 0) \<notin> set SUPPORTED_CRYPTO_PROTOCOLS
      then Inl (UnsafeCommandError ''Only supported AES-CTR protocol versions may be selected.'')
      else Inr ())"
| "check_crypto_request Crypto_REQUEST_NONCE payload =
     (if payload \<noteq> []
      then Inl (UnsafeCommandError ''Nonce request does not accept a payload.'')
      else Inr ())"
| "check_crypto_request Crypto_ACK payload =
     Inl (UnsafeCommandError ''Crypto command is not in the runtime allowlist.'')"

definition encode_crypto_request :: "crypto_command \<Rightarrow> bytes \<Rightarrow> exc + bytes" where
  "encode_crypto_request command payload =
     rbind (check_crypto_request command payload) (\<lambda>_.
       let header = to_bytes_big 2 CRYPTO_LAYER_FLAG
       in Inr (append_checksum header (crypto_value command # payload)))"

definition encode_protocol_versions_request :: "exc + bytes" where
  "encode_protocol_versions_request = encode_crypto_request Crypto_REQUEST_PROTOCOL_VERSIONS []"

text \<open>\<open>bytes([version])\<close> raises \<open>ValueError\<close> outside \<open>0 .. 255\<close>, which the code translates.\<close>

definition encode_protocol_selection :: "int \<Rightarrow> exc + bytes" where
  "encode_protocol_selection version =
     (if version < 0 \<or> 255 < version
      then Inl (UnsafeCommandError ''Protocol version must fit in one byte.'')
      else encode_crypto_request Crypto_SELECT_PROTOCOL_VERSION [word_of_int version])"

definition encode_nonce_request :: "exc + bytes" where
  "encode_nonce_request = encode_crypto_request Crypto_REQUEST_NONCE []"

subsection \<open>Responses\<close>

text \<open>
  The test against the set of all four enumeration members cannot fail in the code; it is the
  identity on \<open>crypto_command\<close> and kept as such.
\<close>

definition parse_crypto_response :: "bytes \<Rightarrow> exc + crypto_response" where
  "parse_crypto_response frame =
     (if length frame < 5 then Inl (TiltProtocolError ''Crypto response is too short.'')
      else let header = take 2 frame; header_value = from_bytes_big header
           in if header_value \<noteq> CRYPTO_LAYER_FLAG
              then Inl (TiltProtocolError ''Expected an unencrypted crypto-layer response.'')
              else rbind (verify_checksum header (drop 2 frame)) (\<lambda>payload.
                case payload of
                  [] \<Rightarrow> Inl (TiltProtocolError ''Unknown crypto response command.'')
                | c # rest \<Rightarrow>
                    (case crypto_command_of c of
                       None \<Rightarrow> Inl (TiltProtocolError ''Unknown crypto response command.'')
                     | Some command \<Rightarrow>
                         if command \<notin> {Crypto_ACK, Crypto_REQUEST_PROTOCOL_VERSIONS,
                                       Crypto_SELECT_PROTOCOL_VERSION, Crypto_REQUEST_NONCE}
                         then Inl (UnsafeCommandError
                           ''Crypto response is outside the runtime allowlist.'')
                         else Inr \<lparr>cr_command = command, cr_payload = rest\<rparr>)))"

definition parse_protocol_versions :: "crypto_response \<Rightarrow> exc + int list" where
  "parse_protocol_versions response =
     (if cr_command response \<noteq> Crypto_REQUEST_PROTOCOL_VERSIONS
      then Inl (TiltProtocolError ''Expected a protocol-version response.'')
      else case cr_payload response of
        [] \<Rightarrow> Inl (TiltProtocolError ''Protocol-version response is missing its count.'')
      | count # rest \<Rightarrow>
          (let versions = map uint (take (unat count) rest)
           in if length versions \<noteq> unat count
              then Inl (TiltProtocolError
                ''Protocol-version response length does not match its count.'')
              else Inr versions))"

definition parse_nonce_response :: "crypto_response \<Rightarrow> exc + nonce_response" where
  "parse_nonce_response response =
     (if cr_command response \<noteq> Crypto_REQUEST_NONCE
      then Inl (TiltProtocolError ''Expected a nonce response.'')
      else if length (cr_payload response) \<noteq> 44
      then Inl (TiltProtocolError ''Nonce response must contain 12 nonce and 32 proof bytes.'')
      else Inr \<lparr>nr_nonce = take 12 (cr_payload response),
                nr_key_proof = drop 12 (cr_payload response)\<rparr>)"

subsection \<open>Frames\<close>

text \<open>The frame of a command and payload, as both sides of the handshake build it.\<close>

definition crypto_frame :: "crypto_command \<Rightarrow> bytes \<Rightarrow> bytes" where
  "crypto_frame command payload =
     append_checksum (to_bytes_big 2 CRYPTO_LAYER_FLAG) (crypto_value command # payload)"

lemma crypto_header [simp]: "to_bytes_big 2 CRYPTO_LAYER_FLAG = [0x80, 0]"
  by (simp add: to_bytes_big_def CRYPTO_LAYER_FLAG_def to_bytes_little_numeral)

lemma length_crypto_frame: "length (crypto_frame c p) = length p + 5"
  by (simp add: crypto_frame_def append_checksum_def)

lemma encode_crypto_request_Inr:
  "encode_crypto_request c p = Inr f \<longleftrightarrow> check_crypto_request c p = Inr () \<and> f = crypto_frame c p"
  by (auto simp: encode_crypto_request_def crypto_frame_def result_simps)

lemma check_crypto_request_Inr:
  "check_crypto_request c p = Inr () \<longleftrightarrow>
     (c = Crypto_REQUEST_PROTOCOL_VERSIONS \<and> p = [] \<or> c = Crypto_REQUEST_NONCE \<and> p = [] \<or>
      c = Crypto_SELECT_PROTOCOL_VERSION \<and> (p = [1] \<or> p = [2]))"
proof (cases c)
  case Crypto_SELECT_PROTOCOL_VERSION
  have "uint b = 2 \<longleftrightarrow> b = 2" "uint b = 1 \<longleftrightarrow> b = 1" for b :: byte
    by (auto simp flip: word_uint_eq_iff [of b] simp: word_uint_eq_iff)
  then show ?thesis using Crypto_SELECT_PROTOCOL_VERSION
    by (cases p) (auto simp: SUPPORTED_CRYPTO_PROTOCOLS_def)
qed auto

lemma crypto_command_eq_member:
  "c \<in> {Crypto_ACK, Crypto_REQUEST_PROTOCOL_VERSIONS, Crypto_SELECT_PROTOCOL_VERSION,
    Crypto_REQUEST_NONCE}"
  by (cases c) auto

lemma parse_crypto_frame:
  "parse_crypto_response (crypto_frame c p) = Inr \<lparr>cr_command = c, cr_payload = p\<rparr>"
proof -
  have frame: "crypto_frame c p =
      [0x80, 0] @ ((crypto_value c # p) @ to_bytes_little 2 (crc16 ([0x80, 0] @ crypto_value c # p)))"
    by (simp add: crypto_frame_def append_checksum_def)
  have "verify_checksum [0x80, 0] (drop 2 (crypto_frame c p)) = Inr (crypto_value c # p)"
    unfolding frame using verify_append_checksum [of "crypto_value c # p" "[0x80, 0]"] by simp
  moreover have "take 2 (crypto_frame c p) = [0x80, 0]" unfolding frame by simp
  ultimately show ?thesis
    using length_crypto_frame [of c p] crypto_command_eq_member [of c]
    by (simp add: parse_crypto_response_def CRYPTO_LAYER_FLAG_def from_bytes_big_def)
qed

lemma parse_crypto_response_Inr:
  assumes "parse_crypto_response frame = Inr r"
  shows "frame = crypto_frame (cr_command r) (cr_payload r)"
proof -
  from assms have len: "5 \<le> length frame" and hd: "from_bytes_big (take 2 frame) = CRYPTO_LAYER_FLAG"
    by (auto simp: parse_crypto_response_def Let_def split: if_splits)
  with assms obtain c rest command where
    v: "verify_checksum (take 2 frame) (drop 2 frame) = Inr (c # rest)"
    and c: "crypto_command_of c = Some command" and r: "r = \<lparr>cr_command = command, cr_payload = rest\<rparr>"
    by (cases "verify_checksum (take 2 frame) (drop 2 frame)")
      (auto simp: parse_crypto_response_def Let_def
        split: if_split_asm list.split_asm option.split_asm)
  have "take 2 frame = [0x80, 0]"
    using to_from_bytes_big [of "take 2 frame"] len hd by (simp add: min_def)
  moreover have "crypto_value command = c" using c by (rule crypto_value_of_command)
  ultimately have "frame = [0x80, 0] @ (crypto_value command # rest) @
      to_bytes_little 2 (crc16 ([0x80, 0] @ crypto_value command # rest))"
    using verify_checksum_Inr [OF v] append_take_drop_id [of 2 frame] by simp
  then show ?thesis by (simp add: r crypto_frame_def append_checksum_def)
qed

lemma parse_crypto_response_iff:
  "parse_crypto_response frame = Inr r \<longleftrightarrow> frame = crypto_frame (cr_command r) (cr_payload r)"
  using parse_crypto_response_Inr [of frame r] parse_crypto_frame [of "cr_command r" "cr_payload r"]
  by auto

lemma parse_nonce_response_Inr:
  "parse_nonce_response r = Inr n \<longleftrightarrow>
     cr_command r = Crypto_REQUEST_NONCE \<and> cr_payload r = nr_nonce n @ nr_key_proof n \<and>
     length (nr_nonce n) = 12 \<and> length (nr_key_proof n) = 32"
  by (cases n) (auto simp: parse_nonce_response_def)

text \<open>The parser accepts exactly the frames of the shade's frame builder.\<close>

lemma crypto_response_roundtrip:
  "parse_crypto_response frame = Inr r \<longleftrightarrow>
     frame = append_checksum [0x80, 0] (crypto_value (cr_command r) # cr_payload r)"
  by (simp add: parse_crypto_response_iff crypto_frame_def)

subsection \<open>Properties\<close>

text \<open>The only plaintext frames the library can encode are the version request, the nonce
  request and the selection of protocol 1 or 2; every other command or payload raises.\<close>

lemma crypto_requests_allowlisted:
  "encode_crypto_request c p = Inr frame \<longleftrightarrow>
     (c = Crypto_REQUEST_PROTOCOL_VERSIONS \<and> p = [] \<or> c = Crypto_REQUEST_NONCE \<and> p = [] \<or>
      c = Crypto_SELECT_PROTOCOL_VERSION \<and> (p = [1] \<or> p = [2])) \<and>
     frame = append_checksum [0x80, 0] (crypto_value c # p)"
  by (simp add: encode_crypto_request_Inr check_crypto_request_Inr crypto_frame_def)

text \<open>A shade's proof authenticates a pairing key exactly when the key has 32 bytes and the
  proof is HMAC-SHA256 of the fixed message under that key.\<close>

lemma pairing_key_authenticates_iff:
  "pairing_key_matches_proof key proof_bytes = Inr True \<longleftrightarrow>
     length key = 32 \<and> proof_bytes = hmac_sha256 key PAIRING_KEY_PROOF_MESSAGE"
  by (auto simp: pairing_key_matches_proof_def pairing_key_proof_def compare_digest_def rbind_eq_Inr)

text \<open>A received frame yields a nonce and a key proof exactly when it is the nonce frame of
  those two values, with their lengths 12 and 32.\<close>

lemma nonce_frame_roundtrip:
  "rbind (parse_crypto_response frame) parse_nonce_response = Inr n \<longleftrightarrow>
     frame = crypto_frame Crypto_REQUEST_NONCE (nr_nonce n @ nr_key_proof n) \<and>
     length (nr_nonce n) = 12 \<and> length (nr_key_proof n) = 32"
  by (auto simp: rbind_eq_Inr parse_crypto_response_iff parse_nonce_response_Inr
      parse_crypto_frame intro: exI [of _ "\<lparr>cr_command = Crypto_REQUEST_NONCE,
        cr_payload = nr_nonce n @ nr_key_proof n\<rparr>"])

end
