(* ===== verification/Utf8.thy ===== *)
theory Utf8
  imports Prelude
begin

text \<open>
  Strict UTF-8 as Python's \<open>bytes.decode("utf-8")\<close> accepts it: shortest form only, no
  surrogates, nothing above U+10FFFF. Text is a list of code points. \<open>utf8_encode\<close> is
  \<open>str.encode\<close>, used to state what the decoder inverts.
\<close>

definition is_scalar :: "nat \<Rightarrow> bool" where
  "is_scalar c \<longleftrightarrow> c < 0xD800 \<or> 0xE000 \<le> c \<and> c < 0x110000"

definition is_continuation :: "byte \<Rightarrow> bool" where
  "is_continuation b \<longleftrightarrow> 0x80 \<le> b \<and> b < 0xC0"

fun utf8_decode :: "bytes \<Rightarrow> nat list option" where
  "utf8_decode [] = Some []"
| "utf8_decode (b0 # bs) =
     (if b0 < 0x80 then map_option ((#) (unat b0)) (utf8_decode bs)
      else if 0xC2 \<le> b0 \<and> b0 < 0xE0 then
        (case bs of
           b1 # rest \<Rightarrow>
             (if is_continuation b1
              then map_option ((#) ((unat b0 - 0xC0) * 64 + (unat b1 - 0x80))) (utf8_decode rest)
              else None)
         | _ \<Rightarrow> None)
      else if 0xE0 \<le> b0 \<and> b0 < 0xF0 then
        (case bs of
           b1 # b2 # rest \<Rightarrow>
             (if is_continuation b1 \<and> is_continuation b2 \<and> (b0 = 0xE0 \<longrightarrow> 0xA0 \<le> b1) \<and>
                 (b0 = 0xED \<longrightarrow> b1 < 0xA0)
              then map_option ((#) ((unat b0 - 0xE0) * 4096 + (unat b1 - 0x80) * 64 + (unat b2 - 0x80)))
                     (utf8_decode rest)
              else None)
         | _ \<Rightarrow> None)
      else if 0xF0 \<le> b0 \<and> b0 < 0xF5 then
        (case bs of
           b1 # b2 # b3 # rest \<Rightarrow>
             (if is_continuation b1 \<and> is_continuation b2 \<and> is_continuation b3 \<and>
                 (b0 = 0xF0 \<longrightarrow> 0x90 \<le> b1) \<and> (b0 = 0xF4 \<longrightarrow> b1 < 0x90)
              then map_option ((#) ((unat b0 - 0xF0) * 262144 + (unat b1 - 0x80) * 4096 +
                       (unat b2 - 0x80) * 64 + (unat b3 - 0x80)))
                     (utf8_decode rest)
              else None)
         | _ \<Rightarrow> None)
      else None)"

definition utf8_encode_char :: "nat \<Rightarrow> bytes" where
  "utf8_encode_char c =
     (if c < 0x80 then [word_of_nat c]
      else if c < 0x800 then [word_of_nat (0xC0 + c div 64), word_of_nat (0x80 + c mod 64)]
      else if c < 0x10000 then
        [word_of_nat (0xE0 + c div 4096), word_of_nat (0x80 + c div 64 mod 64),
         word_of_nat (0x80 + c mod 64)]
      else
        [word_of_nat (0xF0 + c div 262144), word_of_nat (0x80 + c div 4096 mod 64),
         word_of_nat (0x80 + c div 64 mod 64), word_of_nat (0x80 + c mod 64)])"

definition utf8_encode :: "nat list \<Rightarrow> bytes" where
  "utf8_encode cs = concat (map utf8_encode_char cs)"

lemma unat_byte_of_nat: "n < 256 \<Longrightarrow> unat (word_of_nat n :: byte) = n"
  by (simp add: unat_of_nat)

lemma utf8_decode_1:
  "unat b0 < 0x80 \<Longrightarrow> utf8_decode (b0 # bs) = map_option ((#) (unat b0)) (utf8_decode bs)"
  by (simp add: word_less_nat_alt)

lemma utf8_decode_2:
  assumes "unat b0 = 0xC0 + x" and "2 \<le> x" and "x < 32" and "unat b1 = 0x80 + y" and "y < 64"
  shows "utf8_decode (b0 # b1 # bs) = map_option ((#) (x * 64 + y)) (utf8_decode bs)"
  using assms by (simp add: word_less_nat_alt word_le_nat_alt is_continuation_def)

lemma utf8_decode_3:
  assumes "unat b0 = 0xE0 + x" and "x < 16" and "unat b1 = 0x80 + y" and "y < 64"
    and "unat b2 = 0x80 + z" and "z < 64" and "x = 0 \<Longrightarrow> 32 \<le> y" and "x = 13 \<Longrightarrow> y < 32"
  shows "utf8_decode (b0 # b1 # b2 # bs) = map_option ((#) (x * 4096 + y * 64 + z)) (utf8_decode bs)"
  using assms
  by (simp add: word_less_nat_alt word_le_nat_alt word_unat_eq_iff is_continuation_def)

lemma utf8_decode_4:
  assumes "unat b0 = 0xF0 + x" and "x < 5" and "unat b1 = 0x80 + y" and "y < 64"
    and "unat b2 = 0x80 + z" and "z < 64" and "unat b3 = 0x80 + w" and "w < 64"
    and "x = 0 \<Longrightarrow> 16 \<le> y" and "x = 4 \<Longrightarrow> y < 16"
  shows "utf8_decode (b0 # b1 # b2 # b3 # bs) =
    map_option ((#) (x * 262144 + y * 4096 + z * 64 + w)) (utf8_decode bs)"
  using assms
  by (simp add: word_less_nat_alt word_le_nat_alt word_unat_eq_iff is_continuation_def)

text \<open>The base-64 digits of a code point.\<close>

lemma sixbit_digits:
  fixes c :: nat
  shows "c = 4096 * (c div 4096) + 64 * (c div 64 mod 64) + c mod 64"
    and "c = 262144 * (c div 262144) + 4096 * (c div 4096 mod 64) + 64 * (c div 64 mod 64) + c mod 64"
proof -
  have d: "c = 64 * (c div 64) + c mod 64" by simp
  have e: "c div 64 = 64 * (c div 64 div 64) + c div 64 mod 64" by simp
  have f: "c div 4096 = 64 * (c div 4096 div 64) + c div 4096 mod 64" by simp
  have "c div 64 div 64 = c div 4096" "c div 4096 div 64 = c div 262144"
    by (simp_all add: div_mult2_eq [symmetric])
  with d e f show "c = 4096 * (c div 4096) + 64 * (c div 64 mod 64) + c mod 64"
    and "c = 262144 * (c div 262144) + 4096 * (c div 4096 mod 64) + 64 * (c div 64 mod 64) + c mod 64"
    by linarith+
qed

lemma utf8_decode_char:
  assumes "is_scalar c"
  shows "utf8_decode (utf8_encode_char c @ bs) = map_option ((#) c) (utf8_decode bs)"
proof -
  note byte = unat_byte_of_nat
  consider "c < 0x80" | "0x80 \<le> c" "c < 0x800" | "0x800 \<le> c" "c < 0x10000"
    | "0x10000 \<le> c" "c < 0x110000"
    using assms unfolding is_scalar_def by linarith
  then show ?thesis
  proof cases
    case 1
    then show ?thesis using utf8_decode_1 [of "word_of_nat c" bs]
      by (simp add: utf8_encode_char_def byte)
  next
    case 2
    then have x: "2 \<le> c div 64" "c div 64 < 32"
      by (simp_all add: less_eq_div_iff_mult_less_eq div_less_iff_less_mult)
    have "utf8_decode (word_of_nat (0xC0 + c div 64) # word_of_nat (0x80 + c mod 64) # bs) =
        map_option ((#) (c div 64 * 64 + c mod 64)) (utf8_decode bs)"
      by (rule utf8_decode_2) (use x in \<open>simp_all add: byte del: of_nat_add\<close>)
    with 2 show ?thesis by (simp add: utf8_encode_char_def del: utf8_decode.simps)
  next
    case 3
    let ?x = "c div 4096" and ?y = "c div 64 mod 64" and ?z = "c mod 64"
    have c: "c = 4096 * ?x + 64 * ?y + ?z" and y: "?y < 64"
      using sixbit_digits [of c] by simp_all
    have x: "?x < 16" "?x = 0 \<Longrightarrow> 32 \<le> ?y" using 3 c y by (auto simp: div_less_iff_less_mult)
    have s: "?x = 13 \<Longrightarrow> ?y < 32"
      using assms c y unfolding is_scalar_def by linarith
    have "utf8_decode (word_of_nat (0xE0 + ?x) # word_of_nat (0x80 + ?y) # word_of_nat (0x80 + ?z) # bs) =
        map_option ((#) (?x * 4096 + ?y * 64 + ?z)) (utf8_decode bs)"
      by (rule utf8_decode_3) (use x s in \<open>simp_all add: byte del: of_nat_add\<close>)
    moreover have "?x * 4096 + ?y * 64 + ?z = c" using c by simp
    ultimately show ?thesis using 3 by (simp add: utf8_encode_char_def del: utf8_decode.simps)
  next
    case 4
    let ?x = "c div 262144" and ?y = "c div 4096 mod 64" and ?z = "c div 64 mod 64" and ?w = "c mod 64"
    have c: "c = 262144 * ?x + 4096 * ?y + 64 * ?z + ?w" and b: "?y < 64" "?z < 64" "?w < 64"
      using sixbit_digits [of c] by simp_all
    have x: "?x < 5" "?x = 0 \<Longrightarrow> 16 \<le> ?y" "?x = 4 \<Longrightarrow> ?y < 16"
      using 4 c b by (simp add: div_less_iff_less_mult, linarith, linarith)
    have "utf8_decode (word_of_nat (0xF0 + ?x) # word_of_nat (0x80 + ?y) # word_of_nat (0x80 + ?z) #
          word_of_nat (0x80 + ?w) # bs) =
        map_option ((#) (?x * 262144 + ?y * 4096 + ?z * 64 + ?w)) (utf8_decode bs)"
      by (rule utf8_decode_4) (use x in \<open>simp_all add: byte del: of_nat_add\<close>)
    moreover have "?x * 262144 + ?y * 4096 + ?z * 64 + ?w = c" using c by simp
    ultimately show ?thesis using 4 by (simp add: utf8_encode_char_def del: utf8_decode.simps)
  qed
qed

lemma utf8_decode_encode:
  "list_all is_scalar cs \<Longrightarrow> utf8_decode (utf8_encode cs) = Some cs"
  by (induction cs) (simp_all add: utf8_encode_def utf8_decode_char)

end
