(* ===== verification/App_Layer.thy ===== *)
theory App_Layer
  imports Crypto_Layer Utf8
begin

text \<open>
  The encrypted application layer of \<open>tilt/protocol.py\<close>: request encoders, the response
  decoder and the parsers of response payloads.

  The block cipher belongs to the third-party package \<open>cryptography\<close>. It is the parameter
  \<open>ctr\<close> of every definition that encrypts: \<open>ctr key iv data\<close> stands for
  \<open>Cipher(AES(key), CTR(iv)).encryptor()\<close> applied to \<open>data\<close> (\<open>update\<close> followed by
  \<open>finalize\<close>). What the code relies on is \<open>ctr_cipher ctr\<close>: with a 16-byte key and a 16-byte
  initial counter block the result is the data combined with a keystream that depends only on
  the key and the counter block, so that it keeps the length and undoes itself.
\<close>

type_synonym cipher = "bytes \<Rightarrow> bytes \<Rightarrow> bytes \<Rightarrow> bytes"

definition ctr_cipher :: "cipher \<Rightarrow> bool" where
  "ctr_cipher ctr \<longleftrightarrow>
     (\<forall>key iv. length key = 16 \<longrightarrow> length iv = 16 \<longrightarrow>
        (\<exists>keystream. \<forall>data. ctr key iv data =
           map (\<lambda>i. data ! i XOR keystream i) [0..<length data]))"

definition PRESENTATION_RESPONSE_FLAG :: byte where
  "PRESENTATION_RESPONSE_FLAG = 0x40"

definition PRESENTATION_RESERVED_FLAGS :: byte where
  "PRESENTATION_RESERVED_FLAGS = 0x30"

definition MAX_COUNTER :: int where
  "MAX_COUNTER = 0x7FFF"

record application_response =
  ar_command :: shade_command
  ar_message_id :: int
  ar_counter :: int
  ar_payload :: bytes

subsection \<open>Encoding requests\<close>

definition aes_ctr :: "cipher \<Rightarrow> bytes \<Rightarrow> bytes \<Rightarrow> bytes \<Rightarrow> bytes" where
  "aes_ctr ctr data key iv = ctr (take 16 key) iv data"

definition counter_header :: "int \<Rightarrow> exc + bytes" where
  "counter_header counter =
     (if \<not> (1 \<le> counter \<and> counter \<le> MAX_COUNTER)
      then Inl (TiltProtocolError
        (''Encryption counter must be between 1 and '' @ str_of_int MAX_COUNTER @ ''.''))
      else Inr (to_bytes_big 2 counter))"

definition message_id_byte :: "int \<Rightarrow> bool \<Rightarrow> exc + byte" where
  "message_id_byte message_id response =
     (if \<not> (0 \<le> message_id \<and> message_id \<le> 0x0F)
      then Inl (TiltProtocolError ''Message id must be between 0 and 15.'')
      else Inr (word_of_int message_id OR (if response then PRESENTATION_RESPONSE_FLAG else 0)))"

definition encode_application_request ::
  "cipher \<Rightarrow> shade_command \<Rightarrow> bytes \<Rightarrow> bytes \<Rightarrow> bytes \<Rightarrow> int \<Rightarrow> int \<Rightarrow> exc + bytes" where
  "encode_application_request ctr command payload key nonce counter message_id =
     (if command \<notin> RUNTIME_COMMANDS
      then Inl (UnsafeCommandError ''Shade command is not in the runtime allowlist.'')
      else rbind (require_key_and_nonce key nonce) (\<lambda>_.
        rbind (counter_header counter) (\<lambda>header.
        rbind (message_id_byte message_id False) (\<lambda>mid.
          let presentation = [mid, shade_value command] @ payload;
              plaintext = presentation @ to_bytes_little 2 (crc16 (header @ presentation));
              iv = nonce @ header @ [0, 0]
          in Inr (header @ aes_ctr ctr plaintext key iv)))))"

definition encode_read_request ::
  "cipher \<Rightarrow> shade_command \<Rightarrow> bytes \<Rightarrow> bytes \<Rightarrow> int \<Rightarrow> int \<Rightarrow> exc + bytes" where
  "encode_read_request ctr command key nonce counter message_id =
     (if command \<notin> READ_COMMANDS
      then Inl (UnsafeCommandError ''Only allowlisted read commands may use this encoder.'')
      else encode_application_request ctr command [] key nonce counter message_id)"

definition encode_position_request ::
  "cipher \<Rightarrow> pyval \<Rightarrow> bytes \<Rightarrow> bytes \<Rightarrow> int \<Rightarrow> int \<Rightarrow> pyval \<Rightarrow> exc + bytes" where
  "encode_position_request ctr position_percent key nonce counter message_id speed =
     (case position_percent of
        PyInt position \<Rightarrow>
          (if \<not> (0 \<le> position \<and> position \<le> 100)
           then Inl (TiltProtocolError ''Position must be between 0 and 100 percent.'')
           else (case speed of
               PyInt s \<Rightarrow>
                 (if \<not> (1 \<le> s \<and> s \<le> 100)
                  then Inl (TiltProtocolError ''Speed must be an integer between 1 and 100.'')
                  else let raw = position * 10;
                           payload = to_bytes_little 2 raw @ [word_of_int s]
                       in encode_application_request ctr Shade_SET_POSITION payload key nonce
                            counter message_id)
             | _ \<Rightarrow> Inl (TiltProtocolError ''Speed must be an integer between 1 and 100.'')))
      | _ \<Rightarrow> Inl (TiltProtocolError ''Position must be an integer percent.''))"

subsection \<open>Decoding responses\<close>

text \<open>
  The checks on a decrypted message come after its checksum has been verified; they are the
  second half of \<open>decode_application_response\<close>.
\<close>

definition decode_presentation ::
  "shade_command \<Rightarrow> int \<Rightarrow> int \<Rightarrow> bytes \<Rightarrow> exc + application_response" where
  "decode_presentation expected_command expected_message_id counter presentation =
     (if length presentation < 2
      then Inl (TiltProtocolError ''Application response has no command.'')
      else
        let flags = presentation ! 0
        in if flags AND PRESENTATION_RESPONSE_FLAG = 0
           then Inl (TiltProtocolError ''Application message is not marked as a response.'')
           else if flags AND PRESENTATION_RESERVED_FLAGS \<noteq> 0
           then Inl (TiltProtocolError
             ''Application response has reserved presentation flags set.'')
           else
             let message_id = uint (flags AND 0x0F)
             in if message_id \<noteq> expected_message_id
                then Inl (TiltProtocolError
                  ''Application response message id does not match request.'')
                else
                  (case shade_command_of (presentation ! 1) of
                     None \<Rightarrow> Inl (TiltProtocolError ''Unknown application response command.'')
                   | Some command \<Rightarrow>
                       let payload = drop 2 presentation
                       in if command = Shade_ACK \<and>
                             (payload = [] \<or> payload ! 0 \<noteq> shade_value expected_command)
                          then Inl (TiltProtocolError
                            ''Application ACK does not match the requested command.'')
                          else if command \<noteq> Shade_ACK \<and> command \<noteq> expected_command
                          then Inl (TiltProtocolError
                            ''Application response command does not match request.'')
                          else Inr \<lparr>ar_command = command, ar_message_id = message_id,
                                    ar_counter = counter, ar_payload = payload\<rparr>))"

definition decode_application_response ::
  "cipher \<Rightarrow> bytes \<Rightarrow> bytes \<Rightarrow> bytes \<Rightarrow> shade_command \<Rightarrow> int \<Rightarrow> int option
     \<Rightarrow> exc + application_response" where
  "decode_application_response ctr frame key nonce expected_command expected_message_id
       expected_counter =
     rbind (require_key_and_nonce key nonce) (\<lambda>_.
     if expected_command \<notin> RUNTIME_COMMANDS
     then Inl (UnsafeCommandError ''Expected command is outside the runtime allowlist.'')
     else if length frame < 6
     then Inl (TiltProtocolError ''Encrypted application response is too short.'')
     else
       let header = take 2 frame; header_value = from_bytes_big header
       in if header_value AND CRYPTO_LAYER_FLAG \<noteq> 0
          then Inl (TiltProtocolError ''Expected an encrypted application-layer response.'')
          else
            let counter = header_value AND MAX_COUNTER
            in rbind (counter_header counter) (\<lambda>_.
               if expected_counter \<noteq> None \<and> expected_counter \<noteq> Some counter
               then Inl (TiltProtocolError ''Application response counter does not match request.'')
               else
                 let receive_counter = [header ! 0 OR 0x80, header ! 1];
                     plaintext = aes_ctr ctr (drop 2 frame) key (nonce @ receive_counter @ [0, 0])
                 in rbind (verify_checksum header plaintext)
                      (decode_presentation expected_command expected_message_id counter)))"

subsection \<open>Parsing payloads\<close>

definition require_response_command :: "application_response \<Rightarrow> shade_command \<Rightarrow> exc + unit" where
  "require_response_command response command =
     (if ar_command response \<noteq> command
      then Inl (TiltProtocolError (''Expected '' @ shade_name command @ '' response.''))
      else Inr ())"

definition parse_name :: "application_response \<Rightarrow> exc + nat list" where
  "parse_name response =
     rbind (require_response_command response Shade_GET_NAME) (\<lambda>_.
       case ar_payload response of
         [] \<Rightarrow> Inl (TiltProtocolError ''Name response is missing its length.'')
       | len # rest \<Rightarrow>
           (let name_bytes = take (unat len) rest
            in if length name_bytes \<noteq> unat len \<or> length (ar_payload response) \<noteq> unat len + 1
               then Inl (TiltProtocolError ''Name response length is invalid.'')
               else case utf8_decode name_bytes of
                 None \<Rightarrow> Inl (TiltProtocolError ''Name response is not valid UTF-8.'')
               | Some name \<Rightarrow> Inr name))"

definition parse_raw_position :: "application_response \<Rightarrow> exc + int" where
  "parse_raw_position response =
     (if ar_command response \<notin> {Shade_GET_POSITION, Shade_GET_STATUS}
      then Inl (TiltProtocolError ''Response does not contain a shade position.'')
      else if length (ar_payload response) < 2
      then Inl (TiltProtocolError ''Position response is too short.'')
      else let raw = from_bytes_little (take 2 (ar_payload response))
           in if \<not> (0 \<le> raw \<and> raw \<le> 1000)
              then Inl (TiltProtocolError ''Shade position is outside the calibrated range.'')
              else Inr raw)"

definition parse_status :: "application_response \<Rightarrow> exc + shade_status" where
  "parse_status response =
     rbind (require_response_command response Shade_GET_STATUS) (\<lambda>_.
       if length (ar_payload response) \<noteq> 5
       then Inl (TiltProtocolError ''Status response must be exactly five bytes.'')
       else rbind (parse_raw_position response) (\<lambda>raw.
         let battery = uint (ar_payload response ! 2)
         in if 100 < battery
            then Inl (TiltProtocolError ''Battery percentage is outside 0 to 100.'')
            else
              let cal = uint (ar_payload response ! 4)
              in if cal \<notin> {0, 1}
                 then Inl (TiltProtocolError ''Calibrated flag is not boolean.'')
                 else Inr \<lparr>raw_position = raw, battery_percent = battery,
                           charge_status = uint (ar_payload response ! 3),
                           calibrated = (cal \<noteq> 0)\<rparr>))"

definition parse_battery :: "application_response \<Rightarrow> exc + int \<times> int" where
  "parse_battery response =
     rbind (require_response_command response Shade_GET_BATTERY) (\<lambda>_.
       if length (ar_payload response) \<noteq> 2 \<or> 100 < uint (ar_payload response ! 0)
       then Inl (TiltProtocolError ''Battery response is invalid.'')
       else Inr (uint (ar_payload response ! 0), uint (ar_payload response ! 1)))"

definition raw_position_to_percent :: "pyval \<Rightarrow> exc + int" where
  "raw_position_to_percent v =
     (case v of
        PyInt raw \<Rightarrow>
          (if \<not> (0 \<le> raw \<and> raw \<le> 1000)
           then Inl (TiltProtocolError ''Raw position must be between 0 and 1000.'')
           else Inr (round_div raw 10))
      | _ \<Rightarrow> Inl (TiltProtocolError ''Raw position must be an integer.''))"

definition position_percent :: "shade_status \<Rightarrow> exc + int" where
  "position_percent s = raw_position_to_percent (PyInt (raw_position s))"

subsection \<open>The cipher\<close>

lemma ctr_cipher_length:
  assumes "ctr_cipher ctr" and "length key = 16" and "length iv = 16"
  shows "length (ctr key iv data) = length data"
proof -
  from assms obtain ks where "\<And>d. ctr key iv d = map (\<lambda>i. d ! i XOR ks i) [0..<length d]"
    unfolding ctr_cipher_def by blast
  then show ?thesis by simp
qed

lemma ctr_cipher_involution:
  assumes "ctr_cipher ctr" and "length key = 16" and "length iv = 16"
  shows "ctr key iv (ctr key iv data) = data"
proof -
  from assms obtain ks where ks: "\<And>d. ctr key iv d = map (\<lambda>i. d ! i XOR ks i) [0..<length d]"
    unfolding ctr_cipher_def by blast
  show ?thesis
    by (rule nth_equalityI) (auto simp: ks xor.assoc)
qed

lemma aes_ctr_facts:
  assumes "ctr_cipher ctr" and "length key = 32" and "length iv = 16"
  shows "length (aes_ctr ctr data key iv) = length data"
    and "aes_ctr ctr (aes_ctr ctr data key iv) key iv = data"
  using assms by (simp_all add: aes_ctr_def ctr_cipher_length ctr_cipher_involution)

subsection \<open>Headers\<close>

text \<open>The two header bytes of a counter below the crypto-layer flag, and of its receive form.\<close>

lemma counter_header_Inr:
  "counter_header c = Inr h \<longleftrightarrow> 1 \<le> c \<and> c \<le> MAX_COUNTER \<and> h = to_bytes_big 2 c"
  by (auto simp: counter_header_def)

lemma from_bytes_big_2: "length h = 2 \<Longrightarrow> from_bytes_big h = 256 * uint (h ! 0) + uint (h ! 1)"
  by (auto simp: from_bytes_big_def numeral_2_eq_2 length_Suc_conv)

lemma to_bytes_big_2: "to_bytes_big 2 c = [word_of_int (c div 256), word_of_int c]"
  by (simp add: to_bytes_big_def to_bytes_little_numeral)

lemma and_crypto_flag:
  assumes "0 \<le> v" and "v < 65536"
  shows "v AND CRYPTO_LAYER_FLAG = 0 \<longleftrightarrow> v < 0x8000"
proof -
  have "CRYPTO_LAYER_FLAG = push_bit 15 1" by (simp add: CRYPTO_LAYER_FLAG_def)
  then have "v AND CRYPTO_LAYER_FLAG = 0 \<longleftrightarrow> \<not> bit v 15"
    by (simp only: bit_iff_and_push_bit_not_eq_0) simp
  also have "bit v 15 \<longleftrightarrow> odd (v div 32768)" by (simp add: bit_iff_odd)
  also have "odd (v div 32768) \<longleftrightarrow> 0x8000 \<le> v"
  proof
    assume "odd (v div 32768)"
    then have "v div 32768 \<noteq> 0" by auto
    then show "0x8000 \<le> v" using assms by (simp add: div_eq_0_iff)
  next
    assume "0x8000 \<le> v"
    then have "v div 32768 = 1" using assms by (simp add: div_pos_geq)
    then show "odd (v div 32768)" by simp
  qed
  finally show ?thesis by (simp add: not_le)
qed

lemma and_max_counter:
  assumes "0 \<le> v" and "v < 0x8000"
  shows "v AND MAX_COUNTER = v"
proof -
  have "MAX_COUNTER = mask 15" by (simp add: MAX_COUNTER_def mask_eq_exp_minus_1)
  then have "v AND MAX_COUNTER = take_bit 15 v" by (simp only: take_bit_eq_mask)
  then show ?thesis using assms by (simp add: take_bit_int_eq_self)
qed

text \<open>The counter block of a frame's keystream: the receive direction sets the top bit.\<close>

definition send_iv :: "bytes \<Rightarrow> int \<Rightarrow> bytes" where
  "send_iv nonce counter = nonce @ to_bytes_big 2 counter @ [0, 0]"

definition receive_iv :: "bytes \<Rightarrow> int \<Rightarrow> bytes" where
  "receive_iv nonce counter =
     nonce @ [to_bytes_big 2 counter ! 0 OR 0x80, to_bytes_big 2 counter ! 1] @ [0, 0]"

lemma length_ivs [simp]:
  "length (send_iv nonce c) = length nonce + 4" "length (receive_iv nonce c) = length nonce + 4"
  by (simp_all add: send_iv_def receive_iv_def)

lemma byte_or_high_bit:
  assumes "uint (b :: byte) < 0x80"
  shows "uint (b OR 0x80) = uint b + 0x80"
proof -
  have "uint b div 2 ^ 7 = 0"
    using assms uint_byte_bounds [of b] by (simp add: div_eq_0_iff)
  then have "\<not> bit (uint b) 7"
    unfolding bit_iff_odd by (simp only: even_zero not_not)
  then have "uint b AND 128 = 0"
    using bit_iff_and_push_bit_not_eq_0 [of "uint b" 7] by simp
  then have "uint b OR 128 = uint b + 128" using plus_and_or [of "uint b" 128] by simp
  then show ?thesis by (simp add: unsigned_or_eq)
qed

subsection \<open>What the decoder accepts\<close>

text \<open>\<open>opened\<close> is the message a frame carries once decrypted and checked.\<close>

definition opened :: "cipher \<Rightarrow> bytes \<Rightarrow> bytes \<Rightarrow> bytes \<Rightarrow> int \<Rightarrow> exc + bytes" where
  "opened ctr frame key nonce counter =
     verify_checksum (take 2 frame) (aes_ctr ctr (drop 2 frame) key (receive_iv nonce counter))"

lemma header_value:
  assumes "6 \<le> length frame" and "from_bytes_big (take 2 frame) AND CRYPTO_LAYER_FLAG = 0"
  shows "from_bytes_big (take 2 frame) AND MAX_COUNTER = from_bytes_big (take 2 frame)"
    and "to_bytes_big 2 (from_bytes_big (take 2 frame)) = take 2 frame"
proof -
  have len: "length (take 2 frame) = 2" using assms by simp
  have b: "0 \<le> from_bytes_big (take 2 frame)" "from_bytes_big (take 2 frame) < 65536"
    using from_bytes_big_bounds [of "take 2 frame"] len by simp_all
  then have "from_bytes_big (take 2 frame) < 0x8000" using assms and_crypto_flag by simp
  then show "from_bytes_big (take 2 frame) AND MAX_COUNTER = from_bytes_big (take 2 frame)"
    using b by (simp add: and_max_counter)
  show "to_bytes_big 2 (from_bytes_big (take 2 frame)) = take 2 frame"
    using to_from_bytes_big [of "take 2 frame"] len by simp
qed

text \<open>A decoded message answers the request it was decoded for.\<close>

definition answers :: "shade_command \<Rightarrow> int \<Rightarrow> int \<Rightarrow> application_response \<Rightarrow> bool" where
  "answers cmd mid counter r \<longleftrightarrow>
     ar_counter r = counter \<and> ar_message_id r = mid \<and>
     (ar_command r = cmd \<or>
      ar_command r = Shade_ACK \<and> ar_payload r \<noteq> [] \<and> ar_payload r ! 0 = shade_value cmd)"

lemma decode_presentation_Inr:
  assumes "decode_presentation cmd mid counter pres = Inr r"
  shows "answers cmd mid counter r" and "0 \<le> mid \<and> mid \<le> 15"
    and "\<exists>flags. pres = [flags, shade_value (ar_command r)] @ ar_payload r \<and>
      flags AND PRESENTATION_RESPONSE_FLAG \<noteq> 0 \<and> flags AND PRESENTATION_RESERVED_FLAGS = 0 \<and>
      uint (flags AND 0x0F) = mid"
proof -
  from assms have len: "2 \<le> length pres" and pay: "ar_payload r = drop 2 pres"
    and cmd: "shade_command_of (pres ! 1) = Some (ar_command r)"
    and flags: "pres ! 0 AND PRESENTATION_RESPONSE_FLAG \<noteq> 0"
      "pres ! 0 AND PRESENTATION_RESERVED_FLAGS = 0" "uint (pres ! 0 AND 0x0F) = mid"
    and ans: "answers cmd mid counter r"
    by (auto simp: decode_presentation_def answers_def Let_def
        split: if_split_asm option.split_asm)
  show "answers cmd mid counter r" by (rule ans)
  have "pres ! 0 AND 0x0F \<le> 0x0F" by (rule word_and_le1)
  then show "0 \<le> mid \<and> mid \<le> 15" using flags(3) by (auto simp: word_le_def)
  have "pres = [pres ! 0, pres ! 1] @ drop 2 pres"
    using len by (cases pres; cases "tl pres") auto
  then show "\<exists>flags. pres = [flags, shade_value (ar_command r)] @ ar_payload r \<and>
      flags AND PRESENTATION_RESPONSE_FLAG \<noteq> 0 \<and> flags AND PRESENTATION_RESERVED_FLAGS = 0 \<and>
      uint (flags AND 0x0F) = mid"
    using shade_value_of_command [OF cmd] pay flags by auto
qed

lemma decode_application_response_Inr:
  assumes "decode_application_response ctr frame key nonce cmd mid ec = Inr r"
  shows "length key = 32 \<and> length nonce = 12 \<and> cmd \<in> RUNTIME_COMMANDS \<and> 6 \<le> length frame \<and>
    1 \<le> ar_counter r \<and> ar_counter r \<le> MAX_COUNTER \<and>
    take 2 frame = to_bytes_big 2 (ar_counter r) \<and> (ec = None \<or> ec = Some (ar_counter r)) \<and>
    (\<exists>pres. opened ctr frame key nonce (ar_counter r) = Inr pres \<and>
       decode_presentation cmd mid (ar_counter r) pres = Inr r)"
proof -
  let ?h = "take 2 frame" let ?c = "from_bytes_big ?h"
  from assms have pre: "length key = 32" "length nonce = 12" "cmd \<in> RUNTIME_COMMANDS"
    "6 \<le> length frame" "?c AND CRYPTO_LAYER_FLAG = 0"
    by (auto simp: decode_application_response_def rbind_eq_Inr Let_def split: if_split_asm)
  note c = header_value [OF pre(4,5)]
  have iv: "nonce @ [?h ! 0 OR 0x80, ?h ! 1] @ [0, 0] = receive_iv nonce ?c"
    by (simp add: receive_iv_def c)
  from assms pre c iv obtain pres where "1 \<le> ?c" "?c \<le> MAX_COUNTER" "ec = None \<or> ec = Some ?c"
    "opened ctr frame key nonce ?c = Inr pres" "decode_presentation cmd mid ?c pres = Inr r"
    by (auto simp: decode_application_response_def opened_def Let_def rbind_eq_Inr
        counter_header_Inr split: if_split_asm)
  moreover from this have "ar_counter r = ?c"
    using decode_presentation_Inr(1) unfolding answers_def by blast
  ultimately show ?thesis using pre c by auto
qed

subsection \<open>Sealed messages\<close>

text \<open>
  \<open>seal\<close> is what either side puts on the wire: the header in the clear, then message and
  checksum under the keystream of the given counter block. Requests are sealed under
  \<open>send_iv\<close>, responses under \<open>receive_iv\<close>.
\<close>

definition seal :: "cipher \<Rightarrow> bytes \<Rightarrow> bytes \<Rightarrow> int \<Rightarrow> bytes \<Rightarrow> bytes" where
  "seal ctr key iv counter presentation =
     (let header = to_bytes_big 2 counter
      in header @ aes_ctr ctr (presentation @ to_bytes_little 2 (crc16 (header @ presentation))) key iv)"

lemma encode_application_request_Inr:
  "encode_application_request ctr cmd payload key nonce counter mid = Inr f \<longleftrightarrow>
     cmd \<in> RUNTIME_COMMANDS \<and> length key = 32 \<and> length nonce = 12 \<and> 1 \<le> counter \<and>
     counter \<le> MAX_COUNTER \<and> 0 \<le> mid \<and> mid \<le> 15 \<and>
     f = seal ctr key (send_iv nonce counter) counter ([word_of_int mid, shade_value cmd] @ payload)"
  by (auto simp: encode_application_request_def rbind_eq_Inr counter_header_Inr message_id_byte_def
      Let_def seal_def send_iv_def)

lemma seal_parts:
  assumes "ctr_cipher ctr" and "length key = 32" and "length iv = 16"
  shows "take 2 (seal ctr key iv c pres) = to_bytes_big 2 c"
    and "aes_ctr ctr (drop 2 (seal ctr key iv c pres)) key iv =
      pres @ to_bytes_little 2 (crc16 (to_bytes_big 2 c @ pres))"
    and "length (seal ctr key iv c pres) = length pres + 4"
  using aes_ctr_facts [OF assms] by (simp_all add: seal_def Let_def)

lemma header_of_counter:
  assumes "1 \<le> c" and "c \<le> MAX_COUNTER"
  shows "from_bytes_big (to_bytes_big 2 c) = c" and "c AND CRYPTO_LAYER_FLAG = 0"
    and "c AND MAX_COUNTER = c"
  using assms and_crypto_flag [of c] and_max_counter [of c]
  by (simp_all add: from_to_bytes_big MAX_COUNTER_def)

lemma decode_sealed:
  assumes "ctr_cipher ctr" and "length key = 32" and "length nonce = 12"
    and "cmd \<in> RUNTIME_COMMANDS" and "1 \<le> c" and "c \<le> MAX_COUNTER" and "2 \<le> length pres"
  shows "decode_application_response ctr (seal ctr key (receive_iv nonce c) c pres) key nonce cmd mid ec =
    (if ec \<noteq> None \<and> ec \<noteq> Some c
     then Inl (TiltProtocolError ''Application response counter does not match request.'')
     else decode_presentation cmd mid c pres)"
proof -
  let ?f = "seal ctr key (receive_iv nonce c) c pres" and ?h = "to_bytes_big 2 c"
  have iv: "length (receive_iv nonce c) = 16" using assms by simp
  note parts = seal_parts [OF assms(1,2) iv, of c pres]
  note hc = header_of_counter [OF assms(5,6)]
  have "pres \<noteq> []" using assms(7) by auto
  then have v: "verify_checksum ?h (aes_ctr ctr (drop 2 ?f) key (receive_iv nonce c)) = Inr pres"
    unfolding parts by (rule verify_append_checksum)
  have "nonce @ [?h ! 0 OR 0x80, ?h ! 1] @ [0, 0] = receive_iv nonce c" by (simp add: receive_iv_def)
  then show ?thesis
    using assms parts hc v
    by (simp add: decode_application_response_def require_key_and_nonce_def counter_header_def Let_def)
qed

subsection \<open>Payloads\<close>

lemma parse_raw_position_Inr:
  "parse_raw_position r = Inr p \<Longrightarrow> 0 \<le> p \<and> p \<le> 1000"
  by (auto simp: parse_raw_position_def Let_def split: if_split_asm)

lemma parse_status_Inr:
  assumes "parse_status r = Inr s"
  shows "ar_command r = Shade_GET_STATUS \<and> length (ar_payload r) = 5 \<and>
    0 \<le> raw_position s \<and> raw_position s \<le> 1000 \<and> 0 \<le> battery_percent s \<and> battery_percent s \<le> 100 \<and>
    0 \<le> charge_status s \<and> charge_status s \<le> 255"
  using assms uint_byte_bounds [of "ar_payload r ! 2"] uint_byte_bounds [of "ar_payload r ! 3"]
  by (auto simp: parse_status_def require_response_command_def rbind_eq_Inr Let_def
      dest: parse_raw_position_Inr split: if_split_asm)

text \<open>The payload a shade builds for a status.\<close>

definition status_payload :: "shade_status \<Rightarrow> bytes" where
  "status_payload s =
     to_bytes_little 2 (raw_position s) @
     [word_of_int (battery_percent s), word_of_int (charge_status s),
      if calibrated s then 1 else 0]"

definition valid_status :: "shade_status \<Rightarrow> bool" where
  "valid_status s \<longleftrightarrow>
     0 \<le> raw_position s \<and> raw_position s \<le> 1000 \<and> 0 \<le> battery_percent s \<and>
     battery_percent s \<le> 100 \<and> 0 \<le> charge_status s \<and> charge_status s \<le> 255"

lemma parse_status_payload:
  assumes "valid_status s" and "ar_command r = Shade_GET_STATUS" and "ar_payload r = status_payload s"
  shows "parse_status r = Inr s"
proof -
  have "take 2 (ar_payload r) = to_bytes_little 2 (raw_position s)"
    using assms by (simp add: status_payload_def)
  then have "from_bytes_little (take 2 (ar_payload r)) = raw_position s"
    using assms by (simp add: valid_status_def from_to_bytes_little)
  then have "parse_raw_position r = Inr (raw_position s)"
    using assms by (simp add: parse_raw_position_def valid_status_def status_payload_def)
  then show ?thesis
    using assms
    by (simp add: parse_status_def require_response_command_def status_payload_def valid_status_def
        nth_append uint_byte_of_int Let_def)
qed

lemma parse_status_valid: "parse_status r = Inr s \<Longrightarrow> valid_status s"
  by (drule parse_status_Inr) (simp add: valid_status_def)

lemma parse_status_payload_Inr:
  assumes "parse_status r = Inr s"
  shows "ar_payload r = status_payload s"
proof -
  from assms have len: "length (ar_payload r) = 5" by (simp add: parse_status_Inr)
  then obtain a b c d e where p: "ar_payload r = [a, b, c, d, e]"
    by (auto simp: numeral_eq_Suc length_Suc_conv)
  have "uint a + 256 * uint b = from_bytes_little [a, b]" and two: "(2 :: nat) = length [a, b]"
    by simp_all
  then have ab: "to_bytes_little 2 (uint a + 256 * uint b) = [a, b]"
    by (simp only: two to_from_bytes_little)
  have e: "uint e = 0 \<longleftrightarrow> e = 0" "uint e = 1 \<longleftrightarrow> e = 1"
    by (simp_all add: word_uint_eq_iff)
  show ?thesis using assms p ab e
    by (auto simp: parse_status_def parse_raw_position_def require_response_command_def rbind_eq_Inr
        Let_def status_payload_def split: if_split_asm)
qed

subsection \<open>Percentages\<close>

lemma raw_position_to_percent_Inr:
  "raw_position_to_percent v = Inr p \<longleftrightarrow>
     (\<exists>raw. v = PyInt raw \<and> 0 \<le> raw \<and> raw \<le> 1000 \<and> p = round_div raw 10)"
  by (auto simp: raw_position_to_percent_def split: pyval.splits)

lemma round_div_10_bounds: "0 \<le> raw \<Longrightarrow> raw \<le> 1000 \<Longrightarrow> 0 \<le> round_div raw 10 \<and> round_div raw 10 \<le> 100"
  using round_div_mono [of 10 0 raw] round_div_mono [of 10 raw 1000]
    round_div_exact [of 10 0] round_div_exact [of 10 100] by simp

lemma position_percent_valid:
  "valid_status s \<Longrightarrow> position_percent s = Inr (round_div (raw_position s) 10)"
  by (simp add: position_percent_def raw_position_to_percent_def valid_status_def)

subsection \<open>A cipher for concrete instances\<close>

definition xor_cipher :: cipher where
  "xor_cipher key iv data =
     map (\<lambda>i. data ! i XOR (key ! (i mod 16) XOR iv ! (i mod 16))) [0..<length data]"

lemma ctr_cipher_xor_cipher: "ctr_cipher xor_cipher"
  unfolding ctr_cipher_def xor_cipher_def by (intro allI impI) (rule exI, rule allI, rule refl)

lemma encode_position_request_Inr:
  "encode_position_request ctr p key nonce c mid s = Inr frame \<longleftrightarrow>
     (\<exists>pos speed. p = PyInt pos \<and> 0 \<le> pos \<and> pos \<le> 100 \<and> s = PyInt speed \<and> 1 \<le> speed \<and>
        speed \<le> 100 \<and>
        encode_application_request ctr Shade_SET_POSITION
          (to_bytes_little 2 (pos * 10) @ [word_of_int speed]) key nonce c mid = Inr frame)"
  by (auto simp: encode_position_request_def Let_def split: pyval.splits)

lemma round_div_10_iff:
  "p = round_div raw 10 \<longleftrightarrow> \<bar>10 * p - raw\<bar> < 5 \<or> \<bar>10 * p - raw\<bar> = 5 \<and> even p"
proof -
  define q r where "q = raw div 10" and "r = raw mod 10"
  then have raw: "raw = 10 * q + r" and r: "0 \<le> r" "r < 10" by simp_all
  have "round_div raw 10 = (if r < 5 then q else if 5 < r then q + 1 else if even q then q else q + 1)"
    by (simp add: round_div_def q_def r_def Let_def)
  moreover have "p \<le> q - 1 \<or> p = q \<or> p = q + 1 \<or> q + 2 \<le> p" by linarith
  moreover have "r < 5 \<or> r = 5 \<or> 5 < r" by linarith
  ultimately show ?thesis using r unfolding raw by (elim disjE) auto
qed

lemma parse_status_iff:
  "parse_status r = Inr s \<longleftrightarrow>
     ar_command r = Shade_GET_STATUS \<and> ar_payload r = status_payload s \<and> valid_status s"
  using parse_status_Inr [of r s] parse_status_valid [of r s] parse_status_payload_Inr [of r s]
    parse_status_payload [of s r] by blast

subsection \<open>Properties\<close>

text \<open>A position request is encoded exactly when the position is an \<open>int\<close> (not a \<open>bool\<close>)
  from 0 to 100, the speed an \<open>int\<close> from 1 to 100, the key and the nonce have their lengths and
  the counter and the message id are in range; in every other case the call raises.\<close>

lemma encode_position_request_defined_iff:
  "(\<exists>frame. encode_position_request ctr p key nonce c mid s = Inr frame) \<longleftrightarrow>
     (\<exists>pos speed. p = PyInt pos \<and> 0 \<le> pos \<and> pos \<le> 100 \<and> s = PyInt speed \<and> 1 \<le> speed \<and>
        speed \<le> 100) \<and>
     length key = 32 \<and> length nonce = 12 \<and> 1 \<le> c \<and> c \<le> MAX_COUNTER \<and> 0 \<le> mid \<and> mid \<le> 15"
  by (auto simp: encode_position_request_Inr encode_application_request_Inr RUNTIME_COMMANDS_iff)

text \<open>A status parsed from a response is in range (position 0 to 1000, battery 0 to 100,
  charge a byte) and the response payload is exactly the five-byte encoding of it; conversely the
  encoding of every such status parses back to it.\<close>

lemma parse_status_roundtrip:
  "parse_status r = Inr s \<longleftrightarrow>
     ar_command r = Shade_GET_STATUS \<and> ar_payload r = status_payload s \<and> valid_status s"
  by (rule parse_status_iff)

text \<open>The percentage of a raw position is the integer nearest to a tenth of it, the even one
  of the two at a tie; anything but an \<open>int\<close> from 0 to 1000 raises.\<close>

lemma percent_of_raw_position:
  "raw_position_to_percent v = Inr p \<longleftrightarrow>
     (\<exists>raw. v = PyInt raw \<and> 0 \<le> raw \<and> raw \<le> 1000 \<and>
        (\<bar>10 * p - raw\<bar> < 5 \<or> \<bar>10 * p - raw\<bar> = 5 \<and> even p))"
  by (simp add: raw_position_to_percent_Inr round_div_10_iff)

text \<open>The name parser inverts the wire form of a name: a length byte and its UTF-8 encoding,
  for every name of Unicode scalar values whose encoding fits the length byte.\<close>

lemma parse_name_roundtrip:
  assumes "list_all is_scalar name" and "length (utf8_encode name) < 256"
    and "ar_command r = Shade_GET_NAME"
    and "ar_payload r = word_of_nat (length (utf8_encode name)) # utf8_encode name"
  shows "parse_name r = Inr name"
  using assms by (simp add: parse_name_def require_response_command_def unat_byte_of_nat Let_def
      utf8_decode_encode)

theorem parse_name_roundtrip_witness:
  "parse_name \<lparr>ar_command = Shade_GET_NAME, ar_message_id = 1, ar_counter = 1,
      ar_payload = [0x03, 0x41, 0xC3, 0xA9]\<rparr> = Inr [0x41, 0xE9]"
  by (rule parse_name_roundtrip)
    (simp_all add: is_scalar_def utf8_encode_def utf8_encode_char_def)

end
