(* ===== verification/Chunking.thy ===== *)
theory Chunking
  imports Tilt_Types "HOL-Library.Sublist"
begin

text \<open>
  The BLE chunk layer of \<open>tilt/protocol.py\<close>: splitting a frame into chunks of at most 18 payload
  bytes, acknowledgements, the wrapping sequence number and \<open>BleMessageAssembler\<close>.

  A chunk is a zero byte, a flag byte (sequence in the low six bits, end-of-message and
  Bluetooth-layer flags above it) and the payload. The assembler is a state machine over the
  chunks it receives; \<open>frame_stream\<close> states what a splitter and a reassembler owe each other.
\<close>

definition BLUETOOTH_COMMAND_FLAG :: byte where
  "BLUETOOTH_COMMAND_FLAG = 0x80"

definition END_OF_MESSAGE_FLAG :: byte where
  "END_OF_MESSAGE_FLAG = 0x40"

definition MAX_BLE_PAYLOAD :: nat where
  "MAX_BLE_PAYLOAD = 18"

definition MAX_SEQUENCE :: int where
  "MAX_SEQUENCE = 63"

record ble_chunk =
  ch_sequence :: int
  ch_end_of_message :: bool
  ch_for_bluetooth_layer :: bool
  ch_payload :: bytes

subsection \<open>Sequence numbers and chunks\<close>

definition next_sequence :: "int \<Rightarrow> exc + int" where
  "next_sequence sequence =
     (if \<not> (1 \<le> sequence \<and> sequence \<le> MAX_SEQUENCE)
      then Inl (TiltProtocolError ''BLE sequence must be between 1 and 63.'')
      else Inr (if sequence = MAX_SEQUENCE then 1 else sequence + 1))"

text \<open>The loop \<open>for offset in range(0, len(frame), _MAX_BLE_PAYLOAD)\<close>.\<close>

function chunk_loop :: "bytes \<Rightarrow> nat \<Rightarrow> int \<Rightarrow> exc + bytes list" where
  "chunk_loop frame offset sequence =
     (if length frame \<le> offset then Inr []
      else
        let payload = take MAX_BLE_PAYLOAD (drop offset frame);
            is_end = (length frame \<le> offset + MAX_BLE_PAYLOAD);
            flags = word_of_int sequence OR (if is_end then END_OF_MESSAGE_FLAG else 0)
        in rbind (next_sequence sequence) (\<lambda>sequence'.
           rbind (chunk_loop frame (offset + MAX_BLE_PAYLOAD) sequence') (\<lambda>chunks.
             Inr (([0, flags] @ payload) # chunks))))"
  by pat_completeness auto
termination
  by (relation "measure (\<lambda>(frame, offset, _). length frame - offset)") (auto simp: MAX_BLE_PAYLOAD_def)

declare chunk_loop.simps [simp del]

definition chunk_for_ble :: "bytes \<Rightarrow> int \<Rightarrow> exc + bytes list" where
  "chunk_for_ble frame start_sequence =
     (if frame = [] then Inl (TiltProtocolError ''Cannot chunk an empty Tilt message.'')
      else if \<not> (1 \<le> start_sequence \<and> start_sequence \<le> MAX_SEQUENCE)
      then Inl (TiltProtocolError ''BLE sequence must be between 1 and 63.'')
      else chunk_loop frame 0 start_sequence)"

definition parse_ble_chunk :: "bytes \<Rightarrow> exc + ble_chunk" where
  "parse_ble_chunk data =
     (if length data < 2 \<or> data ! 0 \<noteq> 0
      then Inl (TiltProtocolError ''BLE chunk has an invalid header.'')
      else if MAX_BLE_PAYLOAD + 2 < length data
      then Inl (TiltProtocolError ''BLE chunk exceeds the protocol payload limit.'')
      else
        let flags = data ! 1;
            sequence = uint (flags AND 0x3F);
            for_bluetooth_layer = (flags AND BLUETOOTH_COMMAND_FLAG \<noteq> 0)
        in if sequence = 0 \<and> \<not> for_bluetooth_layer
           then Inl (TiltProtocolError ''BLE chunk sequence zero is invalid.'')
           else Inr \<lparr>ch_sequence = sequence,
                     ch_end_of_message = (flags AND END_OF_MESSAGE_FLAG \<noteq> 0),
                     ch_for_bluetooth_layer = for_bluetooth_layer,
                     ch_payload = drop 2 data\<rparr>)"

subsection \<open>Acknowledgements\<close>

definition make_ble_ack :: "int \<Rightarrow> exc + bytes" where
  "make_ble_ack sequence =
     (if \<not> (1 \<le> sequence \<and> sequence \<le> MAX_SEQUENCE)
      then Inl (TiltProtocolError ''Cannot ACK an invalid BLE sequence.'')
      else Inr [0, BLUETOOTH_COMMAND_FLAG OR END_OF_MESSAGE_FLAG, 0x01, word_of_int sequence])"

definition parse_ble_ack :: "bytes \<Rightarrow> exc + int" where
  "parse_ble_ack data =
     rbind (parse_ble_chunk data) (\<lambda>chunk.
       if \<not> ch_for_bluetooth_layer chunk \<or> \<not> ch_end_of_message chunk
       then Inl (TiltProtocolError ''Expected a Bluetooth-layer ACK.'')
       else if length (ch_payload chunk) \<noteq> 2 \<or> ch_payload chunk ! 0 \<noteq> 0x01
       then Inl (TiltProtocolError ''Bluetooth-layer ACK payload is invalid.'')
       else if \<not> (1 \<le> uint (ch_payload chunk ! 1) \<and> uint (ch_payload chunk ! 1) \<le> MAX_SEQUENCE)
       then Inl (TiltProtocolError ''Bluetooth-layer ACK sequence is invalid.'')
       else Inr (uint (ch_payload chunk ! 1)))"

subsection \<open>The assembler\<close>

record assembler =
  asm_expected_sequence :: int
  asm_buffer :: bytes

definition assembler_new :: "int \<Rightarrow> exc + assembler" where
  "assembler_new expected_sequence =
     (if \<not> (1 \<le> expected_sequence \<and> expected_sequence \<le> MAX_SEQUENCE)
      then Inl (TiltProtocolError ''Expected BLE sequence must be between 1 and 63.'')
      else Inr \<lparr>asm_expected_sequence = expected_sequence, asm_buffer = []\<rparr>)"

text \<open>
  \<open>add\<close> mutates the assembler and may raise: the result is the outcome of the call and the
  assembler afterwards. A chunk out of sequence clears the buffer before the exception.
\<close>

definition assembler_add ::
  "assembler \<Rightarrow> bytes \<Rightarrow> (exc + int \<times> bytes option) \<times> assembler" where
  "assembler_add asm data =
     (case parse_ble_chunk data of
        Inl e \<Rightarrow> (Inl e, asm)
      | Inr chunk \<Rightarrow>
          (if ch_for_bluetooth_layer chunk
           then (Inl (TiltProtocolError
                   ''Bluetooth command cannot be added to message assembler.''), asm)
           else if ch_sequence chunk \<noteq> asm_expected_sequence asm
           then (Inl (TiltProtocolError ''Received a non-contiguous BLE sequence.''),
                 asm\<lparr>asm_buffer := []\<rparr>)
           else
             let acknowledged = ch_sequence chunk
             in (case next_sequence (ch_sequence chunk) of
                   Inl e \<Rightarrow> (Inl e, asm)
                 | Inr n \<Rightarrow>
                     (let asm1 = asm\<lparr>asm_expected_sequence := n,
                                     asm_buffer := asm_buffer asm @ ch_payload chunk\<rparr>
                      in if \<not> ch_end_of_message chunk then (Inr (acknowledged, None), asm1)
                         else (Inr (acknowledged, Some (asm_buffer asm1)),
                               asm1\<lparr>asm_buffer := []\<rparr>)))))"

subsection \<open>The sequence counter\<close>

lemma next_sequence_Inr:
  "next_sequence s = Inr n \<longleftrightarrow>
     1 \<le> s \<and> s \<le> MAX_SEQUENCE \<and> n = (if s = MAX_SEQUENCE then 1 else s + 1)"
  by (auto simp: next_sequence_def)

interpretation seq: cyclic_counter "\<lambda>s. projr (next_sequence s)" MAX_SEQUENCE
  by unfold_locales (auto simp: next_sequence_def MAX_SEQUENCE_def)

definition valid_sequence :: "int \<Rightarrow> bool" where
  "valid_sequence s \<longleftrightarrow> 1 \<le> s \<and> s \<le> MAX_SEQUENCE"

definition succ_sequence :: "int \<Rightarrow> int" where
  "succ_sequence s = projr (next_sequence s)"

lemma next_sequence_valid: "valid_sequence s \<Longrightarrow> next_sequence s = Inr (succ_sequence s)"
  by (simp add: valid_sequence_def succ_sequence_def next_sequence_def)

lemma valid_succ_sequence: "valid_sequence s \<Longrightarrow> valid_sequence (succ_sequence s)"
  using seq.nxt_range [of s] by (simp add: valid_sequence_def succ_sequence_def)

lemma valid_iterate_sequence: "valid_sequence s \<Longrightarrow> valid_sequence ((succ_sequence ^^ n) s)"
  by (induction n) (simp_all add: valid_succ_sequence)

lemma iterate_succ_sequence:
  "valid_sequence s \<Longrightarrow> (succ_sequence ^^ n) s = (s - 1 + int n) mod MAX_SEQUENCE + 1"
  unfolding valid_sequence_def succ_sequence_def [abs_def] by (rule seq.iterate_mod) auto

subsection \<open>Flag bytes\<close>

lemma six_bits:
  assumes "valid_sequence s"
  shows "word_of_int s AND (0x3F :: byte) = word_of_int s"
    and "uint (word_of_int s :: byte) = s"
proof -
  have s: "0 \<le> s" "s < 64" using assms by (simp_all add: valid_sequence_def MAX_SEQUENCE_def)
  then show u: "uint (word_of_int s :: byte) = s" by (simp add: uint_byte_of_int)
  have "(0x3F :: int) = mask 6" by (simp add: mask_eq_exp_minus_1)
  then have "s AND 0x3F = take_bit 6 s" by (simp only: take_bit_eq_mask)
  then have "s AND 0x3F = s" using s by (simp add: take_bit_int_eq_self)
  then have "uint (word_of_int s AND (0x3F :: byte)) = uint (word_of_int s :: byte)"
    by (simp add: unsigned_and_eq u)
  then show "word_of_int s AND (0x3F :: byte) = word_of_int s" by (rule word_uint_eqI)
qed

lemma six_bits_disjoint:
  assumes "valid_sequence s"
  shows "word_of_int s AND (0x40 :: byte) = 0" and "word_of_int s AND (0x80 :: byte) = 0"
proof -
  have "word_of_int s AND (m :: byte) = word_of_int s AND (0x3F AND m)" for m
    using six_bits(1) [OF assms] by (metis and.assoc)
  from this [of "0x40"] this [of "0x80"]
  show "word_of_int s AND (0x40 :: byte) = 0" and "word_of_int s AND (0x80 :: byte) = 0"
    by simp_all
qed

lemma chunk_flags:
  fixes s :: int and is_end :: bool
  assumes "valid_sequence s"
  defines "flags \<equiv> word_of_int s OR (if is_end then END_OF_MESSAGE_FLAG else 0)"
  shows "uint (flags AND 0x3F) = s" and "flags AND BLUETOOTH_COMMAND_FLAG = 0"
    and "flags AND END_OF_MESSAGE_FLAG \<noteq> 0 \<longleftrightarrow> is_end"
  using six_bits [OF assms(1)] six_bits_disjoint [OF assms(1)]
  by (simp_all add: flags_def bit.conj_disj_distrib2 END_OF_MESSAGE_FLAG_def
      BLUETOOTH_COMMAND_FLAG_def)

subsection \<open>Chunks on the wire\<close>

definition raw_chunk :: "int \<Rightarrow> bool \<Rightarrow> bytes \<Rightarrow> bytes" where
  "raw_chunk s is_end payload =
     [0, word_of_int s OR (if is_end then END_OF_MESSAGE_FLAG else 0)] @ payload"

lemma parse_raw_chunk:
  assumes "valid_sequence s" and "length payload \<le> MAX_BLE_PAYLOAD"
  shows "parse_ble_chunk (raw_chunk s is_end payload) =
    Inr \<lparr>ch_sequence = s, ch_end_of_message = is_end, ch_for_bluetooth_layer = False,
         ch_payload = payload\<rparr>"
  using assms chunk_flags [OF assms(1), of is_end]
  by (simp add: parse_ble_chunk_def raw_chunk_def Let_def valid_sequence_def)

text \<open>The chunks of the rest of a frame, as a function of that rest alone.\<close>

function chunks_of :: "bytes \<Rightarrow> int \<Rightarrow> bytes list" where
  "chunks_of rest s =
     (if rest = [] then []
      else raw_chunk s (length rest \<le> MAX_BLE_PAYLOAD) (take MAX_BLE_PAYLOAD rest) #
           chunks_of (drop MAX_BLE_PAYLOAD rest) (succ_sequence s))"
  by pat_completeness auto
termination
  by (relation "measure (\<lambda>(rest, _). length rest)") (auto simp: MAX_BLE_PAYLOAD_def)

declare chunks_of.simps [simp del]

lemma chunks_of_Nil [simp]: "chunks_of [] s = []"
  by (simp add: chunks_of.simps)

lemma chunk_loop_eq:
  "valid_sequence s \<Longrightarrow> chunk_loop frame offset s = Inr (chunks_of (drop offset frame) s)"
proof (induction frame offset s rule: chunk_loop.induct)
  case (1 frame offset s)
  show ?case
  proof (cases "length frame \<le> offset")
    case True
    then show ?thesis by (simp add: chunk_loop.simps [of frame offset s])
  next
    case False
    let ?rest = "drop offset frame"
    have IH: "chunk_loop frame (offset + MAX_BLE_PAYLOAD) (succ_sequence s) =
        Inr (chunks_of (drop MAX_BLE_PAYLOAD ?rest) (succ_sequence s))"
      using "1.IH" [OF False refl refl refl] "1.prems" valid_succ_sequence
      by (simp add: add.commute)
    have "length frame \<le> offset + MAX_BLE_PAYLOAD \<longleftrightarrow> length ?rest \<le> MAX_BLE_PAYLOAD" by auto
    with False show ?thesis using "1.prems"
      by (simp add: chunk_loop.simps [of frame offset s] chunks_of.simps [of ?rest s] next_sequence_valid IH
          raw_chunk_def)
  qed
qed

lemma chunk_for_ble_eq:
  "chunk_for_ble frame s = Inr cs \<longleftrightarrow> frame \<noteq> [] \<and> valid_sequence s \<and> cs = chunks_of frame s"
  by (auto simp: chunk_for_ble_def chunk_loop_eq valid_sequence_def)

lemma length_chunks_of:
  "length (chunks_of rest s) = (length rest + MAX_BLE_PAYLOAD - 1) div MAX_BLE_PAYLOAD"
proof (induction rest s rule: chunks_of.induct)
  case (1 rest s)
  show ?case
  proof (cases "rest = []")
    case True
    then show ?thesis by (simp add: MAX_BLE_PAYLOAD_def)
  next
    case False
    then have n: "0 < length rest" by simp
    show ?thesis
    proof (cases "length rest \<le> MAX_BLE_PAYLOAD")
      case True
      then have "(length rest + MAX_BLE_PAYLOAD - 1) div MAX_BLE_PAYLOAD = 1"
        using n by (simp add: div_if MAX_BLE_PAYLOAD_def)
      then show ?thesis using False True by (simp add: chunks_of.simps [of rest s])
    next
      case big: False
      then have "(length rest + MAX_BLE_PAYLOAD - 1) div MAX_BLE_PAYLOAD =
          Suc ((length rest - MAX_BLE_PAYLOAD + MAX_BLE_PAYLOAD - 1) div MAX_BLE_PAYLOAD)"
        by (simp add: div_if [of "length rest + MAX_BLE_PAYLOAD - 1"] MAX_BLE_PAYLOAD_def)
      then show ?thesis using "1.IH" [OF False] False by (simp add: chunks_of.simps [of rest s])
    qed
  qed
qed

subsection \<open>Feeding an assembler\<close>

text \<open>The messages a list of received chunks delivers, exceptions dropped.\<close>

fun delivered :: "exc + int \<times> bytes option \<Rightarrow> bytes list" where
  "delivered (Inr (_, Some m)) = [m]"
| "delivered _ = []"

fun assembler_feed :: "assembler \<Rightarrow> bytes list \<Rightarrow> bytes list \<times> assembler" where
  "assembler_feed asm [] = ([], asm)"
| "assembler_feed asm (d # ds) =
     (let (r, asm1) = assembler_add asm d; (ms, asm2) = assembler_feed asm1 ds
      in (delivered r @ ms, asm2))"

lemma assembler_feed_append:
  "assembler_feed asm (xs @ ys) =
     (let (m1, asm1) = assembler_feed asm xs; (m2, asm2) = assembler_feed asm1 ys
      in (m1 @ m2, asm2))"
  by (induction xs arbitrary: asm) (auto simp: Let_def split: prod.splits)

lemma assembler_add_raw_chunk:
  assumes "valid_sequence s" and "length payload \<le> MAX_BLE_PAYLOAD" and "asm_expected_sequence asm = s"
  shows "assembler_add asm (raw_chunk s is_end payload) =
    (Inr (s, if is_end then Some (asm_buffer asm @ payload) else None),
     asm\<lparr>asm_expected_sequence := succ_sequence s,
         asm_buffer := if is_end then [] else asm_buffer asm @ payload\<rparr>)"
  using assms by (simp add: assembler_add_def parse_raw_chunk next_sequence_valid)

lemma assembler_feed_chunks_of:
  assumes "valid_sequence s" and "rest \<noteq> []" and "asm_expected_sequence asm = s"
  shows "assembler_feed asm (chunks_of rest s) =
    ([asm_buffer asm @ rest],
     \<lparr>asm_expected_sequence = (succ_sequence ^^ length (chunks_of rest s)) s, asm_buffer = []\<rparr>)"
  using assms
proof (induction rest s arbitrary: asm rule: chunks_of.induct)
  case (1 rest s)
  let ?p = "take MAX_BLE_PAYLOAD rest" and ?r = "drop MAX_BLE_PAYLOAD rest"
  have step: "assembler_add asm (raw_chunk s (length rest \<le> MAX_BLE_PAYLOAD) ?p) =
    (Inr (s, if length rest \<le> MAX_BLE_PAYLOAD then Some (asm_buffer asm @ ?p) else None),
     asm\<lparr>asm_expected_sequence := succ_sequence s,
         asm_buffer := if length rest \<le> MAX_BLE_PAYLOAD then [] else asm_buffer asm @ ?p\<rparr>)"
    using "1.prems" by (intro assembler_add_raw_chunk) auto
  show ?case
  proof (cases "length rest \<le> MAX_BLE_PAYLOAD")
    case True
    then show ?thesis using "1.prems" step by (simp add: chunks_of.simps [of rest s])
  next
    case False
    then have "?r \<noteq> []" by simp
    with "1.IH" "1.prems" valid_succ_sequence
    have "assembler_feed asm1 (chunks_of ?r (succ_sequence s)) =
        ([asm_buffer asm1 @ ?r],
         \<lparr>asm_expected_sequence =
            (succ_sequence ^^ length (chunks_of ?r (succ_sequence s))) (succ_sequence s),
          asm_buffer = []\<rparr>)" if "asm_expected_sequence asm1 = succ_sequence s" for asm1
      using that by blast
    with False "1.prems" step show ?thesis
      by (simp add: chunks_of.simps [of rest s] funpow_swap1)
  qed
qed

subsection \<open>Splitting and reassembling a stream of frames\<close>

text \<open>
  The contract between the sending and the receiving side of the link: what splitting a frame
  produces, fed to a receiver that is ready for the sender's sequence number, delivers exactly
  that frame and leaves the receiver ready for the sender's next sequence number.
\<close>

fun send_all ::
  "(bytes \<Rightarrow> int \<Rightarrow> exc + bytes list) \<Rightarrow> (int \<Rightarrow> nat \<Rightarrow> int) \<Rightarrow> bytes list \<Rightarrow> int \<Rightarrow> exc + bytes list" where
  "send_all split_frame advance [] s = Inr []"
| "send_all split_frame advance (f # fs) s =
     rbind (split_frame f s) (\<lambda>cs.
     rbind (send_all split_frame advance fs (advance s (length cs))) (\<lambda>rest. Inr (cs @ rest)))"

locale frame_stream =
  fixes split_frame :: "bytes \<Rightarrow> int \<Rightarrow> exc + bytes list"
    and advance :: "int \<Rightarrow> nat \<Rightarrow> int"
    and feed :: "'r \<Rightarrow> bytes list \<Rightarrow> bytes list \<times> 'r"
    and ready :: "'r \<Rightarrow> int \<Rightarrow> bool"
  assumes feed_Nil: "feed r [] = ([], r)"
    and feed_append: "feed r (xs @ ys) =
      (fst (feed r xs) @ fst (feed (snd (feed r xs)) ys), snd (feed (snd (feed r xs)) ys))"
    and split_feed: "ready r s \<Longrightarrow> frame \<noteq> [] \<Longrightarrow>
      \<exists>cs. split_frame frame s = Inr cs \<and> fst (feed r cs) = [frame] \<and>
        ready (snd (feed r cs)) (advance s (length cs))"
begin

lemma stream_delivered:
  assumes "ready r s" and "[] \<notin> set frames"
  shows "\<exists>cs. send_all split_frame advance frames s = Inr cs \<and> fst (feed r cs) = frames"
  using assms
proof (induction frames arbitrary: r s)
  case Nil
  then show ?case by (simp add: feed_Nil)
next
  case (Cons f fs)
  then obtain cs where cs: "split_frame f s = Inr cs" "fst (feed r cs) = [f]"
      "ready (snd (feed r cs)) (advance s (length cs))"
    using split_feed [of r s f] by auto
  with Cons obtain rest where "send_all split_frame advance fs (advance s (length cs)) = Inr rest"
      "fst (feed (snd (feed r cs)) rest) = fs"
    by fastforce
  with cs show ?case by (simp add: feed_append)
qed

end

definition assembler_ready :: "assembler \<Rightarrow> int \<Rightarrow> bool" where
  "assembler_ready asm s \<longleftrightarrow>
     valid_sequence s \<and> asm_expected_sequence asm = s \<and> asm_buffer asm = []"

interpretation chunk_stream: frame_stream chunk_for_ble "\<lambda>s n. (succ_sequence ^^ n) s"
  assembler_feed assembler_ready
proof unfold_locales
  show "assembler_feed r [] = ([], r)" for r by simp
  show "assembler_feed r (xs @ ys) =
      (fst (assembler_feed r xs) @ fst (assembler_feed (snd (assembler_feed r xs)) ys),
       snd (assembler_feed (snd (assembler_feed r xs)) ys))" for r xs ys
    by (simp add: assembler_feed_append split: prod.splits)
  show "\<exists>cs. chunk_for_ble frame s = Inr cs \<and> fst (assembler_feed r cs) = [frame] \<and>
      assembler_ready (snd (assembler_feed r cs)) ((succ_sequence ^^ length cs) s)"
    if "assembler_ready r s" and "frame \<noteq> []" for r s frame
    using that by (intro exI [of _ "chunks_of frame s"])
      (simp add: chunk_for_ble_eq assembler_ready_def assembler_feed_chunks_of valid_iterate_sequence)
qed

subsection \<open>What any input can deliver\<close>

definition valid_assembler :: "assembler \<Rightarrow> bool" where
  "valid_assembler asm \<longleftrightarrow> valid_sequence (asm_expected_sequence asm)"

fun consecutive :: "int \<Rightarrow> ble_chunk list \<Rightarrow> bool" where
  "consecutive s [] \<longleftrightarrow> True"
| "consecutive s (c # cs) \<longleftrightarrow> ch_sequence c = s \<and> consecutive (succ_sequence s) cs"

lemma consecutive_snoc:
  "consecutive s (cs @ [c]) \<longleftrightarrow>
     consecutive s cs \<and> ch_sequence c = (succ_sequence ^^ length cs) s"
  by (induction cs arbitrary: s) (auto simp: funpow_swap1)

text \<open>The well-formed data chunks among the received bytes.\<close>

definition data_chunks :: "bytes list \<Rightarrow> ble_chunk list" where
  "data_chunks ds = concat (map (\<lambda>d. case parse_ble_chunk d of
      Inr c \<Rightarrow> if ch_for_bluetooth_layer c then [] else [c] | Inl _ \<Rightarrow> []) ds)"

text \<open>A message is the payload of a run of consecutive chunks of which only the last ends it.\<close>

definition message_run :: "ble_chunk list \<Rightarrow> bytes \<Rightarrow> bool" where
  "message_run cs m \<longleftrightarrow>
     cs \<noteq> [] \<and> consecutive (ch_sequence (hd cs)) cs \<and> ch_end_of_message (last cs) \<and>
     (\<forall>c \<in> set (butlast cs). \<not> ch_end_of_message c) \<and> m = concat (map ch_payload cs)"

text \<open>The buffer holds the payload of such a run, still open, that ends where the assembler is.\<close>

definition open_run :: "bytes list \<Rightarrow> assembler \<Rightarrow> bool" where
  "open_run ds asm \<longleftrightarrow>
     (\<exists>cs s. subseq cs (data_chunks ds) \<and> consecutive s cs \<and>
        (\<forall>c \<in> set cs. \<not> ch_end_of_message c) \<and> asm_buffer asm = concat (map ch_payload cs) \<and>
        asm_expected_sequence asm = (succ_sequence ^^ length cs) s)"

lemma data_chunks_append: "data_chunks (xs @ ys) = data_chunks xs @ data_chunks ys"
  by (simp add: data_chunks_def)

lemma open_run_empty:
  "asm_buffer asm = [] \<Longrightarrow> open_run ds asm"
  unfolding open_run_def
  by (intro exI [of _ "[]"] exI [of _ "asm_expected_sequence asm"]) simp

lemma open_run_mono: "open_run ds asm \<Longrightarrow> open_run (ds @ es) asm"
  unfolding open_run_def data_chunks_append by (blast intro: list_emb_prefix)

text \<open>The shape of one step: rejected without effect, rejected with a reset, or accepted.\<close>

lemma assembler_add_cases:
  assumes "assembler_add asm d = (r, asm1)"
  obtains (unchanged) e where "r = Inl e" "asm1 = asm"
    | (reset) e where "r = Inl e" "asm1 = asm\<lparr>asm_buffer := []\<rparr>"
    | (accepted) c where "parse_ble_chunk d = Inr c" "\<not> ch_for_bluetooth_layer c"
        "ch_sequence c = asm_expected_sequence asm" "valid_sequence (ch_sequence c)"
        "r = Inr (ch_sequence c,
           if ch_end_of_message c then Some (asm_buffer asm @ ch_payload c) else None)"
        "asm1 = asm\<lparr>asm_expected_sequence := succ_sequence (ch_sequence c),
           asm_buffer := if ch_end_of_message c then [] else asm_buffer asm @ ch_payload c\<rparr>"
proof (cases "parse_ble_chunk d")
  case (Inl e)
  with assms show ?thesis by (intro unchanged [of e]) (auto simp: assembler_add_def)
next
  case (Inr c)
  show ?thesis
  proof (cases "ch_for_bluetooth_layer c \<or> ch_sequence c \<noteq> asm_expected_sequence asm")
    case True
    with assms Inr show ?thesis
      using unchanged reset by (auto simp: assembler_add_def split: if_split_asm)
  next
    case False
    show ?thesis
    proof (cases "valid_sequence (ch_sequence c)")
      case True
      with False assms Inr show ?thesis
        by (intro accepted [of c]) (auto simp: assembler_add_def next_sequence_valid Let_def)
    next
      case invalid: False
      then obtain e where "next_sequence (ch_sequence c) = Inl e"
        by (auto simp: next_sequence_def valid_sequence_def)
      with False assms Inr show ?thesis
        by (intro unchanged [of e]) (auto simp: assembler_add_def)
    qed
  qed
qed

lemma assembler_add_valid:
  "assembler_add asm d = (r, asm1) \<Longrightarrow> valid_assembler asm \<Longrightarrow> valid_assembler asm1"
  by (erule assembler_add_cases) (auto simp: valid_assembler_def valid_succ_sequence)

lemma assembler_feed_valid:
  "valid_assembler asm \<Longrightarrow> valid_assembler (snd (assembler_feed asm ds))"
proof (induction ds arbitrary: asm)
  case (Cons d ds)
  obtain r asm1 where step: "assembler_add asm d = (r, asm1)" by fastforce
  with Cons assembler_add_valid have "valid_assembler (snd (assembler_feed asm1 ds))" by blast
  with step show ?case by (auto split: prod.splits)
qed simp

lemma open_run_step:
  assumes "open_run ds asm" and "assembler_add asm d = (r, asm1)"
  shows "open_run (ds @ [d]) asm1 \<and>
    (\<forall>m \<in> set (delivered r). \<exists>cs. subseq cs (data_chunks (ds @ [d])) \<and> message_run cs m)"
  using assms(2)
proof (cases rule: assembler_add_cases)
  case unchanged
  with assms(1) show ?thesis by (simp add: open_run_mono)
next
  case reset
  then show ?thesis by (simp add: open_run_empty)
next
  case (accepted c)
  from assms(1) obtain cs s where cs: "subseq cs (data_chunks ds)" "consecutive s cs"
    "\<forall>c \<in> set cs. \<not> ch_end_of_message c" "asm_buffer asm = concat (map ch_payload cs)"
    "asm_expected_sequence asm = (succ_sequence ^^ length cs) s"
    unfolding open_run_def by blast
  have sub: "subseq (cs @ [c]) (data_chunks (ds @ [d]))"
    using cs(1) accepted(1,2) by (simp add: data_chunks_append) (simp add: data_chunks_def)
  have con: "consecutive s (cs @ [c])" using cs(2,5) accepted(3) by (simp add: consecutive_snoc)
  then have "consecutive (ch_sequence (hd (cs @ [c]))) (cs @ [c])" by (cases cs) auto
  then have run: "message_run (cs @ [c]) (asm_buffer asm @ ch_payload c)" if "ch_end_of_message c"
    using that cs(3,4) by (simp add: message_run_def)
  show ?thesis
  proof (cases "ch_end_of_message c")
    case True
    then show ?thesis using accepted run [OF True] sub by (auto intro: open_run_empty)
  next
    case False
    have "open_run (ds @ [d]) asm1"
      unfolding open_run_def using sub con cs(3-5) accepted False
      by (intro exI [of _ "cs @ [c]"] exI [of _ s]) simp
    then show ?thesis using accepted False by simp
  qed
qed

lemma assembler_feed_runs:
  assumes "open_run es asm" and "m \<in> set (fst (assembler_feed asm ds))"
  shows "\<exists>cs. subseq cs (data_chunks (es @ ds)) \<and> message_run cs m"
  using assms
proof (induction ds arbitrary: es asm)
  case Nil
  then show ?case by simp
next
  case (Cons d ds)
  obtain r asm1 where step: "assembler_add asm d = (r, asm1)" by fastforce
  note inv = open_run_step [OF Cons.prems(1) step]
  from Cons.prems(2) step consider "m \<in> set (delivered r)" | "m \<in> set (fst (assembler_feed asm1 ds))"
    by (auto split: prod.splits)
  then show ?case
  proof cases
    case 1
    with inv obtain cs where "subseq cs (data_chunks (es @ [d]))" "message_run cs m" by blast
    moreover have "data_chunks (es @ d # ds) = data_chunks (es @ [d]) @ data_chunks ds"
      using data_chunks_append [of "es @ [d]" ds] by simp
    ultimately show ?thesis by (metis list_emb_prefix)
  next
    case 2
    then show ?thesis using Cons.IH [of "es @ [d]" asm1] inv by simp
  qed
qed

subsection \<open>Acknowledgement frames\<close>

lemma parse_make_ble_ack: "valid_sequence s \<Longrightarrow> rbind (make_ble_ack s) parse_ble_ack = Inr s"
  using six_bits(2) [of s]
  by (simp add: make_ble_ack_def parse_ble_ack_def parse_ble_chunk_def valid_sequence_def Let_def
      BLUETOOTH_COMMAND_FLAG_def END_OF_MESSAGE_FLAG_def MAX_BLE_PAYLOAD_def)

lemma parse_ble_ack_Inr: "parse_ble_ack d = Inr s \<Longrightarrow> valid_sequence s"
  by (auto simp: parse_ble_ack_def rbind_eq_Inr valid_sequence_def split: if_split_asm)

lemma parse_ble_chunk_data_valid:
  assumes "parse_ble_chunk d = Inr c" and "\<not> ch_for_bluetooth_layer c"
  shows "valid_sequence (ch_sequence c)"
proof -
  from assms have c: "ch_sequence c = uint (d ! 1 AND 0x3F)" "ch_sequence c \<noteq> 0"
    by (auto simp: parse_ble_chunk_def Let_def split: if_split_asm)
  have "d ! 1 AND 0x3F \<le> (0x3F :: byte)" by (rule word_and_le1)
  then have "uint (d ! 1 AND 0x3F) \<le> uint (0x3F :: byte)" by (simp only: word_le_def)
  moreover have "0 \<le> uint (d ! 1 AND 0x3F)" by (rule uint_ge_0)
  moreover have "uint (0x3F :: byte) = 63" by simp
  ultimately show ?thesis using c unfolding valid_sequence_def MAX_SEQUENCE_def by linarith
qed

text \<open>The chunks of a frame are one run.\<close>

lemma data_chunks_raw:
  assumes "valid_sequence s" and "length payload \<le> MAX_BLE_PAYLOAD"
  shows "data_chunks (raw_chunk s is_end payload # ds) =
    \<lparr>ch_sequence = s, ch_end_of_message = is_end, ch_for_bluetooth_layer = False,
     ch_payload = payload\<rparr> # data_chunks ds"
  using assms by (simp add: data_chunks_def parse_raw_chunk)

lemma message_run_Cons:
  assumes "message_run cs m" and "\<not> ch_end_of_message c"
    and "ch_sequence (hd cs) = succ_sequence (ch_sequence c)"
  shows "message_run (c # cs) (ch_payload c @ m)"
  using assms by (auto simp: message_run_def)

lemma chunks_of_wellformed:
  assumes "valid_sequence s" and "rest \<noteq> []"
  shows "(\<forall>c \<in> set (chunks_of rest s). length c \<le> 20) \<and> message_run (data_chunks (chunks_of rest s)) rest \<and>
    length (data_chunks (chunks_of rest s)) = length (chunks_of rest s) \<and>
    ch_sequence (hd (data_chunks (chunks_of rest s))) = s"
  using assms
proof (induction rest s rule: chunks_of.induct)
  case (1 rest s)
  let ?p = "take MAX_BLE_PAYLOAD rest" and ?r = "drop MAX_BLE_PAYLOAD rest"
  have raw: "length (raw_chunk s b ?p) \<le> 20" for b by (simp add: raw_chunk_def MAX_BLE_PAYLOAD_def)
  show ?case
  proof (cases "length rest \<le> MAX_BLE_PAYLOAD")
    case True
    have "data_chunks [] = []" by (simp add: data_chunks_def)
    with True show ?thesis using "1.prems" raw [of True]
      by (simp add: chunks_of.simps [of rest s] data_chunks_raw message_run_def)
  next
    case False
    then have "?r \<noteq> []" by simp
    note IH = "1.IH" [OF "1.prems"(2) valid_succ_sequence [OF "1.prems"(1)] this]
    let ?c = "\<lparr>ch_sequence = s, ch_end_of_message = False, ch_for_bluetooth_layer = False,
      ch_payload = ?p\<rparr>"
    have run: "message_run (?c # data_chunks (chunks_of ?r (succ_sequence s))) (ch_payload ?c @ ?r)"
      using IH by (intro message_run_Cons) auto
    show ?thesis using False "1.prems" raw IH run
      by (simp add: chunks_of.simps [of rest s] data_chunks_raw)
  qed
qed

text \<open>The assembler after a chunk it already accepted arrives a second time.\<close>

lemma assembler_add_out_of_sequence:
  assumes "valid_sequence t" and "length payload \<le> MAX_BLE_PAYLOAD" and "asm_expected_sequence asm \<noteq> t"
  shows "assembler_add asm (raw_chunk t is_end payload) =
    (Inl (TiltProtocolError ''Received a non-contiguous BLE sequence.''), asm\<lparr>asm_buffer := []\<rparr>)"
  using assms by (simp add: assembler_add_def parse_raw_chunk)

lemma succ_sequence_neq: "valid_sequence s \<Longrightarrow> succ_sequence s \<noteq> s"
  by (auto simp: succ_sequence_def next_sequence_def valid_sequence_def MAX_SEQUENCE_def)

subsection \<open>Properties\<close>

text \<open>C19: Any sequence of non-empty frames, split by \<open>chunk_for_ble\<close> with the sequence number
  carried on from frame to frame (wrapping from 63 to 1), is delivered unchanged and in order by
  an assembler that starts at the same sequence number.\<close>

theorem chunked_frames_delivered:
  assumes "valid_sequence s" and "[] \<notin> set frames"
  shows "\<exists>chunks. send_all chunk_for_ble (\<lambda>s n. (succ_sequence ^^ n) s) frames s = Inr chunks \<and>
    fst (assembler_feed \<lparr>asm_expected_sequence = s, asm_buffer = []\<rparr> chunks) = frames"
  using assms by (intro chunk_stream.stream_delivered) (simp_all add: assembler_ready_def)

theorem chunked_frames_delivered_witness:
  "\<exists>chunks. send_all chunk_for_ble (\<lambda>s n. (succ_sequence ^^ n) s) [replicate 40 1, [2]] 62 = Inr chunks \<and>
    fst (assembler_feed \<lparr>asm_expected_sequence = 62, asm_buffer = []\<rparr> chunks) = [replicate 40 1, [2]]"
  by (rule chunked_frames_delivered) (simp_all add: valid_sequence_def MAX_SEQUENCE_def)

text \<open>The chunks of a frame: at most 20 bytes each, one for every 18 bytes or part of them,
  numbered consecutively from the start sequence, the last and only the last marked as the end,
  and their payloads in order are the frame.\<close>

lemma chunk_for_ble_wellformed:
  assumes "chunk_for_ble frame s = Inr chunks"
  shows "length chunks = (length frame + 17) div 18 \<and> (\<forall>c \<in> set chunks. length c \<le> 20) \<and>
    message_run (data_chunks chunks) frame \<and> length (data_chunks chunks) = length chunks \<and>
    ch_sequence (hd (data_chunks chunks)) = s"
  using assms chunks_of_wellformed [of s frame] length_chunks_of [of frame s]
  by (auto simp: chunk_for_ble_eq MAX_BLE_PAYLOAD_def)

lemma chunk_for_ble_wellformed_witness:
  "\<exists>chunks. chunk_for_ble (replicate 37 5) 63 = Inr chunks \<and> length chunks = 3"
proof -
  have "chunk_for_ble (replicate 37 5) 63 = Inr (chunks_of (replicate 37 5) 63)"
    by (simp add: chunk_for_ble_eq valid_sequence_def MAX_SEQUENCE_def)
  from chunk_for_ble_wellformed [OF this] this show ?thesis by simp
qed

text \<open>C20: Whatever bytes a peer sends, every message a fresh assembler delivers is the
  concatenated payload of data chunks it received in that order, numbered consecutively, of which
  exactly the last is marked as the end of the message.\<close>

theorem assembler_delivers_runs:
  assumes "m \<in> set (fst (assembler_feed \<lparr>asm_expected_sequence = s, asm_buffer = []\<rparr> received))"
  shows "\<exists>cs. subseq cs (data_chunks received) \<and> message_run cs m"
  using assembler_feed_runs [of "[]" "\<lparr>asm_expected_sequence = s, asm_buffer = []\<rparr>" m received] assms
  by (simp add: open_run_empty)

theorem assembler_delivers_runs_witness:
  "\<exists>cs. subseq cs (data_chunks (chunks_of [1, 2, 3] 1)) \<and> message_run cs [1, 2, 3]"
  by (rule assembler_delivers_runs [of _ 1])
    (simp add: assembler_feed_chunks_of valid_sequence_def MAX_SEQUENCE_def)

text \<open>C23: When a chunk that does not end its message arrives twice, the assembler drops the
  message's first part but goes on from the following sequence number, so that the remaining
  chunk is delivered as if it were a complete message.\<close>

theorem duplicate_chunk_truncates_message:
  assumes "valid_sequence s" and "length p \<le> 18" and "length q \<le> 18"
  shows "fst (assembler_feed \<lparr>asm_expected_sequence = s, asm_buffer = []\<rparr>
      [raw_chunk s False p, raw_chunk s False p, raw_chunk (succ_sequence s) True q]) = [q]"
  using assms succ_sequence_neq [of s]
  by (simp add: assembler_add_raw_chunk assembler_add_out_of_sequence valid_succ_sequence MAX_BLE_PAYLOAD_def)

theorem duplicate_chunk_truncates_message_witness:
  "fst (assembler_feed \<lparr>asm_expected_sequence = 1, asm_buffer = []\<rparr>
      [raw_chunk 1 False (replicate 18 7), raw_chunk 1 False (replicate 18 7),
       raw_chunk (succ_sequence 1) True [8]]) = [[8]]"
  by (rule duplicate_chunk_truncates_message) (simp_all add: valid_sequence_def MAX_SEQUENCE_def)

text \<open>An acknowledgement can be made for the sequence numbers 1 to 63 only, and the peer's
  parser reads back the number it was made for.\<close>

lemma ble_ack_roundtrip:
  "rbind (make_ble_ack s) parse_ble_ack = Inr t \<longleftrightarrow> 1 \<le> s \<and> s \<le> 63 \<and> t = s"
  using parse_make_ble_ack [of s]
  by (cases "valid_sequence s") (auto simp: valid_sequence_def MAX_SEQUENCE_def make_ble_ack_def)

end
