(* ===== verification/Link.thy ===== *)
theory Link
  imports Chunking "HOL-Library.AList"
begin

text \<open>
  The transport of one BLE session, \<open>_TiltBleSession\<close> of \<open>tilt/ble.py\<close>: the notification
  callback, the notification worker task and \<open>_send_frame\<close>, which share two bounded queues, the
  dictionary of acknowledgement waiters and the message assembler.

  The event loop runs each of the three up to its next \<open>await\<close> without interruption. An \<open>event\<close>
  is what ends such an \<open>await\<close> (or calls the callback); \<open>link_step\<close> is the code that then runs.
  Any interleaving of the tasks is a list of events, the peer and the Bluetooth stack being free
  in what they notify, when a write ends and whether it raises. A timer may fire also when the
  awaited future is already done but its task has not run again.

  \<open>writes\<close> logs the calls of \<open>write_gatt_char\<close> in order and \<open>processed\<close> the notifications the
  worker has taken; no code reads them.
\<close>

subsection \<open>State\<close>

datatype future = Pending | Finished | Failed exc | Cancelled

record attempt =
  at_waiter :: nat
  at_chunk :: bytes
  at_rest :: "bytes list"
  at_attempt :: nat
  at_attempts :: nat

datatype worker = Worker_waiting | Worker_writing "bytes option" | Worker_stopped

datatype sender =
    Sender_idle
  | Sender_writing attempt
  | Sender_acking attempt
  | Sender_response
  | Sender_done "exc + bytes"

datatype gatt_write = Chunk_write bytes | Ack_write bytes

record link =
  notification_queue :: "bytes list"
  response_queue :: "(exc + bytes) list"
  ack_waiters :: "(int \<times> nat) list"
  futures :: "future list"
  link_assembler :: assembler
  worker :: worker
  tx_sequence :: int
  sender :: sender
  writes :: "gatt_write list"
  processed :: "bytes list"

definition link_new :: link where
  "link_new =
     \<lparr>notification_queue = [], response_queue = [], ack_waiters = [], futures = [],
      link_assembler = \<lparr>asm_expected_sequence = 1, asm_buffer = []\<rparr>, worker = Worker_waiting,
      tx_sequence = 1, sender = Sender_idle, writes = [], processed = []\<rparr>"

definition NOTIFICATION_QUEUE_SIZE :: nat where
  "NOTIFICATION_QUEUE_SIZE = 128"

definition RESPONSE_QUEUE_SIZE :: nat where
  "RESPONSE_QUEUE_SIZE = 4"

subsection \<open>Receiving\<close>

definition complete_future :: "future \<Rightarrow> nat \<Rightarrow> future list \<Rightarrow> future list" where
  "complete_future v i fs = (if fs ! i = Pending then fs[i := v] else fs)"

definition fail :: "exc \<Rightarrow> link \<Rightarrow> link" where
  "fail error l =
     (let l1 = l\<lparr>futures := fold (\<lambda>(_, i). complete_future (Failed error) i) (ack_waiters l) (futures l)\<rparr>
      in if length (response_queue l1) < RESPONSE_QUEUE_SIZE
         then l1\<lparr>response_queue := response_queue l1 @ [Inl error]\<rparr> else l1)"

definition notification_received :: "bytes \<Rightarrow> link \<Rightarrow> link" where
  "notification_received data l =
     (if length (notification_queue l) < NOTIFICATION_QUEUE_SIZE
      then l\<lparr>notification_queue := notification_queue l @ [data]\<rparr>
      else fail (TiltBleError ''Tilt notification queue overflowed.'') l)"

definition acknowledge :: "int \<Rightarrow> link \<Rightarrow> link" where
  "acknowledge acknowledged l =
     (case map_of (ack_waiters l) acknowledged of
        None \<Rightarrow> l
      | Some waiter \<Rightarrow> l\<lparr>futures := complete_future Finished waiter (futures l)\<rparr>)"

text \<open>One turn of the worker's loop, from \<open>queue.get()\<close> to its next \<open>await\<close>.\<close>

definition worker_process :: "bytes \<Rightarrow> link \<Rightarrow> link" where
  "worker_process data l =
     (case parse_ble_chunk data of
        Inl e \<Rightarrow> fail e l
      | Inr chunk \<Rightarrow>
          (if ch_for_bluetooth_layer chunk
           then (case parse_ble_ack data of
                   Inl e \<Rightarrow> fail e l
                 | Inr acknowledged \<Rightarrow> acknowledge acknowledged l)
           else (case assembler_add (link_assembler l) data of
                   (Inl e, asm) \<Rightarrow> fail e (l\<lparr>link_assembler := asm\<rparr>)
                 | (Inr (acknowledged, message), asm) \<Rightarrow>
                     (case make_ble_ack acknowledged of
                        Inl e \<Rightarrow> fail e (l\<lparr>link_assembler := asm\<rparr>)
                      | Inr ack \<Rightarrow>
                          l\<lparr>link_assembler := asm, worker := Worker_writing message,
                            writes := writes l @ [Ack_write ack]\<rparr>))))"

definition worker_take :: "link \<Rightarrow> link option" where
  "worker_take l =
     (case (worker l, notification_queue l) of
        (Worker_waiting, data # queue) \<Rightarrow>
          Some (worker_process data
            (l\<lparr>notification_queue := queue, processed := processed l @ [data]\<rparr>))
      | _ \<Rightarrow> None)"

text \<open>The acknowledgement has been written (\<open>None\<close>), or writing it raised.\<close>

definition worker_written :: "exc option \<Rightarrow> link \<Rightarrow> link option" where
  "worker_written outcome l =
     (case worker l of
        Worker_writing message \<Rightarrow>
          Some (let l1 = l\<lparr>worker := Worker_waiting\<rparr>
            in case outcome of
                 Some e \<Rightarrow>
                   (if isinstance_exc e [Exception_class] then fail e l1
                    else l\<lparr>worker := Worker_stopped\<rparr>)
               | None \<Rightarrow>
                   (case message of
                      None \<Rightarrow> l1
                    | Some m \<Rightarrow>
                        if length (response_queue l1) < RESPONSE_QUEUE_SIZE
                        then l1\<lparr>response_queue := response_queue l1 @ [Inr m]\<rparr>
                        else fail QueueFull l1))
      | _ \<Rightarrow> None)"

definition worker_cancel :: "link \<Rightarrow> link option" where
  "worker_cancel l =
     (if worker l = Worker_stopped then None else Some (l\<lparr>worker := Worker_stopped\<rparr>))"

subsection \<open>Sending\<close>

definition chunk_sequence :: "bytes \<Rightarrow> int" where
  "chunk_sequence chunk = uint (chunk ! 1 AND 0x3F)"

definition begin_attempt :: "bytes \<Rightarrow> bytes list \<Rightarrow> nat \<Rightarrow> nat \<Rightarrow> link \<Rightarrow> link" where
  "begin_attempt chunk rest n attempts l =
     (let waiter = length (futures l)
      in l\<lparr>futures := futures l @ [Pending],
           ack_waiters := AList.update (chunk_sequence chunk) waiter (ack_waiters l),
           writes := writes l @ [Chunk_write chunk],
           sender := Sender_writing \<lparr>at_waiter = waiter, at_chunk = chunk, at_rest = rest,
             at_attempt = n, at_attempts = attempts\<rparr>\<rparr>)"

fun next_chunk :: "bytes list \<Rightarrow> nat \<Rightarrow> link \<Rightarrow> link" where
  "next_chunk [] attempts l = l\<lparr>sender := Sender_response\<rparr>"
| "next_chunk (chunk # rest) attempts l = begin_attempt chunk rest 0 attempts l"

definition finish :: "exc + bytes \<Rightarrow> link \<Rightarrow> link" where
  "finish result l = l\<lparr>sender := Sender_done result\<rparr>"

definition send_frame :: "bytes \<Rightarrow> bool \<Rightarrow> link \<Rightarrow> link" where
  "send_frame frame retry_chunks l =
     (if response_queue l \<noteq> []
      then finish (Inl (TiltBleError ''Unexpected stale Tilt response before request.'')) l
      else case chunk_for_ble frame (tx_sequence l) of
          Inl e \<Rightarrow> finish (Inl e) l
        | Inr chunks \<Rightarrow> next_chunk chunks (if retry_chunks then 2 else 1) l)"

text \<open>The \<open>finally\<close> clause of an attempt, and an attempt that raised.\<close>

definition release_waiter :: "attempt \<Rightarrow> link \<Rightarrow> link" where
  "release_waiter a l =
     (let sequence = chunk_sequence (at_chunk a)
      in if map_of (ack_waiters l) sequence = Some (at_waiter a)
         then l\<lparr>ack_waiters := AList.delete sequence (ack_waiters l)\<rparr> else l)"

definition attempt_failed :: "exc \<Rightarrow> attempt \<Rightarrow> link \<Rightarrow> link" where
  "attempt_failed e a l =
     (let l1 = release_waiter a l
      in if isinstance_exc e [TimeoutError_class]
         then if at_attempt a + 1 = at_attempts a
              then finish (Inl (TiltBleTimeout (''Timed out waiting for BLE ACK sequence '' @
                     str_of_int (chunk_sequence (at_chunk a)) @ ''.''))) l1
              else begin_attempt (at_chunk a) (at_rest a) (at_attempt a + 1) (at_attempts a) l1
         else finish (Inl e) l1)"

definition chunk_acknowledged :: "attempt \<Rightarrow> link \<Rightarrow> link" where
  "chunk_acknowledged a l =
     (let l1 = release_waiter a l
      in case next_sequence (chunk_sequence (at_chunk a)) of
           Inl e \<Rightarrow> finish (Inl e) l1
         | Inr n \<Rightarrow> next_chunk (at_rest a) (at_attempts a) (l1\<lparr>tx_sequence := n\<rparr>))"

definition sender_written :: "exc option \<Rightarrow> link \<Rightarrow> link option" where
  "sender_written outcome l =
     (case sender l of
        Sender_writing a \<Rightarrow>
          Some (case outcome of
                  None \<Rightarrow> l\<lparr>sender := Sender_acking a\<rparr>
                | Some e \<Rightarrow> attempt_failed e a l)
      | _ \<Rightarrow> None)"

definition sender_wake :: "link \<Rightarrow> link option" where
  "sender_wake l =
     (case sender l of
        Sender_acking a \<Rightarrow>
          (case futures l ! at_waiter a of
             Pending \<Rightarrow> None
           | Finished \<Rightarrow> Some (chunk_acknowledged a l)
           | Failed e \<Rightarrow> Some (attempt_failed e a l)
           | Cancelled \<Rightarrow> Some (attempt_failed CancelledError a l))
      | _ \<Rightarrow> None)"

definition ack_timeout :: "link \<Rightarrow> link option" where
  "ack_timeout l =
     (case sender l of
        Sender_acking a \<Rightarrow>
          Some (attempt_failed TimeoutError a
            (l\<lparr>futures := complete_future Cancelled (at_waiter a) (futures l)\<rparr>))
      | _ \<Rightarrow> None)"

definition take_response :: "link \<Rightarrow> link option" where
  "take_response l =
     (case (sender l, response_queue l) of
        (Sender_response, response # queue) \<Rightarrow>
          Some (finish response (l\<lparr>response_queue := queue\<rparr>))
      | _ \<Rightarrow> None)"

definition response_timeout :: "link \<Rightarrow> link option" where
  "response_timeout l =
     (case sender l of
        Sender_response \<Rightarrow>
          Some (finish (Inl (TiltBleTimeout ''Timed out waiting for Tilt response.'')) l)
      | _ \<Rightarrow> None)"

definition sender_cancel :: "link \<Rightarrow> link option" where
  "sender_cancel l =
     (case sender l of
        Sender_writing a \<Rightarrow> Some (attempt_failed CancelledError a l)
      | Sender_acking a \<Rightarrow>
          Some (attempt_failed CancelledError a
            (l\<lparr>futures := complete_future Cancelled (at_waiter a) (futures l)\<rparr>))
      | Sender_response \<Rightarrow> Some (finish (Inl CancelledError) l)
      | _ \<Rightarrow> None)"

subsection \<open>Events\<close>

datatype event =
    Notify bytes
  | Worker_take
  | Worker_written "exc option"
  | Worker_cancel
  | Sender_written "exc option"
  | Sender_wake
  | Ack_timeout
  | Take_response
  | Response_timeout
  | Sender_cancel

fun link_step :: "event \<Rightarrow> link \<Rightarrow> link option" where
  "link_step (Notify data) l = Some (notification_received data l)"
| "link_step Worker_take l = worker_take l"
| "link_step (Worker_written outcome) l = worker_written outcome l"
| "link_step Worker_cancel l = worker_cancel l"
| "link_step (Sender_written outcome) l = sender_written outcome l"
| "link_step Sender_wake l = sender_wake l"
| "link_step Ack_timeout l = ack_timeout l"
| "link_step Take_response l = take_response l"
| "link_step Response_timeout l = response_timeout l"
| "link_step Sender_cancel l = sender_cancel l"

text \<open>The runs of the link while one \<open>_send_frame\<close> is under way, and of a whole session.\<close>

inductive link_run :: "link \<Rightarrow> event list \<Rightarrow> link \<Rightarrow> bool" where
  link_run_refl: "link_run l [] l"
| link_run_step: "link_run l es l1 \<Longrightarrow> link_step e l1 = Some l2 \<Longrightarrow> link_run l (es @ [e]) l2"

inductive session_run :: "link \<Rightarrow> bool" where
  session_new: "session_run link_new"
| session_step: "session_run l \<Longrightarrow> link_step e l = Some l' \<Longrightarrow> session_run l'"
| session_send: "session_run l \<Longrightarrow> sender l = Sender_idle \<Longrightarrow> session_run (send_frame f r l)"
| session_return: "session_run l \<Longrightarrow> sender l = Sender_done res \<Longrightarrow>
    session_run (l\<lparr>sender := Sender_idle\<rparr>)"

subsection \<open>What each handler leaves alone\<close>

lemma length_complete_future [simp]: "length (complete_future v i fs) = length fs"
  by (simp add: complete_future_def)

lemma length_fail_futures [simp]:
  "length (fold (\<lambda>(s, i). complete_future v i) ws fs) = length fs"
  by (induction ws arbitrary: fs) (auto split: prod.splits)

lemma complete_future_nth:
  "complete_future v i fs ! j = Finished \<Longrightarrow> fs ! j = Finished \<or> v = Finished \<and> j = i"
  by (cases "i < length fs") (auto simp: complete_future_def nth_list_update list_update_beyond split: if_splits)

lemma fail_futures_Finished:
  "fold (\<lambda>(s, i). complete_future (Failed e) i) ws fs ! j = Finished \<Longrightarrow> fs ! j = Finished"
  by (induction ws arbitrary: fs) (auto split: prod.splits dest!: complete_future_nth)

lemma fail_simps [simp]:
  "notification_queue (fail e l) = notification_queue l" "ack_waiters (fail e l) = ack_waiters l"
  "length (futures (fail e l)) = length (futures l)" "link_assembler (fail e l) = link_assembler l"
  "worker (fail e l) = worker l" "tx_sequence (fail e l) = tx_sequence l"
  "sender (fail e l) = sender l" "writes (fail e l) = writes l" "processed (fail e l) = processed l"
  by (simp_all add: fail_def Let_def)

lemma fail_response_queue:
  "response_queue (fail e l) =
     (if length (response_queue l) < RESPONSE_QUEUE_SIZE then response_queue l @ [Inl e]
      else response_queue l)"
  by (simp add: fail_def Let_def)

lemma fail_Finished: "futures (fail e l) ! i = Finished \<Longrightarrow> futures l ! i = Finished"
  by (auto simp: fail_def Let_def dest: fail_futures_Finished split: if_splits)

lemma acknowledge_simps [simp]:
  "notification_queue (acknowledge s l) = notification_queue l"
  "response_queue (acknowledge s l) = response_queue l" "ack_waiters (acknowledge s l) = ack_waiters l"
  "length (futures (acknowledge s l)) = length (futures l)"
  "link_assembler (acknowledge s l) = link_assembler l" "worker (acknowledge s l) = worker l"
  "tx_sequence (acknowledge s l) = tx_sequence l" "sender (acknowledge s l) = sender l"
  "writes (acknowledge s l) = writes l" "processed (acknowledge s l) = processed l"
  by (simp_all add: acknowledge_def split: option.splits)

lemma acknowledge_Finished:
  "futures (acknowledge s l) ! i = Finished \<Longrightarrow>
     futures l ! i = Finished \<or> map_of (ack_waiters l) s = Some i"
  by (auto simp: acknowledge_def split: option.splits dest: complete_future_nth)

text \<open>The chunks written by \<open>_send_frame\<close>, as opposed to acknowledgements.\<close>

fun chunk_of_write :: "gatt_write \<Rightarrow> bytes list" where
  "chunk_of_write (Chunk_write c) = [c]"
| "chunk_of_write (Ack_write _) = []"

definition chunk_writes :: "link \<Rightarrow> bytes list" where
  "chunk_writes l = concat (map chunk_of_write (writes l))"

definition acked :: "bytes list \<Rightarrow> int set" where
  "acked ds = {s. \<exists>d \<in> set ds. parse_ble_ack d = Inr s}"

lemma acked_append: "acked (xs @ ys) = acked xs \<union> acked ys"
  by (auto simp: acked_def)

text \<open>
  The receiving tasks never touch what belongs to the sender: its position, its waiter, its
  sequence number and its writes. A waiter of theirs is only completed for an acknowledgement
  the worker has just processed.
\<close>

definition sender_untouched :: "link \<Rightarrow> link \<Rightarrow> bool" where
  "sender_untouched l l' \<longleftrightarrow>
     sender l' = sender l \<and> tx_sequence l' = tx_sequence l \<and> ack_waiters l' = ack_waiters l \<and>
     chunk_writes l' = chunk_writes l \<and> length (futures l') = length (futures l) \<and>
     prefix (processed l) (processed l') \<and>
     (\<forall>i. futures l' ! i = Finished \<longrightarrow>
        futures l ! i = Finished \<or>
        (\<exists>s \<in> acked (drop (length (processed l)) (processed l')). map_of (ack_waiters l) s = Some i))"

lemma worker_process_untouched: 
  assumes "processed l = p @ [data]"
  shows "sender (worker_process data l) = sender l \<and> tx_sequence (worker_process data l) = tx_sequence l \<and>
    ack_waiters (worker_process data l) = ack_waiters l \<and>
    chunk_writes (worker_process data l) = chunk_writes l \<and>
    length (futures (worker_process data l)) = length (futures l) \<and>
    processed (worker_process data l) = processed l \<and>
    (\<forall>i. futures (worker_process data l) ! i = Finished \<longrightarrow> futures l ! i = Finished \<or>
      (\<exists>s. parse_ble_ack data = Inr s \<and> map_of (ack_waiters l) s = Some i))"
  unfolding worker_process_def
  by (auto simp: chunk_writes_def split: sum.splits prod.splits dest: fail_Finished acknowledge_Finished)

lemma worker_take_untouched:
  assumes "worker_take l = Some l'"
  shows "sender_untouched l l'"
proof -
  from assms obtain data queue where l': "l' = worker_process data
      (l\<lparr>notification_queue := queue, processed := processed l @ [data]\<rparr>)"
    by (auto simp: worker_take_def split: worker.splits list.splits)
  show ?thesis
    unfolding l' sender_untouched_def
    using worker_process_untouched [of "l\<lparr>notification_queue := queue, processed := processed l @ [data]\<rparr>"
        "processed l" data]
    by (auto simp: chunk_writes_def acked_def)
qed

lemma sender_untouched_fail: "sender_untouched l (fail e l)"
  by (auto simp: sender_untouched_def chunk_writes_def dest: fail_Finished)

lemma worker_written_untouched:
  "worker_written r l = Some l' \<Longrightarrow> sender_untouched l l'"
  by (cases "worker l")
    (auto simp: worker_written_def sender_untouched_def chunk_writes_def Let_def dest: fail_Finished
      split: option.splits if_splits)

fun receive_event :: "event \<Rightarrow> bool" where
  "receive_event (Notify _) \<longleftrightarrow> True"
| "receive_event Worker_take \<longleftrightarrow> True"
| "receive_event (Worker_written _) \<longleftrightarrow> True"
| "receive_event Worker_cancel \<longleftrightarrow> True"
| "receive_event _ \<longleftrightarrow> False"

lemma receive_untouched:
  assumes "receive_event e" and "link_step e l = Some l'"
  shows "sender_untouched l l'"
proof (cases e)
  case (Notify d)
  show ?thesis
  proof (cases "length (notification_queue l) < NOTIFICATION_QUEUE_SIZE")
    case True
    then show ?thesis using Notify assms
      by (auto simp: notification_received_def sender_untouched_def chunk_writes_def)
  next
    case False
    then show ?thesis using Notify assms sender_untouched_fail
      by (auto simp: notification_received_def)
  qed
next
  case Worker_cancel
  then show ?thesis using assms
    by (auto simp: worker_cancel_def sender_untouched_def chunk_writes_def split: if_splits)
qed (use assms worker_take_untouched worker_written_untouched in auto)

text \<open>The sending task: the effect of each of its turns on the rest of the link.\<close>

lemma release_waiter_simps [simp]:
  "notification_queue (release_waiter a l) = notification_queue l"
  "response_queue (release_waiter a l) = response_queue l" "futures (release_waiter a l) = futures l"
  "link_assembler (release_waiter a l) = link_assembler l" "worker (release_waiter a l) = worker l"
  "tx_sequence (release_waiter a l) = tx_sequence l" "sender (release_waiter a l) = sender l"
  "writes (release_waiter a l) = writes l" "processed (release_waiter a l) = processed l"
  by (simp_all add: release_waiter_def Let_def)

lemma release_own_waiter:
  "ack_waiters l = [(chunk_sequence (at_chunk a), at_waiter a)] \<Longrightarrow> ack_waiters (release_waiter a l) = []"
  by (simp add: release_waiter_def)

lemma finish_simps [simp]:
  "notification_queue (finish r l) = notification_queue l"
  "response_queue (finish r l) = response_queue l" "futures (finish r l) = futures l"
  "ack_waiters (finish r l) = ack_waiters l"
  "link_assembler (finish r l) = link_assembler l" "worker (finish r l) = worker l"
  "tx_sequence (finish r l) = tx_sequence l" "sender (finish r l) = Sender_done r"
  "writes (finish r l) = writes l" "processed (finish r l) = processed l"
  by (simp_all add: finish_def)

lemma begin_attempt_simps [simp]:
  "notification_queue (begin_attempt c cs n m l) = notification_queue l"
  "response_queue (begin_attempt c cs n m l) = response_queue l"
  "futures (begin_attempt c cs n m l) = futures l @ [Pending]"
  "ack_waiters (begin_attempt c cs n m l) =
     AList.update (chunk_sequence c) (length (futures l)) (ack_waiters l)"
  "link_assembler (begin_attempt c cs n m l) = link_assembler l"
  "worker (begin_attempt c cs n m l) = worker l"
  "tx_sequence (begin_attempt c cs n m l) = tx_sequence l"
  "sender (begin_attempt c cs n m l) = Sender_writing \<lparr>at_waiter = length (futures l), at_chunk = c,
     at_rest = cs, at_attempt = n, at_attempts = m\<rparr>"
  "writes (begin_attempt c cs n m l) = writes l @ [Chunk_write c]"
  "processed (begin_attempt c cs n m l) = processed l"
  by (simp_all add: begin_attempt_def Let_def)

lemma begin_attempt_chunk_writes [simp]:
  "chunk_writes (begin_attempt c cs n m l) = chunk_writes l @ [c]"
  by (simp add: chunk_writes_def)

lemma chunk_writes_simps [simp]:
  "chunk_writes (finish r l) = chunk_writes l" "chunk_writes (release_waiter a l) = chunk_writes l"
  by (simp_all add: chunk_writes_def)

text \<open>The receiving half of the link: what the sender's turns never change, except that the
  response it takes leaves the queue.\<close>

lemma attempt_failed_receive [simp]:
  "notification_queue (attempt_failed e a l) = notification_queue l"
  "response_queue (attempt_failed e a l) = response_queue l"
  "link_assembler (attempt_failed e a l) = link_assembler l"
  "worker (attempt_failed e a l) = worker l" "processed (attempt_failed e a l) = processed l"
  "tx_sequence (attempt_failed e a l) = tx_sequence l"
  by (simp_all add: attempt_failed_def Let_def)

lemma next_chunk_receive [simp]:
  "notification_queue (next_chunk cs n l) = notification_queue l"
  "response_queue (next_chunk cs n l) = response_queue l"
  "link_assembler (next_chunk cs n l) = link_assembler l"
  "worker (next_chunk cs n l) = worker l" "processed (next_chunk cs n l) = processed l"
  "tx_sequence (next_chunk cs n l) = tx_sequence l"
  by (cases cs; simp)+

lemma chunk_acknowledged_receive [simp]:
  "notification_queue (chunk_acknowledged a l) = notification_queue l"
  "response_queue (chunk_acknowledged a l) = response_queue l"
  "link_assembler (chunk_acknowledged a l) = link_assembler l"
  "worker (chunk_acknowledged a l) = worker l" "processed (chunk_acknowledged a l) = processed l"
  by (simp_all add: chunk_acknowledged_def Let_def split: sum.splits)

subsection \<open>The invariant of a session\<close>

fun in_flight :: "sender \<Rightarrow> attempt option" where
  "in_flight (Sender_writing a) = Some a"
| "in_flight (Sender_acking a) = Some a"
| "in_flight _ = None"

primrec numbered :: "int \<Rightarrow> bytes list \<Rightarrow> bool" where
  "numbered s [] \<longleftrightarrow> True"
| "numbered s (c # cs) \<longleftrightarrow> chunk_sequence c = s \<and> numbered (succ_sequence s) cs"

text \<open>
  While a chunk is in flight its waiter is the only one, and its sequence number is the next one
  to be used; between chunks there is no waiter.
\<close>

definition sender_inv :: "link \<Rightarrow> bool" where
  "sender_inv l \<longleftrightarrow>
     valid_sequence (tx_sequence l) \<and>
     (case in_flight (sender l) of
        None \<Rightarrow> ack_waiters l = []
      | Some a \<Rightarrow>
          ack_waiters l = [(chunk_sequence (at_chunk a), at_waiter a)] \<and>
          at_waiter a < length (futures l) \<and>
          numbered (tx_sequence l) (at_chunk a # at_rest a) \<and> at_attempt a < at_attempts a)"

definition asm_new :: assembler where
  "asm_new = \<lparr>asm_expected_sequence = 1, asm_buffer = []\<rparr>"

text \<open>
  The worker refines the assembler: its state is that of an assembler fed everything processed,
  and all messages on their way to the sender are among those such an assembler delivers.
\<close>

definition messages_under_way :: "link \<Rightarrow> bytes set" where
  "messages_under_way l =
     {m. Inr m \<in> set (response_queue l) \<or> worker l = Worker_writing (Some m) \<or>
         sender l = Sender_done (Inr m)}"

definition receiver_inv :: "link \<Rightarrow> bool" where
  "receiver_inv l \<longleftrightarrow>
     length (notification_queue l) \<le> NOTIFICATION_QUEUE_SIZE \<and>
     length (response_queue l) \<le> RESPONSE_QUEUE_SIZE \<and>
     link_assembler l = snd (assembler_feed asm_new (processed l)) \<and>
     messages_under_way l \<subseteq> set (fst (assembler_feed asm_new (processed l)))"

lemma numbered_chunks_of: "valid_sequence s \<Longrightarrow> numbered s (chunks_of rest s)"
proof (induction rest s rule: chunks_of.induct)
  case (1 rest s)
  then show ?case
  proof (cases "rest = []")
    case False
    then show ?thesis using 1 chunk_flags(1) [of s "length rest \<le> MAX_BLE_PAYLOAD"] valid_succ_sequence
      by (simp add: chunks_of.simps [of rest s] chunk_sequence_def raw_chunk_def)
  qed simp
qed

lemma sender_inv_untouched: "sender_untouched l l' \<Longrightarrow> sender_inv l \<Longrightarrow> sender_inv l'"
  by (simp add: sender_untouched_def sender_inv_def split: option.splits)

lemma sender_inv_futures:
  "sender_inv l \<Longrightarrow> length fs = length (futures l) \<Longrightarrow> sender_inv (l\<lparr>futures := fs\<rparr>)"
  by (simp add: sender_inv_def split: option.splits)

lemma sender_inv_written: "sender_inv l \<Longrightarrow> sender l = Sender_writing a \<Longrightarrow> sender_inv (l\<lparr>sender := Sender_acking a\<rparr>)"
  by (simp add: sender_inv_def)

text \<open>A failed attempt ends the call with an exception or is made once more.\<close>

lemma attempt_failed_cases:
  assumes "sender_inv l" and "in_flight (sender l) = Some a"
  obtains (raised) x where "attempt_failed e a l = finish (Inl x) (release_waiter a l)"
      "ack_waiters (release_waiter a l) = []"
    | (again) "at_attempt a + 1 < at_attempts a" "ack_waiters (release_waiter a l) = []"
      "attempt_failed e a l =
         begin_attempt (at_chunk a) (at_rest a) (at_attempt a + 1) (at_attempts a) (release_waiter a l)"
proof -
  from assms have w: "ack_waiters (release_waiter a l) = []" and lt: "at_attempt a < at_attempts a"
    by (simp_all add: sender_inv_def release_own_waiter)
  show ?thesis
  proof (cases "isinstance_exc e [TimeoutError_class] \<and> at_attempt a + 1 \<noteq> at_attempts a")
    case True
    then show ?thesis using again w lt by (simp add: attempt_failed_def)
  next
    case False
    then obtain x where "attempt_failed e a l = finish (Inl x) (release_waiter a l)"
      by (cases "isinstance_exc e [TimeoutError_class]") (auto simp: attempt_failed_def Let_def)
    then show ?thesis using raised w by blast
  qed
qed

lemma sender_inv_attempt_failed:
  assumes "sender_inv l" and "in_flight (sender l) = Some a"
  shows "sender_inv (attempt_failed e a l)"
  using assms
proof (cases rule: attempt_failed_cases [of l a e])
  case (raised x)
  then show ?thesis using assms by (simp add: sender_inv_def)
next
  case again
  then show ?thesis using assms by (simp add: sender_inv_def)
qed

lemma sender_inv_next_chunk:
  assumes "valid_sequence (tx_sequence l)" and "ack_waiters l = []" and "numbered (tx_sequence l) cs"
    and "0 < n"
  shows "sender_inv (next_chunk cs n l)"
  using assms by (cases cs) (simp_all add: sender_inv_def)

lemma chunk_acknowledged_eq:
  assumes "sender_inv l" and "sender l = Sender_acking a"
  shows "chunk_acknowledged a l = next_chunk (at_rest a) (at_attempts a)
      ((release_waiter a l)\<lparr>tx_sequence := succ_sequence (tx_sequence l)\<rparr>)"
    and "ack_waiters (release_waiter a l) = []"
  using assms by (simp_all add: sender_inv_def release_own_waiter chunk_acknowledged_def next_sequence_valid)

lemma sender_inv_acknowledged:
  assumes "sender_inv l" and "sender l = Sender_acking a"
  shows "sender_inv (chunk_acknowledged a l)"
  unfolding chunk_acknowledged_eq(1) [OF assms]
  using assms chunk_acknowledged_eq(2) [OF assms]
  by (intro sender_inv_next_chunk) (simp_all add: sender_inv_def valid_succ_sequence)

lemma cancelled_futures:
  "complete_future Cancelled w fs ! i = Finished \<longrightarrow> fs ! i = Finished"
  using complete_future_nth [of Cancelled w fs i] by auto

text \<open>The sending events, each by the turn it starts.\<close>

lemma sending_step_cases:
  assumes "link_step e l = Some l'" and "\<not> receive_event e"
  obtains (written) a where "sender l = Sender_writing a" "l' = l\<lparr>sender := Sender_acking a\<rparr>"
    | (failed) a x fs where "in_flight (sender l) = Some a" "length fs = length (futures l)"
        "\<forall>i. fs ! i = Finished \<longrightarrow> futures l ! i = Finished" "l' = attempt_failed x a (l\<lparr>futures := fs\<rparr>)"
    | (acked) a where "sender l = Sender_acking a" "futures l ! at_waiter a = Finished"
        "l' = chunk_acknowledged a l"
    | (response) r queue where "sender l = Sender_response" "response_queue l = r # queue"
        "l' = finish r (l\<lparr>response_queue := queue\<rparr>)"
    | (ended) x where "sender l = Sender_response" "l' = finish (Inl x) l"
proof (cases e)
  case (Sender_written r)
  then show ?thesis
    using assms written failed [of _ "futures l"]
    by (cases "sender l") (auto simp: sender_written_def split: option.splits)
next
  case Sender_wake
  then show ?thesis
    using assms acked failed [of _ "futures l"]
    by (cases "sender l") (auto simp: sender_wake_def split: future.splits)
next
  case Ack_timeout
  then obtain a where a: "sender l = Sender_acking a"
    using assms by (cases "sender l") (auto simp: ack_timeout_def)
  then show ?thesis
    using Ack_timeout assms
      failed [of a "complete_future Cancelled (at_waiter a) (futures l)" TimeoutError]
    by (simp add: ack_timeout_def cancelled_futures)
next
  case Take_response
  then show ?thesis using assms response
    by (cases "sender l"; cases "response_queue l") (auto simp: take_response_def)
next
  case Response_timeout
  then show ?thesis using assms ended by (cases "sender l") (auto simp: response_timeout_def)
next
  case Sender_cancel
  show ?thesis
  proof (cases "sender l")
    case (Sender_writing a)
    then show ?thesis using Sender_cancel assms failed [of a "futures l" CancelledError]
      by (simp add: sender_cancel_def)
  next
    case (Sender_acking a)
    then show ?thesis
      using Sender_cancel assms
        failed [of a "complete_future Cancelled (at_waiter a) (futures l)" CancelledError]
      by (simp add: sender_cancel_def cancelled_futures)
  qed (use Sender_cancel assms ended in \<open>auto simp: sender_cancel_def\<close>)
qed (use assms in auto)

lemma sender_inv_step:
  assumes "sender_inv l" and "link_step e l = Some l'"
  shows "sender_inv l'"
proof (cases "receive_event e")
  case True
  then show ?thesis using assms receive_untouched sender_inv_untouched by blast
next
  case False
  with assms(2) show ?thesis
  proof (cases rule: sending_step_cases)
    case (failed a x fs)
    have "sender_inv (l\<lparr>futures := fs\<rparr>)" using assms(1) failed(2) by (rule sender_inv_futures)
    then show ?thesis using failed by (simp add: sender_inv_attempt_failed)
  next
    case (acked a)
    then show ?thesis using assms(1) by (simp add: sender_inv_acknowledged)
  qed (use assms(1) in \<open>auto simp: sender_inv_written sender_inv_def\<close>)
qed

lemma sender_inv_send_frame:
  assumes "sender_inv l" and "in_flight (sender l) = None"
  shows "sender_inv (send_frame f r l)"
proof (cases "response_queue l = [] \<and> f \<noteq> []")
  case True
  have tx: "valid_sequence (tx_sequence l)" "ack_waiters l = []"
    using assms by (simp_all add: sender_inv_def)
  with True have "send_frame f r l = next_chunk (chunks_of f (tx_sequence l)) (if r then 2 else 1) l"
    by (simp add: send_frame_def chunk_for_ble_eq [THEN iffD2])
  moreover have "sender_inv (next_chunk (chunks_of f (tx_sequence l)) (if r then 2 else 1) l)"
    using tx by (intro sender_inv_next_chunk) (simp_all add: numbered_chunks_of)
  ultimately show ?thesis by simp
next
  case False
  then show ?thesis using assms
    by (auto simp: send_frame_def chunk_for_ble_def sender_inv_def)
qed

subsection \<open>The receiving half refines the assembler\<close>

lemma assembler_feed_snoc:
  "assembler_feed a (xs @ [d]) =
     (let (m, a1) = assembler_feed a xs; (r, a2) = assembler_add a1 d in (m @ delivered r, a2))"
  by (simp add: assembler_feed_append Let_def split: prod.splits)

lemma receiver_inv_fail:
  assumes "receiver_inv l"
  shows "receiver_inv (fail e l)"
proof -
  have "messages_under_way (fail e l) = messages_under_way l"
    by (auto simp: messages_under_way_def fail_response_queue)
  then show ?thesis using assms by (auto simp: receiver_inv_def fail_response_queue RESPONSE_QUEUE_SIZE_def)
qed

lemma assembler_add_rejected:
  "parse_ble_chunk d = Inl e \<Longrightarrow> assembler_add a d = (Inl e, a)"
  "parse_ble_chunk d = Inr c \<Longrightarrow> ch_for_bluetooth_layer c \<Longrightarrow>
     \<exists>e. assembler_add a d = (Inl e, a)"
  by (simp_all add: assembler_add_def)

lemma receiver_inv_processed:
  assumes "receiver_inv l" and "length q \<le> NOTIFICATION_QUEUE_SIZE"
    and "assembler_add (link_assembler l) d = (r, a)"
    and "\<And>m. w = Worker_writing (Some m) \<Longrightarrow> worker l = Worker_writing (Some m) \<or> m \<in> set (delivered r)"
  shows "receiver_inv (l\<lparr>notification_queue := q, processed := processed l @ [d], link_assembler := a,
    worker := w, writes := ws, futures := fs\<rparr>)"
  using assms
  by (auto simp: receiver_inv_def assembler_feed_snoc messages_under_way_def Let_def split: prod.splits)

lemma receiver_inv_worker_take:
  assumes "receiver_inv l" and "worker_take l = Some l'"
  shows "receiver_inv l'"
proof -
  from assms(2) obtain d q where w: "worker l = Worker_waiting" and nq: "notification_queue l = d # q"
    and l': "l' = worker_process d (l\<lparr>notification_queue := q, processed := processed l @ [d]\<rparr>)"
    by (auto simp: worker_take_def split: worker.splits list.splits)
  have q: "length q \<le> NOTIFICATION_QUEUE_SIZE" using assms(1) nq by (simp add: receiver_inv_def)
  obtain r a where add: "assembler_add (link_assembler l) d = (r, a)" by fastforce
  note inv = receiver_inv_processed [OF assms(1) q add]
  have base: "receiver_inv (l\<lparr>notification_queue := q, processed := processed l @ [d], link_assembler := a,
      futures := fs\<rparr>)" for fs
    using inv [where w = Worker_waiting and ws = "writes l" and fs = fs] w by (cases l) simp
  consider (bad) e where "parse_ble_chunk d = Inl e"
    | (control) c where "parse_ble_chunk d = Inr c" "ch_for_bluetooth_layer c"
    | (data) c where "parse_ble_chunk d = Inr c" "\<not> ch_for_bluetooth_layer c"
    by (cases "parse_ble_chunk d") auto
  then show ?thesis
  proof cases
    case bad
    then have "a = link_assembler l" using add assembler_add_rejected(1) by auto
    then show ?thesis unfolding l' using bad base [of "futures l"]
      by (simp add: worker_process_def receiver_inv_fail)
  next
    case control
    then have a: "a = link_assembler l"
      using add assembler_add_rejected(2) [OF control, of "link_assembler l"] by auto
    show ?thesis
    proof (cases "parse_ble_ack d")
      case (Inl e)
      then show ?thesis unfolding l' using control base [of "futures l"] a
        by (simp add: worker_process_def receiver_inv_fail)
    next
      case (Inr s)
      then show ?thesis unfolding l' using control base [of "futures l"] a
        base [of "complete_future Finished i (futures l)" for i]
        by (simp add: worker_process_def acknowledge_def split: option.splits)
    qed
  next
    case data
    show ?thesis
    proof (cases r)
      case (Inl e)
      then show ?thesis unfolding l' using data add base [of "futures l"]
        by (simp add: worker_process_def receiver_inv_fail)
    next
      case (Inr sm)
      obtain s msg where sm: "sm = (s, msg)" by fastforce
      have msg: "msg = Some m \<Longrightarrow> m \<in> set (delivered r)" for m using Inr sm by simp
      show ?thesis
      proof (cases "make_ble_ack s")
        case (Inl e)
        then show ?thesis unfolding l' using data add Inr sm base [of "futures l"] \<open>r = Inr sm\<close>
          by (simp add: worker_process_def receiver_inv_fail)
      next
        case (Inr ack)
        then show ?thesis unfolding l' using data add \<open>r = Inr sm\<close> sm msg
            inv [where w = "Worker_writing msg" and ws = "writes l @ [Ack_write ack]" and fs = "futures l"]
          by (simp add: worker_process_def)
      qed
    qed
  qed
qed

lemma receiver_inv_worker_written:
  assumes "receiver_inv l" and "worker_written r l = Some l'"
  shows "receiver_inv l'"
proof -
  from assms(2) obtain msg where w: "worker l = Worker_writing msg"
    by (auto simp: worker_written_def split: worker.splits)
  have idle: "receiver_inv (l\<lparr>worker := Worker_waiting\<rparr>)"
    and stopped: "receiver_inv (l\<lparr>worker := Worker_stopped\<rparr>)"
    using assms(1) by (auto simp: receiver_inv_def messages_under_way_def)
  have queued: "receiver_inv (l\<lparr>worker := Worker_waiting, response_queue := response_queue l @ [Inr m]\<rparr>)"
    if "msg = Some m" "length (response_queue l) < RESPONSE_QUEUE_SIZE" for m
    using assms(1) w that by (auto simp: receiver_inv_def messages_under_way_def)
  show ?thesis
    using assms(2) w idle stopped queued
    by (auto simp: worker_written_def Let_def receiver_inv_fail split: option.splits if_splits)
qed

lemma attempt_failed_result:
  "sender (attempt_failed e a l) \<noteq> Sender_done (Inr m)"
  by (simp add: attempt_failed_def Let_def)

lemma next_chunk_result: "sender (next_chunk cs n l) \<noteq> Sender_done r"
  by (cases cs) simp_all

lemma chunk_acknowledged_result: "sender (chunk_acknowledged a l) \<noteq> Sender_done (Inr m)"
  by (simp add: chunk_acknowledged_def Let_def next_chunk_result split: sum.splits)

text \<open>A turn of the sender that leaves the receiving half alone and delivers nothing.\<close>

lemma receiver_inv_same:
  assumes "receiver_inv l" and "notification_queue l' = notification_queue l"
    and "response_queue l' = response_queue l" and "link_assembler l' = link_assembler l"
    and "processed l' = processed l" and "worker l' = worker l"
    and "\<And>m. sender l' \<noteq> Sender_done (Inr m)"
  shows "receiver_inv l'"
  using assms by (auto simp: receiver_inv_def messages_under_way_def)

lemma receiver_inv_step:
  assumes "receiver_inv l" and "link_step e l = Some l'"
  shows "receiver_inv l'"
proof (cases "receive_event e")
  case True
  then show ?thesis
  proof (cases e)
    case (Notify d)
    show ?thesis
    proof (cases "length (notification_queue l) < NOTIFICATION_QUEUE_SIZE")
      case True
      then have "l' = l\<lparr>notification_queue := notification_queue l @ [d]\<rparr>"
        using Notify assms(2) by (simp add: notification_received_def)
      then show ?thesis using True assms(1) by (simp add: receiver_inv_def messages_under_way_def)
    next
      case False
      then show ?thesis using Notify assms receiver_inv_fail by (auto simp: notification_received_def)
    qed
  next
    case Worker_cancel
    then show ?thesis using assms
      by (auto simp: worker_cancel_def receiver_inv_def messages_under_way_def split: if_splits)
  next
    case Worker_take
    then show ?thesis using assms by (simp add: receiver_inv_worker_take)
  next
    case (Worker_written r)
    then show ?thesis using assms by (simp add: receiver_inv_worker_written)
  qed simp_all
next
  case False
  with assms(2) show ?thesis
  proof (cases rule: sending_step_cases)
    case (written a)
    show ?thesis unfolding written(2) by (rule receiver_inv_same [OF assms(1)]) simp_all
  next
    case (failed a x fs)
    show ?thesis unfolding failed(4)
      by (rule receiver_inv_same [OF assms(1)]) (simp_all add: attempt_failed_result)
  next
    case (acked a)
    show ?thesis unfolding acked(3)
      by (rule receiver_inv_same [OF assms(1)]) (simp_all add: chunk_acknowledged_result)
  next
    case (response r queue)
    then show ?thesis using assms(1) by (auto simp: receiver_inv_def messages_under_way_def)
  next
    case (ended x)
    show ?thesis unfolding ended(2) by (rule receiver_inv_same [OF assms(1)]) simp_all
  qed
qed

lemma receiver_inv_send_frame:
  "receiver_inv l \<Longrightarrow> receiver_inv (send_frame f r l)"
  by (erule receiver_inv_same) (auto simp: send_frame_def next_chunk_result split: sum.splits)

definition link_inv :: "link \<Rightarrow> bool" where
  "link_inv l \<longleftrightarrow> sender_inv l \<and> receiver_inv l"

lemma link_inv_new: "link_inv link_new"
  by (simp add: link_inv_def sender_inv_def receiver_inv_def link_new_def asm_new_def valid_sequence_def
      MAX_SEQUENCE_def messages_under_way_def)

lemma link_inv_step: "link_inv l \<Longrightarrow> link_step e l = Some l' \<Longrightarrow> link_inv l'"
  using sender_inv_step receiver_inv_step unfolding link_inv_def by blast

lemma link_inv_send_frame:
  "link_inv l \<Longrightarrow> in_flight (sender l) = None \<Longrightarrow> link_inv (send_frame f r l)"
  using sender_inv_send_frame receiver_inv_send_frame unfolding link_inv_def by blast

lemma link_inv_return: "link_inv l \<Longrightarrow> sender l = Sender_done res \<Longrightarrow> link_inv (l\<lparr>sender := Sender_idle\<rparr>)"
  by (auto simp: link_inv_def sender_inv_def receiver_inv_def messages_under_way_def)

lemma session_run_inv: "session_run l \<Longrightarrow> link_inv l"
  by (induction rule: session_run.induct)
    (auto intro: link_inv_new link_inv_step link_inv_send_frame link_inv_return)

end
