(* ===== verification/Send_Frame.thy ===== *)
theory Send_Frame
  imports Link
begin

text \<open>
  What one call of \<open>_send_frame\<close> (\<open>tilt/ble.py\<close>) puts on the air, however the three tasks of
  \<open>Link\<close> interleave: how often each chunk is written, what must have been acknowledged before
  the next one is, and that the call ends.

  \<open>exchange\<close> is the call as a function of the schedule of the environment; it is the link the
  session layer runs on.
\<close>

subsection \<open>Transmissions\<close>

text \<open>Each chunk at least once and at most \<open>n\<close> times in a row.\<close>

inductive transmits :: "nat \<Rightarrow> bytes list \<Rightarrow> bytes list \<Rightarrow> bool" where
  transmits_Nil: "transmits n [] []"
| transmits_snoc: "transmits n cs ws \<Longrightarrow> 1 \<le> m \<Longrightarrow> m \<le> n \<Longrightarrow>
    transmits n (cs @ [c]) (ws @ replicate m c)"

lemma transmits_once: "transmits (Suc 0) cs ws \<Longrightarrow> ws = cs"
proof (induction "Suc 0" cs ws rule: transmits.induct)
  case (transmits_snoc cs ws m c)
  then have "m = Suc 0" by simp
  then show ?case using transmits_snoc.hyps(2) by simp
qed simp

text \<open>
  \<open>partly_sent chunks n sent k\<close>: the first \<open>k\<close> chunks have been transmitted, the next one has
  been written at most \<open>n\<close> times, and nothing after it.
\<close>

definition partly_sent :: "bytes list \<Rightarrow> nat \<Rightarrow> bytes list \<Rightarrow> nat \<Rightarrow> bool" where
  "partly_sent chunks n sent k \<longleftrightarrow>
     (\<exists>ws m. transmits n (take k chunks) ws \<and> k \<le> length chunks \<and> m \<le> n \<and>
        sent = ws @ (if k < length chunks then replicate m (chunks ! k) else []))"

lemma partly_sent_once:
  assumes "partly_sent chunks (Suc 0) sent k"
  shows "prefix sent chunks"
proof -
  from assms obtain m where m: "m \<le> 1" "k \<le> length chunks"
    and s: "sent = take k chunks @ (if k < length chunks then replicate m (chunks ! k) else [])"
    by (auto simp: partly_sent_def dest: transmits_once)
  show ?thesis
  proof (cases "k < length chunks \<and> m = 1")
    case True
    then have "sent = take (Suc k) chunks" using s by (simp add: take_Suc_conv_app_nth)
    then show ?thesis by (simp add: take_is_prefix)
  next
    case False
    then have "sent = take k chunks" using s m by auto
    then show ?thesis by (simp add: take_is_prefix)
  qed
qed

subsection \<open>The invariant of a call\<close>

definition sequences :: "bytes list \<Rightarrow> int set" where
  "sequences cs = chunk_sequence ` set cs"

text \<open>
  For a call that started with \<open>base\<close> chunks written and \<open>p\<close> notifications processed: where the
  sender stands, what it has written since, and that every chunk it is past was acknowledged by
  a notification processed since.
\<close>

definition in_flight_ok :: "bytes list \<Rightarrow> bytes list \<Rightarrow> nat \<Rightarrow> nat \<Rightarrow> link \<Rightarrow> attempt \<Rightarrow> bool" where
  "in_flight_ok chunks base n p l a \<longleftrightarrow>
     (\<exists>ws past. chunks = past @ at_chunk a # at_rest a \<and> transmits n past ws \<and> at_attempts a = n \<and>
        chunk_writes l = base @ ws @ replicate (Suc (at_attempt a)) (at_chunk a) \<and>
        sequences past \<subseteq> acked (drop p (processed l)) \<and>
        (futures l ! at_waiter a = Finished \<longrightarrow>
           chunk_sequence (at_chunk a) \<in> acked (drop p (processed l))))"

definition all_sent :: "bytes list \<Rightarrow> bytes list \<Rightarrow> nat \<Rightarrow> nat \<Rightarrow> link \<Rightarrow> bool" where
  "all_sent chunks base n p l \<longleftrightarrow>
     (\<exists>ws. transmits n chunks ws \<and> chunk_writes l = base @ ws) \<and>
     sequences chunks \<subseteq> acked (drop p (processed l))"

definition stopped_at :: "bytes list \<Rightarrow> bytes list \<Rightarrow> nat \<Rightarrow> nat \<Rightarrow> link \<Rightarrow> bool" where
  "stopped_at chunks base n p l \<longleftrightarrow>
     (\<exists>k ws. partly_sent chunks n ws k \<and> chunk_writes l = base @ ws \<and>
        sequences (take k chunks) \<subseteq> acked (drop p (processed l)))"

definition sending :: "bytes list \<Rightarrow> bytes list \<Rightarrow> nat \<Rightarrow> nat \<Rightarrow> link \<Rightarrow> bool" where
  "sending chunks base n p l \<longleftrightarrow>
     p \<le> length (processed l) \<and>
     (case sender l of
        Sender_idle \<Rightarrow> False
      | Sender_writing a \<Rightarrow> in_flight_ok chunks base n p l a
      | Sender_acking a \<Rightarrow> in_flight_ok chunks base n p l a
      | Sender_response \<Rightarrow> all_sent chunks base n p l
      | Sender_done (Inr _) \<Rightarrow> all_sent chunks base n p l
      | Sender_done (Inl _) \<Rightarrow> stopped_at chunks base n p l)"

lemma acked_drop:
  assumes "prefix xs ys" and "p \<le> length xs"
  shows "acked (drop p ys) = acked (drop p xs) \<union> acked (drop (length xs) ys)"
  using assms by (auto elim!: prefixE simp: acked_append)

lemma in_flight_sending:
  "in_flight (sender l) = Some a \<Longrightarrow>
     sending chunks base n p l \<longleftrightarrow> p \<le> length (processed l) \<and> in_flight_ok chunks base n p l a"
  by (cases "sender l") (auto simp: sending_def)

lemma sending_untouched:
  assumes "sending chunks base n p l" and "sender_inv l" and "sender_untouched l l'"
  shows "sending chunks base n p l'"
proof -
  let ?new = "acked (drop (length (processed l)) (processed l'))"
  from assms have p: "p \<le> length (processed l)" and pre: "prefix (processed l) (processed l')"
    by (auto simp: sending_def sender_untouched_def)
  then have p': "p \<le> length (processed l')" by (meson order_trans prefix_length_le)
  note ack = acked_drop [OF pre p]
  have same: "sender l' = sender l" "chunk_writes l' = chunk_writes l"
    using assms(3) by (simp_all add: sender_untouched_def)
  have fin: "futures l ! at_waiter a = Finished \<or> chunk_sequence (at_chunk a) \<in> ?new"
    if "in_flight (sender l) = Some a" "futures l' ! at_waiter a = Finished" for a
    using assms(2,3) that by (auto simp: sender_inv_def sender_untouched_def split: if_splits)
  have "in_flight_ok chunks base n p l' a"
    if "in_flight (sender l) = Some a" "in_flight_ok chunks base n p l a" for a
    using that fin [OF that(1)] unfolding in_flight_ok_def ack same by blast
  moreover have "all_sent chunks base n p l \<Longrightarrow> all_sent chunks base n p l'"
    and "stopped_at chunks base n p l \<Longrightarrow> stopped_at chunks base n p l'"
    unfolding all_sent_def stopped_at_def ack same by blast+
  ultimately show ?thesis
    using assms(1) p' same by (cases "sender l") (auto simp: sending_def split: sum.splits)
qed

lemma sequences_simps [simp]:
  "sequences [] = {}" "sequences (xs @ ys) = sequences xs \<union> sequences ys"
  "sequences (c # cs) = insert (chunk_sequence c) (sequences cs)"
  by (auto simp: sequences_def)

lemma in_flight_stopped:
  assumes "in_flight_ok chunks base n p l a" and "at_attempt a < at_attempts a"
  shows "stopped_at chunks base n p l"
proof -
  from assms obtain ws past where h: "chunks = past @ at_chunk a # at_rest a" "transmits n past ws"
      "at_attempts a = n" "chunk_writes l = base @ ws @ replicate (Suc (at_attempt a)) (at_chunk a)"
      "sequences past \<subseteq> acked (drop p (processed l))"
    unfolding in_flight_ok_def by blast
  then have "partly_sent chunks n (ws @ replicate (Suc (at_attempt a)) (at_chunk a)) (length past)"
    unfolding partly_sent_def using assms(2)
    by (intro exI [of _ ws] exI [of _ "Suc (at_attempt a)"]) simp
  then show ?thesis unfolding stopped_at_def using h
    by (intro exI [of _ "length past"] exI [of _ "ws @ replicate (Suc (at_attempt a)) (at_chunk a)"]) simp
qed

lemma all_sent_stopped: "all_sent chunks base n p l \<Longrightarrow> stopped_at chunks base n p l"
  unfolding all_sent_def stopped_at_def partly_sent_def
  by (elim conjE exE) (intro exI [of _ "length chunks"], auto)

lemma sending_finish:
  assumes "all_sent chunks base n p l" and "p \<le> length (processed l)"
    and "chunk_writes l' = chunk_writes l" and "processed l' = processed l"
  shows "sending chunks base n p (finish r l')"
  using assms all_sent_stopped [OF assms(1)]
  by (auto simp: sending_def all_sent_def stopped_at_def split: sum.splits)

lemma sending_attempt_failed:
  assumes "sending chunks base n p l" and "sender_inv l" and "in_flight (sender l) = Some a"
  shows "sending chunks base n p (attempt_failed x a l)"
proof -
  from assms have fl: "in_flight_ok chunks base n p l a" and p: "p \<le> length (processed l)"
    and lt: "at_attempt a < at_attempts a"
    by (auto simp: in_flight_sending sender_inv_def)
  from assms(2,3) show ?thesis
  proof (cases rule: attempt_failed_cases [of l a x])
    case (raised y)
    then show ?thesis using in_flight_stopped [OF fl lt] p by (simp add: sending_def stopped_at_def)
  next
    case again
    from fl obtain ws past where "chunks = past @ at_chunk a # at_rest a" "transmits n past ws"
        "at_attempts a = n" "chunk_writes l = base @ ws @ replicate (Suc (at_attempt a)) (at_chunk a)"
        "sequences past \<subseteq> acked (drop p (processed l))"
      unfolding in_flight_ok_def by blast
    then show ?thesis using again p
      by (simp add: sending_def in_flight_ok_def replicate_append_same [symmetric])
  qed
qed

lemma sending_acknowledged:
  assumes "sending chunks base n p l" and "sender_inv l" and a: "sender l = Sender_acking a"
    and "futures l ! at_waiter a = Finished"
  shows "sending chunks base n p (chunk_acknowledged a l)"
proof -
  from assms have fl: "in_flight_ok chunks base n p l a" and p: "p \<le> length (processed l)"
    and lt: "at_attempt a < at_attempts a"
    by (auto simp: sending_def sender_inv_def)
  from fl assms(4) obtain ws past where h: "chunks = past @ at_chunk a # at_rest a"
      "transmits n past ws" "at_attempts a = n"
      "chunk_writes l = base @ ws @ replicate (Suc (at_attempt a)) (at_chunk a)"
      "sequences (past @ [at_chunk a]) \<subseteq> acked (drop p (processed l))"
    unfolding in_flight_ok_def by auto
  let ?ws = "ws @ replicate (Suc (at_attempt a)) (at_chunk a)"
  let ?l = "(release_waiter a l)\<lparr>tx_sequence := succ_sequence (tx_sequence l)\<rparr>"
  have tr: "transmits n (past @ [at_chunk a]) ?ws" using h lt by (intro transmits_snoc) auto
  have w: "chunk_writes ?l = base @ ?ws" using h by (simp add: chunk_writes_def)
  have "sending chunks base n p (next_chunk (at_rest a) n ?l)"
  proof (cases "at_rest a")
    case Nil
    then have "all_sent chunks base n p l" unfolding all_sent_def using h tr by auto
    then show ?thesis using Nil p w by (simp add: sending_def all_sent_def chunk_writes_def)
  next
    case (Cons c cs)
    have "in_flight_ok chunks base n p (begin_attempt c cs 0 n ?l)
        \<lparr>at_waiter = length (futures l), at_chunk = c, at_rest = cs, at_attempt = 0, at_attempts = n\<rparr>"
      unfolding in_flight_ok_def
      by (intro exI [of _ ?ws] exI [of _ "past @ [at_chunk a]"]) (use h tr w Cons in simp)
    then show ?thesis using Cons p by (simp add: sending_def)
  qed
  then show ?thesis using chunk_acknowledged_eq(1) [OF assms(2) a] h by simp
qed

lemma sending_step:
  assumes "sending chunks base n p l" and "sender_inv l" and "link_step e l = Some l'"
  shows "sending chunks base n p l'"
proof (cases "receive_event e")
  case True
  then show ?thesis using assms receive_untouched sending_untouched by blast
next
  case False
  with assms(3) show ?thesis
  proof (cases rule: sending_step_cases)
    case (written a)
    then show ?thesis using assms(1) by (simp add: sending_def in_flight_ok_def chunk_writes_def)
  next
    case (failed a x fs)
    have "sending chunks base n p (l\<lparr>futures := fs\<rparr>)"
      using assms(1) failed(1,3) by (auto simp: in_flight_sending in_flight_ok_def chunk_writes_def)
    then show ?thesis using failed(1,2,4) assms(2) sender_inv_futures sending_attempt_failed by auto
  next
    case (acked a)
    then show ?thesis using sending_acknowledged assms by blast
  next
    case (response r queue)
    then show ?thesis using assms(1)
      by (auto simp: sending_def [of _ _ _ _ l] chunk_writes_def intro!: sending_finish)
  next
    case (ended x)
    then show ?thesis using assms(1) by (auto simp: sending_def [of _ _ _ _ l] intro!: sending_finish)
  qed
qed

subsection \<open>Starting and following a call\<close>

definition max_attempts :: "bool \<Rightarrow> nat" where
  "max_attempts retry_chunks = (if retry_chunks then 2 else 1)"

lemma send_frame_cases:
  assumes "sender_inv l"
  obtains (refused) e where "send_frame f r l = finish (Inl e) l"
    | (started) "f \<noteq> []" "response_queue l = []"
      "send_frame f r l = next_chunk (chunks_of f (tx_sequence l)) (max_attempts r) l"
proof (cases "response_queue l = [] \<and> f \<noteq> []")
  case True
  have "valid_sequence (tx_sequence l)" using assms by (simp add: sender_inv_def)
  with True show ?thesis
    by (intro started) (simp_all add: send_frame_def chunk_for_ble_eq [THEN iffD2] max_attempts_def)
next
  case False
  then have "\<exists>e. send_frame f r l = finish (Inl e) l"
    by (cases "response_queue l = []") (auto simp: send_frame_def chunk_for_ble_def)
  then show ?thesis using refused by blast
qed

lemma chunks_of_nonempty: "f \<noteq> [] \<Longrightarrow> chunks_of f s \<noteq> []"
  by (simp add: chunks_of.simps [of f s])

lemma sending_start:
  assumes "sender_inv l"
  shows "sending (chunks_of f (tx_sequence l)) (chunk_writes l) (max_attempts r) (length (processed l))
    (send_frame f r l)"
  using assms
proof (cases rule: send_frame_cases [of l f r])
  case (refused e)
  have "partly_sent (chunks_of f (tx_sequence l)) (max_attempts r) [] 0"
    unfolding partly_sent_def by (intro exI [of _ "[]"] exI [of _ 0]) (simp add: transmits_Nil)
  then have "stopped_at (chunks_of f (tx_sequence l)) (chunk_writes l) (max_attempts r)
      (length (processed l)) l"
    unfolding stopped_at_def by (intro exI [of _ 0] exI [of _ "[]"]) simp
  then show ?thesis unfolding refused by (simp add: sending_def stopped_at_def)
next
  case started
  obtain c cs where cs: "chunks_of f (tx_sequence l) = c # cs"
    using chunks_of_nonempty [OF started(1)] by (cases "chunks_of f (tx_sequence l)") auto
  show ?thesis unfolding started(3) cs
    by (auto simp: sending_def in_flight_ok_def intro: transmits_Nil)
qed

lemma link_run_sending:
  assumes "link_run l0 es l" and "sender_inv l0" and "sending chunks base n p l0"
  shows "sender_inv l \<and> sending chunks base n p l"
  using assms by (induction rule: link_run.induct) (auto intro: sender_inv_step sending_step)

subsection \<open>A call ends\<close>

text \<open>How many more turns the sender can take.\<close>

fun sender_measure :: "sender \<Rightarrow> nat" where
  "sender_measure (Sender_writing a) =
     2 * at_attempts a * length (at_rest a) + 2 * (at_attempts a - at_attempt a) + 1"
| "sender_measure (Sender_acking a) =
     2 * at_attempts a * length (at_rest a) + 2 * (at_attempts a - at_attempt a)"
| "sender_measure Sender_response = 1"
| "sender_measure _ = 0"

definition is_done :: "link \<Rightarrow> bool" where
  "is_done l \<longleftrightarrow> (case sender l of Sender_done _ \<Rightarrow> True | _ \<Rightarrow> False)"

lemma is_done_simps [simp]: "is_done (finish r l)"
  by (simp add: is_done_def)

lemma next_chunk_measure: "sender_measure (sender (next_chunk cs n l)) \<le> 2 * n * length cs + 1"
  by (cases cs) auto

lemma sender_measure_step:
  assumes "sender_inv l" and "link_step e l = Some l'" and "\<not> receive_event e"
  shows "sender_measure (sender l') < sender_measure (sender l)"
  using assms(2,3)
proof (cases rule: sending_step_cases)
  case (failed a x fs)
  have lt: "at_attempt a < at_attempts a" using assms(1) failed(1) by (auto simp: sender_inv_def)
  then have m: "sender_measure (sender l) \<ge>
      2 * at_attempts a * length (at_rest a) + 2 * (at_attempts a - at_attempt a)"
    using failed(1) by (cases "sender l") auto
  have inv: "sender_inv (l\<lparr>futures := fs\<rparr>)" using assms(1) failed(2) by (rule sender_inv_futures)
  have fl: "in_flight (sender (l\<lparr>futures := fs\<rparr>)) = Some a" using failed(1) by simp
  from inv fl show ?thesis
  proof (cases rule: attempt_failed_cases [of "l\<lparr>futures := fs\<rparr>" a x])
    case (raised y)
    then show ?thesis using failed(4) m lt by simp
  next
    case again
    then show ?thesis using failed(4) m lt by simp
  qed
next
  case (acked a)
  have lt: "at_attempt a < at_attempts a" using assms(1) acked(1) by (auto simp: sender_inv_def)
  have "sender_measure (sender l') \<le> 2 * at_attempts a * length (at_rest a) + 1"
    unfolding acked(3) chunk_acknowledged_eq(1) [OF assms(1) acked(1)] by (rule next_chunk_measure)
  then show ?thesis using lt acked(1) by simp
qed auto

lemma sender_measure_receive:
  "link_step e l = Some l' \<Longrightarrow> receive_event e \<Longrightarrow> sender_measure (sender l') = sender_measure (sender l)"
  using receive_untouched by (fastforce simp: sender_untouched_def)

lemma link_run_measure:
  assumes "link_run l0 es l" and "sender_inv l0"
  shows "sender_inv l \<and>
    sender_measure (sender l) + length (filter (\<lambda>e. \<not> receive_event e) es) \<le> sender_measure (sender l0)"
  using assms
proof (induction rule: link_run.induct)
  case (link_run_step l es l1 e l2)
  then show ?case
    using sender_measure_step [of l1 e l2] sender_measure_receive [of e l1 l2] sender_inv_step [of l1 e l2]
    by (cases "receive_event e") auto
qed simp

lemma send_frame_measure:
  assumes "sender_inv l"
  shows "sender_measure (sender (send_frame f r l)) \<le>
    2 * max_attempts r * length (chunks_of f (tx_sequence l)) + 1"
  using assms next_chunk_measure by (cases rule: send_frame_cases [of l f r]) auto

text \<open>
  In every position of a call some turn of the sender is possible without the peer: a write ends,
  or the timer of the acknowledgement or of the response fires.
\<close>

lemma sender_progress:
  assumes "sending chunks base n p l" and "\<not> is_done l"
  shows "\<exists>e \<in> {Sender_written None, Ack_timeout, Response_timeout}. link_step e l \<noteq> None"
  using assms
  by (cases "sender l")
    (auto simp: sending_def is_done_def sender_written_def ack_timeout_def response_timeout_def)

lemma is_done_step:
  assumes "link_step e l = Some l'" and "is_done l"
  shows "sender l' = sender l"
proof (cases "receive_event e")
  case True
  then show ?thesis using assms receive_untouched by (auto simp: sender_untouched_def)
next
  case False
  with assms(1) show ?thesis
    by (cases rule: sending_step_cases) (use assms(2) in \<open>auto simp: is_done_def split: sender.splits\<close>)
qed

subsection \<open>The call as a function of the environment's schedule\<close>

text \<open>
  \<open>drive\<close> runs scheduled events until the call has ended; an event that does not apply is
  skipped. When the schedule is exhausted the environment is silent: writes end and timers fire,
  which \<open>settle\<close> follows to the end; the measure is fuel enough.
\<close>

fun drive :: "event list \<Rightarrow> link \<Rightarrow> link \<times> event list" where
  "drive [] l = (l, [])"
| "drive (e # es) l =
     (if is_done l then (l, e # es)
      else drive es (case link_step e l of None \<Rightarrow> l | Some l' \<Rightarrow> l'))"

definition silent_event :: "link \<Rightarrow> event" where
  "silent_event l =
     (case sender l of
        Sender_writing a \<Rightarrow> Sender_written None
      | Sender_acking a \<Rightarrow> if futures l ! at_waiter a = Pending then Ack_timeout else Sender_wake
      | _ \<Rightarrow> if response_queue l = [] then Response_timeout else Take_response)"

fun settle :: "nat \<Rightarrow> link \<Rightarrow> link" where
  "settle 0 l = l"
| "settle (Suc n) l =
     (if is_done l then l
      else case link_step (silent_event l) l of None \<Rightarrow> l | Some l' \<Rightarrow> settle n l')"

type_synonym scheduled_link = "link \<times> event list"

definition exchange :: "bytes \<Rightarrow> bool \<Rightarrow> scheduled_link \<Rightarrow> (exc + bytes) \<times> scheduled_link" where
  "exchange frame retry_chunks s =
     (let (l1, rest) = drive (snd s) (send_frame frame retry_chunks (fst s));
          l2 = settle (sender_measure (sender l1)) l1
      in (case sender l2 of Sender_done r \<Rightarrow> r | _ \<Rightarrow> Inl CancelledError,
          (l2\<lparr>sender := Sender_idle\<rparr>, rest)))"

lemma link_run_Cons:
  assumes "link_step e l0 = Some l1" and "link_run l1 es l2"
  shows "link_run l0 (e # es) l2"
  using assms(2,1)
proof (induction rule: link_run.induct)
  case (link_run_refl l)
  then show ?case using link_run_step [OF link_run.link_run_refl [of l0], of e l] by simp
next
  case (link_run_step l es l1 e' l2)
  then show ?case using link_run.link_run_step [of l0 "e # es" l1 e' l2] by simp
qed

lemma drive_run: "\<exists>es'. link_run l es' (fst (drive es l))"
proof (induction es arbitrary: l)
  case Nil
  then show ?case by (auto intro: link_run_refl)
next
  case (Cons e es)
  show ?case
  proof (cases "is_done l \<or> link_step e l = None")
    case True
    then show ?thesis using Cons.IH link_run_refl by auto
  next
    case False
    then show ?thesis using Cons.IH link_run_Cons by fastforce
  qed
qed

lemma silent_event_enabled:
  assumes "sending chunks base n p l" and "\<not> is_done l"
  shows "link_step (silent_event l) l \<noteq> None" and "\<not> receive_event (silent_event l)"
  using assms
  by (cases "sender l"; auto simp: sending_def is_done_def silent_event_def sender_written_def
      ack_timeout_def sender_wake_def response_timeout_def take_response_def neq_Nil_conv
      split: future.splits)+

lemma settle_done:
  assumes "sender_inv l" and "sending chunks base n p l" and "sender_measure (sender l) \<le> k"
  shows "is_done (settle k l) \<and> sender_inv (settle k l) \<and> sending chunks base n p (settle k l) \<and>
    (receiver_inv l \<longrightarrow> receiver_inv (settle k l))"
  using assms
proof (induction k arbitrary: l)
  case 0
  have "is_done l"
    using 0 sender_measure_step [of l "silent_event l"] silent_event_enabled [of chunks base n p l] by fastforce
  then show ?case using 0 by simp
next
  case (Suc k)
  show ?case
  proof (cases "is_done l")
    case False
    then obtain l' where l': "link_step (silent_event l) l = Some l'"
      using silent_event_enabled [of chunks base n p l] Suc.prems by auto
    have "sender_measure (sender l') \<le> k"
      using sender_measure_step [OF Suc.prems(1) l'] silent_event_enabled(2) [of chunks base n p l]
        Suc.prems False by simp
    then show ?thesis
      using Suc.IH [of l'] Suc.prems sender_inv_step [OF _ l'] sending_step [OF _ _ l']
        receiver_inv_step [OF _ l'] l' False by simp
  qed (use Suc.prems in simp)
qed

lemma exchange_result:
  assumes "link_inv l" and "in_flight (sender l) = None" and "exchange f r (l, es) = (res, l', es')"
  obtains l2 where "sender l2 = Sender_done res" "l' = l2\<lparr>sender := Sender_idle\<rparr>" "link_inv l2"
    "sending (chunks_of f (tx_sequence l)) (chunk_writes l) (max_attempts r) (length (processed l)) l2"
proof -
  let ?s = "sending (chunks_of f (tx_sequence l)) (chunk_writes l) (max_attempts r) (length (processed l))"
  let ?l0 = "send_frame f r l"
  define l1 where "l1 = fst (drive es ?l0)"
  define l2 where "l2 = settle (sender_measure (sender l1)) l1"
  have inv: "link_inv ?l0" using assms by (simp add: link_inv_send_frame)
  have "?s ?l0" using assms by (intro sending_start) (simp add: link_inv_def)
  moreover obtain es0 where run: "link_run ?l0 es0 l1" using drive_run l1_def by blast
  ultimately have s1: "sender_inv l1" "?s l1" using link_run_sending inv unfolding link_inv_def by blast+
  have "receiver_inv ?l0" using inv by (simp add: link_inv_def)
  with run have "receiver_inv l1"
    by (induction rule: link_run.induct) (auto intro: receiver_inv_step)
  with s1 have l2: "is_done l2" "link_inv l2" "?s l2"
    using settle_done [OF s1 order_refl] by (auto simp: l2_def link_inv_def)
  then obtain x where x: "sender l2 = Sender_done x" by (auto simp: is_done_def split: sender.splits)
  have "res = x \<and> l' = l2\<lparr>sender := Sender_idle\<rparr>"
    using assms(3) x by (simp add: exchange_def l1_def l2_def split: prod.splits)
  with x l2 show ?thesis using that by blast
qed

text \<open>The link seen by the session layer: ready for a call, and its chunk writes so far.\<close>

definition link_ready :: "scheduled_link \<Rightarrow> bool" where
  "link_ready s \<longleftrightarrow> link_inv (fst s) \<and> sender (fst s) = Sender_idle"

definition on_air :: "scheduled_link \<Rightarrow> bytes list" where
  "on_air s = chunk_writes (fst s)"

definition frame_chunks :: "bytes \<Rightarrow> scheduled_link \<Rightarrow> bytes list" where
  "frame_chunks f s = chunks_of f (tx_sequence (fst s))"

lemma exchange_ready:
  assumes "link_ready s"
  shows "link_ready (snd (exchange f r s))"
proof -
  obtain l es where s: "s = (l, es)" by fastforce
  obtain res l' es' where ex: "exchange f r (l, es) = (res, l', es')" by (metis prod_cases3)
  from assms s have "link_inv l" "in_flight (sender l) = None" by (simp_all add: link_ready_def)
  from exchange_result [OF this ex] obtain l2 where "sender l2 = Sender_done res"
    "l' = l2\<lparr>sender := Sender_idle\<rparr>" "link_inv l2" by metis
  then have "link_inv l'" by (simp add: link_inv_return)
  with \<open>l' = _\<close> show ?thesis unfolding s ex by (simp add: link_ready_def)
qed

lemma exchange_air:
  assumes "link_ready s" and "exchange f r s = (res, s')"
  shows "\<exists>ws. on_air s' = on_air s @ ws \<and>
    (case res of Inr _ \<Rightarrow> transmits (max_attempts r) (frame_chunks f s) ws
     | Inl _ \<Rightarrow> \<exists>k. partly_sent (frame_chunks f s) (max_attempts r) ws k)"
proof -
  obtain l es l' es' where s: "s = (l, es)" "s' = (l', es')" by fastforce
  from assms s have "link_inv l" "in_flight (sender l) = None" "exchange f r (l, es) = (res, l', es')"
    by (simp_all add: link_ready_def)
  from exchange_result [OF this] obtain l2 where l2: "sender l2 = Sender_done res"
    "l' = l2\<lparr>sender := Sender_idle\<rparr>"
    "sending (chunks_of f (tx_sequence l)) (chunk_writes l) (max_attempts r) (length (processed l)) l2"
    by metis
  then show ?thesis
    by (auto simp: s on_air_def frame_chunks_def sending_def all_sent_def stopped_at_def
        chunk_writes_def split: sum.splits)
qed

lemma exchange_delivers:
  assumes "link_ready s" and "exchange f r s = (Inr m, s')"
  shows "m \<in> set (fst (assembler_feed asm_new (processed (fst s'))))"
proof -
  obtain l es l' es' where s: "s = (l, es)" "s' = (l', es')" by fastforce
  from assms s have "link_inv l" "in_flight (sender l) = None" "exchange f r (l, es) = (Inr m, l', es')"
    by (simp_all add: link_ready_def)
  from exchange_result [OF this] obtain l2 where "sender l2 = Sender_done (Inr m)"
    "l' = l2\<lparr>sender := Sender_idle\<rparr>" "link_inv l2" by metis
  then show ?thesis by (auto simp: s link_inv_def receiver_inv_def messages_under_way_def)
qed

subsection \<open>The interface of the link\<close>

text \<open>
  What the session layer relies on: a call keeps the link ready, only adds to what is on the air,
  and what a call without chunk retries adds is a prefix of the frame's chunks.
\<close>

locale frame_link =
  fixes send :: "bytes \<Rightarrow> bool \<Rightarrow> 'l \<Rightarrow> (exc + bytes) \<times> 'l"
    and ready :: "'l \<Rightarrow> bool"
    and air :: "'l \<Rightarrow> bytes list"
    and chunks_for :: "bytes \<Rightarrow> 'l \<Rightarrow> bytes list"
  assumes send_ready: "ready l \<Longrightarrow> ready (snd (send f r l))"
    and send_appends: "ready l \<Longrightarrow> prefix (air l) (air (snd (send f r l)))"
    and send_once: "ready l \<Longrightarrow>
      \<exists>ws. air (snd (send f False l)) = air l @ ws \<and> prefix ws (chunks_for f l)"

interpretation link: frame_link exchange link_ready on_air frame_chunks
proof unfold_locales
  fix l :: scheduled_link and f r
  assume ready: "link_ready l"
  show "link_ready (snd (exchange f r l))" using ready by (rule exchange_ready)
  show "prefix (on_air l) (on_air (snd (exchange f r l)))"
    using exchange_air [OF ready, of f r "fst (exchange f r l)" "snd (exchange f r l)"] by auto
  obtain ws where ws: "on_air (snd (exchange f False l)) = on_air l @ ws"
      "case fst (exchange f False l) of Inr _ \<Rightarrow> transmits (max_attempts False) (frame_chunks f l) ws
       | Inl _ \<Rightarrow> \<exists>k. partly_sent (frame_chunks f l) (max_attempts False) ws k"
    using exchange_air [OF ready, of f False "fst (exchange f False l)" "snd (exchange f False l)"] by auto
  then have "prefix ws (frame_chunks f l)"
    by (auto simp: max_attempts_def split: sum.splits dest: transmits_once partly_sent_once)
  with ws(1) show "\<exists>ws. on_air (snd (exchange f False l)) = on_air l @ ws \<and> prefix ws (frame_chunks f l)"
    by blast
qed

subsection \<open>A cooperative peer\<close>

text \<open>
  The schedule in which every write ends, the peer acknowledges each chunk and then sends the
  chunks of its response, and the tasks run in between.
\<close>

definition ack_for :: "bytes \<Rightarrow> bytes" where
  "ack_for chunk = projr (make_ble_ack (chunk_sequence chunk))"

definition chunk_turn :: "bytes \<Rightarrow> event list" where
  "chunk_turn chunk = [Sender_written None, Notify (ack_for chunk), Worker_take, Sender_wake]"

definition response_turn :: "bytes \<Rightarrow> event list" where
  "response_turn chunk = [Notify chunk, Worker_take, Worker_written None]"

definition cooperative :: "bytes list \<Rightarrow> bytes list \<Rightarrow> event list" where
  "cooperative chunks responses =
     concat (map chunk_turn chunks) @ concat (map response_turn responses) @ [Take_response]"

text \<open>The receiving half is at rest and expects the peer's sequence number \<open>t\<close>.\<close>

definition at_rest_for :: "int \<Rightarrow> bytes \<Rightarrow> link \<Rightarrow> bool" where
  "at_rest_for t buffer l \<longleftrightarrow>
     notification_queue l = [] \<and> worker l = Worker_waiting \<and>
     link_assembler l = \<lparr>asm_expected_sequence = t, asm_buffer = buffer\<rparr>"

lemma ack_for_parses:
  assumes "valid_sequence (chunk_sequence c)"
  shows "parse_ble_ack (ack_for c) = Inr (chunk_sequence c)"
    and "\<exists>x. parse_ble_chunk (ack_for c) = Inr x \<and> ch_for_bluetooth_layer x"
proof -
  obtain a where a: "make_ble_ack (chunk_sequence c) = Inr a"
    using assms by (auto simp: make_ble_ack_def valid_sequence_def)
  then show p: "parse_ble_ack (ack_for c) = Inr (chunk_sequence c)"
    using parse_make_ble_ack [OF assms] by (simp add: ack_for_def)
  then show "\<exists>x. parse_ble_chunk (ack_for c) = Inr x \<and> ch_for_bluetooth_layer x"
    by (auto simp: parse_ble_ack_def rbind_eq_Inr split: if_split_asm)
qed

lemma drive_not_done:
  "\<not> is_done l \<Longrightarrow> link_step e l = Some l' \<Longrightarrow> drive (e # es) l = drive es l'"
  by simp

lemma drive_chunk_turn:
  assumes l: "valid_sequence (tx_sequence l)" "ack_waiters l = []" "chunk_sequence c = tx_sequence l"
    and rest: "at_rest_for t b l"
  shows "\<exists>l'. drive (chunk_turn c @ es) (next_chunk (c # cs) n l) = drive es (next_chunk cs n l') \<and>
    tx_sequence l' = succ_sequence (tx_sequence l) \<and> ack_waiters l' = [] \<and> at_rest_for t b l' \<and>
    response_queue l' = response_queue l"
proof -
  let ?w = "length (futures l)" and ?s = "tx_sequence l"
  let ?a = "\<lparr>at_waiter = ?w, at_chunk = c, at_rest = cs, at_attempt = 0, at_attempts = n\<rparr>"
  let ?l1 = "(begin_attempt c cs 0 n l)\<lparr>sender := Sender_acking ?a\<rparr>"
  let ?l2 = "?l1\<lparr>notification_queue := [ack_for c]\<rparr>"
  let ?l3 = "?l1\<lparr>processed := processed l @ [ack_for c], futures := futures l @ [Finished]\<rparr>"
  let ?l4 = "?l3\<lparr>ack_waiters := [], tx_sequence := succ_sequence ?s\<rparr>"
  have nq: "notification_queue l = []" and wk: "worker l = Worker_waiting"
    using rest by (simp_all add: at_rest_for_def)
  have "link_step (Sender_written None) (next_chunk (c # cs) n l) = Some ?l1"
    by (simp add: sender_written_def)
  moreover have "link_step (Notify (ack_for c)) ?l1 = Some ?l2"
    using nq by (simp add: notification_received_def NOTIFICATION_QUEUE_SIZE_def)
  moreover have "link_step Worker_take ?l2 = Some ?l3"
  proof -
    obtain x where "parse_ble_chunk (ack_for c) = Inr x" "ch_for_bluetooth_layer x"
      using ack_for_parses(2) [of c] l by auto
    then show ?thesis using ack_for_parses(1) [of c] l nq wk
      by (simp add: worker_take_def worker_process_def acknowledge_def complete_future_def
          begin_attempt_def Let_def)
  qed
  moreover have "link_step Sender_wake ?l3 = Some (next_chunk cs n ?l4)"
    using l by (simp add: sender_wake_def chunk_acknowledged_def release_waiter_def next_sequence_valid Let_def
        begin_attempt_def)
  ultimately have "drive (chunk_turn c @ es) (next_chunk (c # cs) n l) = drive es (next_chunk cs n ?l4)"
    by (simp add: chunk_turn_def is_done_def del: next_chunk.simps(2) link_step.simps)
       (simp add: is_done_def del: link_step.simps)
  then show ?thesis using rest by (intro exI [of _ ?l4]) (simp add: at_rest_for_def)
qed

lemma drive_chunks:
  assumes "valid_sequence (tx_sequence l)" and "ack_waiters l = []" and "numbered (tx_sequence l) cs"
    and "at_rest_for t b l"
  shows "\<exists>l'. drive (concat (map chunk_turn cs) @ es) (next_chunk cs n l) =
      drive es (l'\<lparr>sender := Sender_response\<rparr>) \<and>
    tx_sequence l' = (succ_sequence ^^ length cs) (tx_sequence l) \<and> ack_waiters l' = [] \<and>
    at_rest_for t b l' \<and> response_queue l' = response_queue l"
  using assms
proof (induction cs arbitrary: l)
  case Nil
  then show ?case by (intro exI [of _ l]) simp
next
  case (Cons c cs)
  have c: "chunk_sequence c = tx_sequence l" using Cons.prems(3) by simp
  obtain l1 where l1: "drive (chunk_turn c @ concat (map chunk_turn cs) @ es) (next_chunk (c # cs) n l) =
      drive (concat (map chunk_turn cs) @ es) (next_chunk cs n l1)"
    "tx_sequence l1 = succ_sequence (tx_sequence l)" "ack_waiters l1 = []" "at_rest_for t b l1"
    "response_queue l1 = response_queue l"
    using drive_chunk_turn [OF Cons.prems(1,2) c Cons.prems(4)] by blast
  have "valid_sequence (tx_sequence l1)" "numbered (tx_sequence l1) cs"
    using Cons.prems l1(2) valid_succ_sequence by simp_all
  from Cons.IH [OF this(1) l1(3) this(2) l1(4)] l1 show ?case
    by (auto simp: funpow_swap1)
qed

lemma drive_response_turn:
  assumes l: "sender l = Sender_response" "response_queue l = []"
    and rest: "at_rest_for t b l" and t: "valid_sequence t" "length p \<le> MAX_BLE_PAYLOAD"
  shows "\<exists>l'. drive (response_turn (raw_chunk t is_end p) @ es) l = drive es l' \<and>
    sender l' = Sender_response \<and> tx_sequence l' = tx_sequence l \<and> ack_waiters l' = ack_waiters l \<and>
    at_rest_for (succ_sequence t) (if is_end then [] else b @ p) l' \<and>
    response_queue l' = (if is_end then [Inr (b @ p)] else [])"
proof -
  let ?c = "raw_chunk t is_end p"
  let ?asm = "\<lparr>asm_expected_sequence = succ_sequence t, asm_buffer = if is_end then [] else b @ p\<rparr>"
  obtain ack where ack: "make_ble_ack t = Inr ack"
    using t by (auto simp: make_ble_ack_def valid_sequence_def)
  have nq: "notification_queue l = []" and wk: "worker l = Worker_waiting"
    and asm: "link_assembler l = \<lparr>asm_expected_sequence = t, asm_buffer = b\<rparr>"
    using rest by (simp_all add: at_rest_for_def)
  let ?l1 = "l\<lparr>notification_queue := [?c]\<rparr>"
  let ?l2 = "l\<lparr>processed := processed l @ [?c], link_assembler := ?asm,
    worker := Worker_writing (if is_end then Some (b @ p) else None), writes := writes l @ [Ack_write ack]\<rparr>"
  let ?l3 = "l\<lparr>processed := processed l @ [?c], link_assembler := ?asm,
    writes := writes l @ [Ack_write ack], response_queue := if is_end then [Inr (b @ p)] else []\<rparr>"
  have "link_step (Notify ?c) l = Some ?l1"
    using nq by (simp add: notification_received_def NOTIFICATION_QUEUE_SIZE_def)
  moreover have "link_step Worker_take ?l1 = Some ?l2"
    using t wk nq asm ack assembler_add_raw_chunk [of t p "link_assembler l" is_end]
    by (simp add: worker_take_def worker_process_def parse_raw_chunk)
  moreover have "link_step (Worker_written None) ?l2 = Some ?l3"
    using l wk by (cases l) (simp add: worker_written_def RESPONSE_QUEUE_SIZE_def)
  ultimately have "drive (response_turn ?c @ es) l = drive es ?l3"
    using l by (simp add: response_turn_def is_done_def del: link_step.simps)
  then show ?thesis using rest l by (intro exI [of _ ?l3]) (simp add: at_rest_for_def)
qed

lemma drive_responses:
  assumes "m \<noteq> []" and "valid_sequence t" and "sender l = Sender_response" and "response_queue l = []"
    and "at_rest_for t b l"
  shows "\<exists>l'. drive (concat (map response_turn (chunks_of m t)) @ es) l = drive es l' \<and>
    sender l' = Sender_response \<and> tx_sequence l' = tx_sequence l \<and> ack_waiters l' = ack_waiters l \<and>
    at_rest_for ((succ_sequence ^^ length (chunks_of m t)) t) [] l' \<and> response_queue l' = [Inr (b @ m)]"
  using assms
proof (induction m t arbitrary: l b rule: chunks_of.induct)
  case (1 m t)
  let ?p = "take MAX_BLE_PAYLOAD m" and ?r = "drop MAX_BLE_PAYLOAD m" and ?t = "succ_sequence t"
  have p: "length ?p \<le> MAX_BLE_PAYLOAD" by simp
  note turn = drive_response_turn [OF "1.prems"(3-5) "1.prems"(2) p]
  show ?case
  proof (cases "length m \<le> MAX_BLE_PAYLOAD")
    case True
    have "chunks_of m t = [raw_chunk t True ?p]"
      using True "1.prems"(1) by (simp add: chunks_of.simps [of m t])
    then show ?thesis using turn [of True es] True by simp
  next
    case False
    then have r: "?r \<noteq> []" by simp
    have cs: "chunks_of m t = raw_chunk t False ?p # chunks_of ?r ?t"
      using False "1.prems"(1) by (simp add: chunks_of.simps [of m t])
    obtain l1 where l1: "drive (response_turn (raw_chunk t False ?p) @
          concat (map response_turn (chunks_of ?r ?t)) @ es) l =
        drive (concat (map response_turn (chunks_of ?r ?t)) @ es) l1"
      "sender l1 = Sender_response" "tx_sequence l1 = tx_sequence l" "ack_waiters l1 = ack_waiters l"
      "at_rest_for ?t (b @ ?p) l1" "response_queue l1 = []"
      using turn [of False "concat (map response_turn (chunks_of ?r ?t)) @ es"] by auto
    from "1.IH" [OF "1.prems"(1) r valid_succ_sequence [OF "1.prems"(2)] l1(2,6,5)] l1 show ?thesis
      by (simp add: cs funpow_swap1)
  qed
qed

text \<open>A link at rest between two calls, with the peer's next sequence number.\<close>

definition quiet :: "int \<Rightarrow> link \<Rightarrow> bool" where
  "quiet t l \<longleftrightarrow>
     valid_sequence (tx_sequence l) \<and> ack_waiters l = [] \<and> response_queue l = [] \<and>
     valid_sequence t \<and> at_rest_for t [] l"

lemma quiet_new: "quiet 1 link_new"
  by (simp add: quiet_def link_new_def at_rest_for_def valid_sequence_def MAX_SEQUENCE_def)

lemma exchange_cooperative:
  assumes "quiet t l" and "f \<noteq> []" and "m \<noteq> []"
    and es: "es = cooperative (chunks_of f (tx_sequence l)) (chunks_of m t) @ later"
  shows "\<exists>l'. exchange f r (l, es) = (Inr m, l', later) \<and>
    quiet ((succ_sequence ^^ length (chunks_of m t)) t) l' \<and> sender l' = Sender_idle"
proof -
  let ?cs = "chunks_of f (tx_sequence l)" and ?ms = "chunks_of m t" and ?n = "max_attempts r"
  have start: "send_frame f r l = next_chunk ?cs ?n l"
    using assms(1,2) by (simp add: send_frame_def quiet_def chunk_for_ble_eq [THEN iffD2] max_attempts_def)
  have q: "valid_sequence (tx_sequence l)" "ack_waiters l = []" "numbered (tx_sequence l) ?cs"
      "at_rest_for t [] l" "valid_sequence t"
    using assms(1) by (simp_all add: quiet_def numbered_chunks_of)
  obtain l1 where l1: "drive (concat (map chunk_turn ?cs) @
        concat (map response_turn ?ms) @ Take_response # later) (next_chunk ?cs ?n l) =
      drive (concat (map response_turn ?ms) @ Take_response # later) (l1\<lparr>sender := Sender_response\<rparr>)"
    "tx_sequence l1 = (succ_sequence ^^ length ?cs) (tx_sequence l)" "ack_waiters l1 = []"
    "at_rest_for t [] l1" "response_queue l1 = response_queue l"
    using drive_chunks [OF q(1-4)] by blast
  let ?l1 = "l1\<lparr>sender := Sender_response\<rparr>"
  have r1: "sender ?l1 = Sender_response" "response_queue ?l1 = []" "at_rest_for t [] ?l1"
    using l1 assms(1) by (simp_all add: quiet_def at_rest_for_def)
  obtain l2 where l2: "drive (concat (map response_turn ?ms) @ Take_response # later) ?l1 =
      drive (Take_response # later) l2" "sender l2 = Sender_response" "tx_sequence l2 = tx_sequence ?l1"
    "ack_waiters l2 = ack_waiters ?l1" "at_rest_for ((succ_sequence ^^ length ?ms) t) [] l2"
    "response_queue l2 = [Inr m]"
    using drive_responses [OF assms(3) q(5) r1, of "Take_response # later"] by auto
  let ?l3 = "finish (Inr m) (l2\<lparr>response_queue := []\<rparr>)"
  have "drive (Take_response # later) l2 = drive later ?l3"
    using l2 by (simp add: take_response_def is_done_def)
  also have "\<dots> = (?l3, later)" by (cases later) simp_all
  finally have "drive es (send_frame f r l) = (?l3, later)"
    using l1(1) l2(1) by (simp add: es start cooperative_def)
  moreover have "settle (sender_measure (sender ?l3)) ?l3 = ?l3" by simp
  ultimately have "exchange f r (l, es) = (Inr m, ?l3\<lparr>sender := Sender_idle\<rparr>, later)"
    by (simp add: exchange_def)
  moreover have "quiet ((succ_sequence ^^ length ?ms) t) (?l3\<lparr>sender := Sender_idle\<rparr>)"
    using l1 l2 q by (simp add: quiet_def at_rest_for_def valid_iterate_sequence)
  ultimately show ?thesis by (intro exI [of _ "?l3\<lparr>sender := Sender_idle\<rparr>"]) simp
qed

subsection \<open>Calls from any state of a session\<close>

lemma call_sending:
  assumes "link_inv l0" and "sender l0 = Sender_idle" and "link_run (send_frame f r l0) es l"
  shows "sending (chunks_of f (tx_sequence l0)) (chunk_writes l0) (max_attempts r)
    (length (processed l0)) l" and "sender_inv l"
proof -
  have inv: "sender_inv l0" "sender_inv (send_frame f r l0)"
    using assms(1,2) by (simp_all add: link_inv_def sender_inv_send_frame)
  from link_run_sending [OF assms(3) inv(2) sending_start [OF inv(1)]]
  show "sending (chunks_of f (tx_sequence l0)) (chunk_writes l0) (max_attempts r)
    (length (processed l0)) l" and "sender_inv l" by simp_all
qed

lemma call_stopped:
  assumes "link_inv l0" and "sender l0 = Sender_idle" and "link_run (send_frame f r l0) es l"
    and "sender l = Sender_done res"
  shows "stopped_at (chunks_of f (tx_sequence l0)) (chunk_writes l0) (max_attempts r)
    (length (processed l0)) l"
  using call_sending(1) [OF assms(1-3)] assms(4) all_sent_stopped
  by (cases res) (auto simp: sending_def)

lemma unretried_call:
  assumes "link_inv l0" and "sender l0 = Sender_idle" and "link_run (send_frame f False l0) es l"
  shows "\<exists>sent. chunk_writes l = chunk_writes l0 @ sent \<and> prefix sent (chunks_of f (tx_sequence l0)) \<and>
    ((\<exists>m. sender l = Sender_done (Inr m)) \<longrightarrow>
       sent = chunks_of f (tx_sequence l0) \<and>
       sequences sent \<subseteq> acked (drop (length (processed l0)) (processed l)))"
proof -
  let ?cs = "chunks_of f (tx_sequence l0)"
  note s = call_sending [OF assms, unfolded max_attempts_def]
  have flight: ?thesis if fl: "in_flight (sender l) = Some a" for a
  proof -
    have lt: "at_attempt a < at_attempts a" using s(2) fl by (simp add: sender_inv_def)
    from s(1) fl obtain ws past where h: "?cs = past @ at_chunk a # at_rest a" "transmits (Suc 0) past ws"
        "at_attempts a = Suc 0" "chunk_writes l = chunk_writes l0 @ ws @ replicate (Suc (at_attempt a)) (at_chunk a)"
      by (auto simp: in_flight_sending in_flight_ok_def)
    then have "chunk_writes l = chunk_writes l0 @ past @ [at_chunk a]"
      using lt by (auto dest: transmits_once)
    moreover have "prefix (past @ [at_chunk a]) ?cs" by (simp add: h)
    ultimately show ?thesis using fl by (intro exI [of _ "past @ [at_chunk a]"]) auto
  qed
  show ?thesis
    using s(1) flight
    by (cases "sender l")
      (auto simp: sending_def all_sent_def stopped_at_def split: sum.splits
        dest!: transmits_once partly_sent_once)
qed

lemma call_bounded:
  assumes "link_inv l0" and "sender l0 = Sender_idle" and "link_run (send_frame f r l0) es l"
  shows "length (filter (\<lambda>e. \<not> receive_event e) es) \<le>
      2 * max_attempts r * ((length f + 17) div 18) + 1 \<and>
    (is_done l \<or>
     (\<exists>e \<in> {Sender_written None, Ack_timeout, Response_timeout}. link_step e l \<noteq> None))"
proof -
  have inv: "sender_inv l0" "sender_inv (send_frame f r l0)"
    using assms(1,2) by (simp_all add: link_inv_def sender_inv_send_frame)
  have "length (filter (\<lambda>e. \<not> receive_event e) es) \<le>
      2 * max_attempts r * length (chunks_of f (tx_sequence l0)) + 1"
    using link_run_measure [OF assms(3) inv(2)] send_frame_measure [OF inv(1), of f r] by linarith
  moreover have "length (chunks_of f (tx_sequence l0)) = (length f + 17) div 18"
    by (simp add: length_chunks_of MAX_BLE_PAYLOAD_def)
  ultimately show ?thesis using sender_progress [OF call_sending(1) [OF assms]] by auto
qed

text \<open>From the start of a call some run reaches its end.\<close>

lemma settle_run: "\<exists>es. link_run l es (settle n l)"
proof (induction n arbitrary: l)
  case 0
  then show ?case by (auto intro: link_run_refl)
next
  case (Suc n)
  show ?case
  proof (cases "is_done l \<or> link_step (silent_event l) l = None")
    case True
    then have "settle (Suc n) l = l" by auto
    then show ?thesis using link_run_refl by metis
  next
    case False
    then obtain l' where l': "link_step (silent_event l) l = Some l'" by auto
    obtain es where "link_run l' es (settle n l')" using Suc.IH by blast
    with l' have "link_run l (silent_event l # es) (settle n l')" by (rule link_run_Cons)
    then show ?thesis using False l' by auto
  qed
qed

lemma call_can_end:
  assumes "link_inv l0" and "sender l0 = Sender_idle"
  shows "\<exists>es l res. link_run (send_frame f r l0) es l \<and> sender l = Sender_done res"
proof -
  let ?l = "send_frame f r l0"
  obtain es where es: "link_run ?l es (settle (sender_measure (sender ?l)) ?l)"
    using settle_run by blast
  have "is_done (settle (sender_measure (sender ?l)) ?l)"
    using settle_done call_sending [OF assms link_run_refl] by blast
  with es show ?thesis by (auto simp: is_done_def split: sender.splits)
qed

lemma link_inv_bounds:
  assumes "link_inv l"
  shows "length (notification_queue l) \<le> 128 \<and> length (response_queue l) \<le> 4 \<and>
    length (ack_waiters l) \<le> 1 \<and> 1 \<le> tx_sequence l \<and> tx_sequence l \<le> 63 \<and>
    1 \<le> asm_expected_sequence (link_assembler l) \<and> asm_expected_sequence (link_assembler l) \<le> 63"
proof -
  have "valid_assembler asm_new"
    by (simp add: valid_assembler_def asm_new_def valid_sequence_def MAX_SEQUENCE_def)
  then have "valid_assembler (link_assembler l)"
    using assms by (simp add: link_inv_def receiver_inv_def assembler_feed_valid)
  then show ?thesis
    using assms
    by (cases "in_flight (sender l)")
      (auto simp: link_inv_def sender_inv_def receiver_inv_def valid_assembler_def valid_sequence_def
        MAX_SEQUENCE_def NOTIFICATION_QUEUE_SIZE_def RESPONSE_QUEUE_SIZE_def)
qed

lemma returned_message_run:
  assumes "link_inv l" and "sender l = Sender_done (Inr m)"
  shows "\<exists>cs. subseq cs (data_chunks (processed l)) \<and> message_run cs m"
proof -
  have "m \<in> set (fst (assembler_feed asm_new (processed l)))"
    using assms by (auto simp: link_inv_def receiver_inv_def messages_under_way_def)
  then show ?thesis
    using assembler_feed_runs [of "[]" asm_new m "processed l"] by (simp add: open_run_empty asm_new_def)
qed

subsection \<open>Concrete runs\<close>

lemma link_run_session:
  "link_run l0 es l \<Longrightarrow> session_run l0 \<Longrightarrow> session_run l"
  by (induction rule: link_run.induct) (auto intro: session_step)

lemma example_timeout:
  "\<exists>l. link_run (send_frame [7] False link_new) [Sender_written None, Ack_timeout] l \<and>
     sender l = Sender_done (Inl (TiltBleTimeout ''Timed out waiting for BLE ACK sequence 1.''))"
proof -
  let ?c = "raw_chunk 1 True [7]"
  have cs: "chunks_of [7] 1 = [?c]" by (simp add: chunks_of.simps [of "[7]"] MAX_BLE_PAYLOAD_def)
  have seq: "chunk_sequence ?c = 1"
    by (simp add: chunk_sequence_def raw_chunk_def END_OF_MESSAGE_FLAG_def)
  have start: "send_frame [7] False link_new = begin_attempt ?c [] 0 1 link_new"
    using cs by (simp add: send_frame_def link_new_def chunk_for_ble_eq [THEN iffD2] valid_sequence_def
        MAX_SEQUENCE_def)
  let ?a = "\<lparr>at_waiter = 0, at_chunk = ?c, at_rest = [], at_attempt = 0, at_attempts = 1\<rparr>"
  let ?l1 = "(begin_attempt ?c [] 0 1 link_new)\<lparr>sender := Sender_acking ?a\<rparr>"
  have one: "str_of_int 1 = ''1''"
    by (simp add: str_of_int_def digits_of_nat.simps) code_simp
  have "link_step (Sender_written None) (send_frame [7] False link_new) = Some ?l1"
    unfolding start by (simp add: sender_written_def link_new_def)
  then have run: "link_run (send_frame [7] False link_new) [Sender_written None] ?l1"
    using link_run_step [OF link_run_refl] by fastforce
  obtain l where l: "link_step Ack_timeout ?l1 = Some l"
    "sender l = Sender_done (Inl (TiltBleTimeout ''Timed out waiting for BLE ACK sequence 1.''))"
    by (auto simp: ack_timeout_def attempt_failed_def isinstance_exc_def seq one Let_def)
  from link_run_step [OF run l(1)] l(2) show ?thesis by auto
qed

lemma example_response: "\<exists>l. session_run l \<and> sender l = Sender_done (Inr [1, 2])"
proof -
  let ?es = "cooperative (chunks_of [7] 1) (chunks_of [1, 2] 1)"
  let ?l0 = "send_frame [7] False link_new"
  have "\<exists>l'. exchange [7] False (link_new, ?es) = (Inr [1, 2], l', [])"
    using exchange_cooperative [OF quiet_new, of "[7]" "[1, 2]" ?es "[]" False] by (auto simp: link_new_def)
  then obtain l' where ex: "exchange [7] False (link_new, ?es) = (Inr [1, 2], l', [])" by blast
  let ?l1 = "fst (drive ?es ?l0)" let ?l2 = "settle (sender_measure (sender ?l1)) ?l1"
  have "session_run ?l0" by (rule session_send [OF session_new]) (simp add: link_new_def)
  moreover obtain e1 where "link_run ?l0 e1 ?l1" using drive_run by blast
  moreover obtain e2 where "link_run ?l1 e2 ?l2" using settle_run by blast
  ultimately have "session_run ?l2" using link_run_session by blast
  moreover have "sender ?l2 = Sender_done (Inr [1, 2])"
    using ex by (auto simp: exchange_def Let_def split: prod.splits sender.splits)
  ultimately show ?thesis by blast
qed

subsection \<open>Properties\<close>

text \<open>C7: However the notification callback, the worker and the sender interleave and whatever
  the peer sends, a frame sent without chunk retries (a position write) puts each of its chunks
  on the air at most once and in order; when the call returns a response, all chunks were written
  and each was acknowledged by a notification processed during the call.\<close>

theorem unretried_frame_written_once:
  assumes "session_run l0" and "sender l0 = Sender_idle" and "link_run (send_frame f False l0) es l"
  shows "\<exists>sent. chunk_writes l = chunk_writes l0 @ sent \<and> prefix sent (chunks_of f (tx_sequence l0)) \<and>
    ((\<exists>m. sender l = Sender_done (Inr m)) \<longrightarrow>
       sent = chunks_of f (tx_sequence l0) \<and>
       sequences sent \<subseteq> acked (drop (length (processed l0)) (processed l)))"
  using unretried_call [OF session_run_inv [OF assms(1)] _ assms(3)] assms(2) by simp

theorem unretried_frame_written_once_witness:
  "\<exists>l. link_run (send_frame [7] False link_new) [Sender_written None, Ack_timeout] l \<and>
     sender l = Sender_done (Inl (TiltBleTimeout ''Timed out waiting for BLE ACK sequence 1.'')) \<and>
     prefix (chunk_writes l) (chunks_of [7] 1)"
proof -
  obtain l where l: "link_run (send_frame [7] False link_new) [Sender_written None, Ack_timeout] l"
    "sender l = Sender_done (Inl (TiltBleTimeout ''Timed out waiting for BLE ACK sequence 1.''))"
    using example_timeout by blast
  from unretried_frame_written_once [OF session_new _ l(1)] l show ?thesis
    by (auto simp: link_new_def chunk_writes_def)
qed

text \<open>C26: A frame sent with chunk retries (a read or a handshake request) has each chunk written
  at most twice in a row, and a chunk is only followed by the next one once it was acknowledged.\<close>

theorem retried_chunks_bounded:
  assumes "session_run l0" and "sender l0 = Sender_idle" and "link_run (send_frame f True l0) es l"
    and "sender l = Sender_done res"
  shows "\<exists>sent k. chunk_writes l = chunk_writes l0 @ sent \<and>
    partly_sent (chunks_of f (tx_sequence l0)) 2 sent k \<and>
    sequences (take k (chunks_of f (tx_sequence l0))) \<subseteq>
      acked (drop (length (processed l0)) (processed l))"
  using call_stopped [OF session_run_inv [OF assms(1)] _ assms(3,4)] assms(2)
  by (auto simp: stopped_at_def max_attempts_def)

theorem retried_chunks_bounded_witness:
  "\<exists>l es k. link_run (send_frame [7] True link_new) es l \<and> partly_sent (chunks_of [7] 1) 2 (chunk_writes l) k"
proof -
  obtain l es res where l: "link_run (send_frame [7] True link_new) es l" "sender l = Sender_done res"
    using call_can_end [OF link_inv_new, of "[7]" True] by (auto simp: link_new_def)
  from retried_chunks_bounded [OF session_new _ l] l(1) show ?thesis
    by (auto simp: link_new_def chunk_writes_def)
qed

text \<open>C25: A call of \<open>_send_frame\<close> ends: the sender takes at most two turns per allowed write of
  each of the frame's \<open>\<lceil>length / 18\<rceil>\<close> chunks and one for the response, and at every point before
  the end one of its turns is possible without the peer's help (a write ends or a timer fires).\<close>

theorem send_frame_terminates:
  assumes "session_run l0" and "sender l0 = Sender_idle" and "link_run (send_frame f r l0) es l"
  shows "length (filter (\<lambda>e. \<not> receive_event e) es) \<le>
      2 * max_attempts r * ((length f + 17) div 18) + 1 \<and>
    (is_done l \<or>
     (\<exists>e \<in> {Sender_written None, Ack_timeout, Response_timeout}. link_step e l \<noteq> None))"
  using call_bounded [OF session_run_inv [OF assms(1)] _ assms(3)] assms(2) by simp

theorem send_frame_terminates_witness:
  "\<exists>l es. link_run (send_frame [7] False link_new) es l \<and> es \<noteq> [] \<and>
     length (filter (\<lambda>e. \<not> receive_event e) es) \<le> 3"
proof -
  obtain l where l: "link_run (send_frame [7] False link_new) [Sender_written None, Ack_timeout] l"
    using example_timeout by blast
  from send_frame_terminates [OF session_new _ l] l show ?thesis
    by (intro exI [of _ l] exI [of _ "[Sender_written None, Ack_timeout]"])
      (simp add: link_new_def max_attempts_def)
qed

text \<open>C27: At every point of a session the notification queue holds at most 128 and the response
  queue at most 4 entries, at most one acknowledgement is awaited, and both sequence numbers, the
  sender's and the assembler's, are between 1 and 63.\<close>

theorem session_bounds:
  assumes "session_run l"
  shows "length (notification_queue l) \<le> 128 \<and> length (response_queue l) \<le> 4 \<and>
    length (ack_waiters l) \<le> 1 \<and> 1 \<le> tx_sequence l \<and> tx_sequence l \<le> 63 \<and>
    1 \<le> asm_expected_sequence (link_assembler l) \<and> asm_expected_sequence (link_assembler l) \<le> 63"
  using session_run_inv [OF assms] link_inv_bounds by blast

theorem session_bounds_witness:
  "length (notification_queue (notification_received [0, 1] link_new)) \<le> 128"
proof -
  have "session_run (notification_received [0, 1] link_new)"
    by (rule session_step [OF session_new, of "Notify [0, 1]"]) simp
  from session_bounds [OF this] show ?thesis by simp
qed

text \<open>C24: A response returned by \<open>_send_frame\<close> is always a message reassembled from notified data
  chunks: consecutive sequence numbers, the last and only the last marked as the end, the
  payloads concatenated.\<close>

theorem response_is_reassembled:
  assumes "session_run l" and "sender l = Sender_done (Inr m)"
  shows "\<exists>cs. subseq cs (data_chunks (processed l)) \<and> message_run cs m"
  using session_run_inv [OF assms(1)] assms(2) by (rule returned_message_run)

theorem response_is_reassembled_witness:
  "\<exists>(l :: link) cs. sender l = Sender_done (Inr [1, 2]) \<and> subseq cs (data_chunks (processed l)) \<and>
     message_run cs [1, 2]"
proof -
  obtain l where l: "session_run l" "sender l = Sender_done (Inr [1, 2])"
    using example_response by blast
  from response_is_reassembled [OF l] l(2) show ?thesis by blast
qed

text \<open>With a peer that acknowledges each chunk and answers with a non-empty message in chunks
  of its own, a call returns exactly that message, whatever the frame's length and wherever the
  two sequence numbers stand, and leaves the link ready for the next call.\<close>

lemma cooperative_exchange_returns_response:
  assumes "quiet t l" and "f \<noteq> []" and "m \<noteq> []"
  shows "\<exists>l'. exchange f r (l, cooperative (chunks_of f (tx_sequence l)) (chunks_of m t) @ later) =
      (Inr m, l', later) \<and>
    quiet ((succ_sequence ^^ length (chunks_of m t)) t) l' \<and> sender l' = Sender_idle"
  using assms by (rule exchange_cooperative) (rule refl)

lemma cooperative_exchange_returns_response_witness:
  "\<exists>l'. exchange [1, 2, 3] True
      (link_new, cooperative (chunks_of [1, 2, 3] 1) (chunks_of (replicate 50 4) 1)) =
      (Inr (replicate 50 4), l', [])"
  using cooperative_exchange_returns_response [OF quiet_new, of "[1, 2, 3]" "replicate 50 4" True "[]"]
  by (auto simp: link_new_def)

end
