(* ===== verification/Session.thy ===== *)
theory Session
  imports App_Layer Send_Frame
begin

text \<open>
  The session operations of \<open>_TiltBleSession\<close> (\<open>tilt/ble.py\<close>): \<open>authenticate\<close>, \<open>read_status\<close>,
  \<open>set_position\<close> and the request identifiers they consume.

  An operation maps a session to its outcome (\<open>Inl\<close> the exception) and the session afterwards.
  \<open>_send_frame\<close> is the parameter \<open>send\<close>, with the state \<open>'l\<close> of whatever is below: the link of
  \<open>Send_Frame\<close> for what goes on the air, a fake shade for what comes back. The pauses
  (\<open>asyncio.sleep\<close>) between handshake steps change nothing and are left out.
\<close>

type_synonym 'l sender_fun = "bytes \<Rightarrow> bool \<Rightarrow> 'l \<Rightarrow> (exc + bytes) \<times> 'l"

record 'l session =
  s_pairing_key :: bytes
  s_counter :: int
  s_message_id :: int
  s_nonce :: "bytes option"
  s_link :: 'l

definition session_new :: "bytes \<Rightarrow> 'l \<Rightarrow> 'l session" where
  "session_new key l =
     \<lparr>s_pairing_key = key, s_counter = 1, s_message_id = 1, s_nonce = None, s_link = l\<rparr>"

subsection \<open>Operations that raise and change the state\<close>

type_synonym ('s, 'a) operation = "'s \<Rightarrow> (exc + 'a) \<times> 's"

definition sbind :: "('s, 'a) operation \<Rightarrow> ('a \<Rightarrow> ('s, 'b) operation) \<Rightarrow> ('s, 'b) operation" where
  "sbind m f s = (case m s of (Inl e, s') \<Rightarrow> (Inl e, s') | (Inr x, s') \<Rightarrow> f x s')"

definition yields :: "exc + 'a \<Rightarrow> ('s, 'a) operation" where
  "yields r s = (r, s)"

lemma sbind_yields [simp]:
  "sbind (yields (Inl e)) f = yields (Inl e)" "sbind (yields (Inr x)) f = f x"
  by (simp_all add: sbind_def yields_def fun_eq_iff)

lemma sbind_Inr:
  "sbind m f s = (Inr y, s') \<longleftrightarrow> (\<exists>x s1. m s = (Inr x, s1) \<and> f x s1 = (Inr y, s'))"
  by (auto simp: sbind_def split: prod.splits sum.splits)

lemma yields_eq [simp]: "yields r s = (r', s') \<longleftrightarrow> r = r' \<and> s = s'"
  by (auto simp: yields_def)

subsection \<open>Requests\<close>

definition session_send :: "'l sender_fun \<Rightarrow> bytes \<Rightarrow> bool \<Rightarrow> ('l session, bytes) operation" where
  "session_send send frame retry_chunks s =
     (let (r, l) = send frame retry_chunks (s_link s) in (r, s\<lparr>s_link := l\<rparr>))"

definition require_nonce :: "'l session \<Rightarrow> exc + bytes" where
  "require_nonce s =
     (case s_nonce s of
        None \<Rightarrow> Inl (AuthenticationError ''Tilt session was not authenticated.'')
      | Some nonce \<Rightarrow> Inr nonce)"

definition next_counter :: "int \<Rightarrow> int" where
  "next_counter counter = (if counter = 0x7FFF then 1 else counter + 1)"

definition next_message_id :: "int \<Rightarrow> int" where
  "next_message_id message_id = (if message_id = 15 then 1 else message_id + 1)"

definition take_application_ids :: "'l session \<Rightarrow> (int \<times> int) \<times> 'l session" where
  "take_application_ids s =
     ((s_counter s, s_message_id s),
      s\<lparr>s_counter := next_counter (s_counter s), s_message_id := next_message_id (s_message_id s)\<rparr>)"

text \<open>The three handshake steps of \<open>authenticate\<close>.\<close>

definition negotiate_version :: "'l sender_fun \<Rightarrow> ('l session, int) operation" where
  "negotiate_version send =
     sbind (yields encode_protocol_versions_request) (\<lambda>request.
     sbind (session_send send request True) (\<lambda>versions_frame.
     sbind (yields (rbind (parse_crypto_response versions_frame) parse_protocol_versions)) (\<lambda>versions.
       case find (\<lambda>version. version \<in> set versions) SUPPORTED_CRYPTO_PROTOCOLS of
         None \<Rightarrow> yields (Inl (TiltProtocolError
           ''Shade does not support an allowlisted crypto protocol.''))
       | Some selected \<Rightarrow> yields (Inr selected))))"

definition check_selection :: "int \<Rightarrow> crypto_response \<Rightarrow> exc + unit" where
  "check_selection selected selection =
     (if cr_command selection = Crypto_SELECT_PROTOCOL_VERSION then
        (if cr_payload selection \<noteq> [word_of_int selected]
         then Inl (TiltProtocolError ''Shade selected an unexpected crypto protocol.'')
         else Inr ())
      else if cr_command selection = Crypto_ACK then
        (if cr_payload selection \<noteq> [crypto_value Crypto_SELECT_PROTOCOL_VERSION]
         then Inl (TiltProtocolError ''Shade returned an invalid protocol-selection ACK.'')
         else Inr ())
      else Inl (TiltProtocolError ''Shade did not acknowledge protocol selection.''))"

definition select_version :: "'l sender_fun \<Rightarrow> int \<Rightarrow> ('l session, unit) operation" where
  "select_version send selected =
     sbind (yields (encode_protocol_selection selected)) (\<lambda>request.
     sbind (session_send send request True) (\<lambda>selection_frame.
     sbind (yields (parse_crypto_response selection_frame)) (\<lambda>selection.
       yields (check_selection selected selection))))"

definition fetch_nonce :: "'l sender_fun \<Rightarrow> ('l session, unit) operation" where
  "fetch_nonce send =
     sbind (yields encode_nonce_request) (\<lambda>request.
     sbind (session_send send request True) (\<lambda>nonce_frame.
     sbind (yields (rbind (parse_crypto_response nonce_frame) parse_nonce_response)) (\<lambda>nonce_response s.
       case pairing_key_matches_proof (s_pairing_key s) (nr_key_proof nonce_response) of
         Inl e \<Rightarrow> (Inl e, s)
       | Inr False \<Rightarrow>
           (Inl (AuthenticationError ''Configured pairing key did not authenticate this shade.''), s)
       | Inr True \<Rightarrow> (Inr (), s\<lparr>s_nonce := Some (nr_nonce nonce_response)\<rparr>))))"

definition authenticate :: "'l sender_fun \<Rightarrow> ('l session, unit) operation" where
  "authenticate send =
     sbind (negotiate_version send) (\<lambda>selected.
     sbind (select_version send selected) (\<lambda>_. fetch_nonce send))"

definition application_request ::
  "cipher \<Rightarrow> 'l sender_fun \<Rightarrow> shade_command \<Rightarrow> bool \<Rightarrow> ('l session, application_response) operation" where
  "application_request ctr send command retry_chunks s =
     (case require_nonce s of
        Inl e \<Rightarrow> (Inl e, s)
      | Inr nonce \<Rightarrow>
          (let ((counter, message_id), s1) = take_application_ids s
           in case encode_read_request ctr command (s_pairing_key s) nonce counter message_id of
                Inl e \<Rightarrow> (Inl e, s1)
              | Inr frame \<Rightarrow>
                  sbind (session_send send frame retry_chunks) (\<lambda>response_frame.
                    yields (decode_application_response ctr response_frame (s_pairing_key s) nonce
                      command message_id (Some counter))) s1))"

definition read_status :: "cipher \<Rightarrow> 'l sender_fun \<Rightarrow> ('l session, shade_status) operation" where
  "read_status ctr send =
     sbind (application_request ctr send Shade_GET_STATUS True) (\<lambda>response.
       yields (parse_status response))"

text \<open>The value of the decoded response is discarded; its exceptions are not.\<close>

definition set_position :: "cipher \<Rightarrow> 'l sender_fun \<Rightarrow> int \<Rightarrow> ('l session, unit) operation" where
  "set_position ctr send target s =
     (case require_nonce s of
        Inl e \<Rightarrow> (Inl e, s)
      | Inr nonce \<Rightarrow>
          (let ((counter, message_id), s1) = take_application_ids s
           in case encode_position_request ctr (PyInt target) (s_pairing_key s) nonce
                  counter message_id (PyInt 100) of
                Inl e \<Rightarrow> (Inl e, s1)
              | Inr frame \<Rightarrow>
                  sbind (session_send send frame False) (\<lambda>response_frame.
                    yields (rbind (decode_application_response ctr response_frame (s_pairing_key s) nonce
                      Shade_SET_POSITION message_id (Some counter)) (\<lambda>_. Inr ()))) s1))"

subsection \<open>Request identifiers\<close>

interpretation counter: cyclic_counter next_counter MAX_COUNTER
  by unfold_locales (auto simp: next_counter_def MAX_COUNTER_def)

interpretation message_id: cyclic_counter next_message_id 15
  by unfold_locales (auto simp: next_message_id_def)

definition valid_session :: "'l session \<Rightarrow> bool" where
  "valid_session s \<longleftrightarrow>
     length (s_pairing_key s) = 32 \<and> 1 \<le> s_counter s \<and> s_counter s \<le> MAX_COUNTER \<and>
     1 \<le> s_message_id s \<and> s_message_id s \<le> 15 \<and>
     (case s_nonce s of None \<Rightarrow> True | Some nonce \<Rightarrow> length nonce = 12)"

lemma valid_session_new: "length key = 32 \<Longrightarrow> valid_session (session_new key l)"
  by (simp add: valid_session_def session_new_def MAX_COUNTER_def)

lemma take_application_ids_simps [simp]:
  "fst (take_application_ids s) = (s_counter s, s_message_id s)"
  "s_link (snd (take_application_ids s)) = s_link s"
  "s_nonce (snd (take_application_ids s)) = s_nonce s"
  "s_pairing_key (snd (take_application_ids s)) = s_pairing_key s"
  by (simp_all add: take_application_ids_def)

lemma valid_session_ids: "valid_session s \<Longrightarrow> valid_session (snd (take_application_ids s))"
  using counter.nxt_range [of "s_counter s"] message_id.nxt_range [of "s_message_id s"]
  by (auto simp: valid_session_def take_application_ids_def)

definition session_after :: "nat \<Rightarrow> 'l session \<Rightarrow> 'l session" where
  "session_after n s = ((\<lambda>s. snd (take_application_ids s)) ^^ n) s"

lemma session_after_ids:
  "s_counter (session_after n s) = (next_counter ^^ n) (s_counter s)"
  "s_message_id (session_after n s) = (next_message_id ^^ n) (s_message_id s)"
  by (induction n) (simp_all add: session_after_def take_application_ids_def)

lemma to_bytes_big_2_inject:
  assumes "1 \<le> c" "c \<le> MAX_COUNTER" "1 \<le> d" "d \<le> MAX_COUNTER"
  shows "to_bytes_big 2 c = to_bytes_big 2 d \<longleftrightarrow> c = d"
  using assms header_of_counter(1) by metis

lemma send_iv_not_receive_iv:
  assumes "1 \<le> c" and "c \<le> MAX_COUNTER" and "1 \<le> d" and "d \<le> MAX_COUNTER"
  shows "send_iv nonce c \<noteq> receive_iv nonce d"
proof -
  have "uint (word_of_int (d div 256) :: byte) < 0x80" "uint (word_of_int (c div 256) :: byte) < 0x80"
    using assms by (simp_all add: uint_byte_of_int MAX_COUNTER_def div_less_iff_less_mult)
  then have "uint (word_of_int (c div 256) :: byte) \<noteq> uint (word_of_int (d div 256) OR (0x80 :: byte))"
    using byte_or_high_bit [of "word_of_int (d div 256)"] uint_ge_0 [of "word_of_int (d div 256) :: byte"]
    by linarith
  then show ?thesis by (auto simp: send_iv_def receive_iv_def to_bytes_big_2)
qed

subsection \<open>What a request changes\<close>

lemma session_send_eq:
  "session_send send f r s = (res, s') \<longleftrightarrow>
     (\<exists>l. send f r (s_link s) = (res, l) \<and> s' = s\<lparr>s_link := l\<rparr>)"
  by (auto simp: session_send_def split: prod.splits)

lemma valid_session_link [simp]: "valid_session (s\<lparr>s_link := l\<rparr>) = valid_session s"
  by (simp add: valid_session_def)

subsection \<open>Traces\<close>

text \<open>
  \<open>traced send air\<close> logs each call of \<open>_send_frame\<close>: the frame, whether its chunks may be
  retried, and the chunks that went on the air during the call.
\<close>

type_synonym trace_entry = "bytes \<times> bool \<times> bytes list"

type_synonym 'l trace = "trace_entry list \<times> 'l"

definition traced :: "'l sender_fun \<Rightarrow> ('l \<Rightarrow> bytes list) \<Rightarrow> 'l trace sender_fun" where
  "traced send air frame retry_chunks t =
     (let (r, l) = send frame retry_chunks (snd t)
      in (r, fst t @ [(frame, retry_chunks, drop (length (air (snd t))) (air l))], l))"

definition unretried :: "trace_entry \<Rightarrow> bool" where
  "unretried e \<longleftrightarrow> \<not> fst (snd e)"

text \<open>A trace with its link: everything on the air since \<open>base\<close> is in the trace, and no chunk of
  a frame sent without retries was written twice.\<close>

definition trace_ok ::
  "('l \<Rightarrow> bool) \<Rightarrow> ('l \<Rightarrow> bytes list) \<Rightarrow> (bytes \<Rightarrow> 'l \<Rightarrow> bytes list) \<Rightarrow> bytes list \<Rightarrow> 'l trace \<Rightarrow> bool" where
  "trace_ok ready air chunks_for base t \<longleftrightarrow>
     ready (snd t) \<and> air (snd t) = base @ concat (map (snd \<circ> snd) (fst t)) \<and>
     (\<forall>e \<in> set (fst t). unretried e \<longrightarrow> (\<exists>l. prefix (snd (snd e)) (chunks_for (fst e) l)))"

text \<open>
  \<open>grows n good R t t'\<close>: \<open>t'\<close> has further entries, of which at most \<open>n\<close> are unretried, each for
  a frame \<open>good\<close> to be sent with or without retries as it was, and keeps the invariant \<open>R\<close>.
\<close>

definition grows :: "nat \<Rightarrow> (bool \<Rightarrow> bytes \<Rightarrow> bool) \<Rightarrow> ('l trace \<Rightarrow> bool) \<Rightarrow> 'l trace \<Rightarrow> 'l trace \<Rightarrow> bool" where
  "grows n good R t t' \<longleftrightarrow>
     (R t \<longrightarrow> R t') \<and>
     (\<exists>es. fst t' = fst t @ es \<and> length (filter unretried es) \<le> n \<and>
        (\<forall>e \<in> set es. good (fst (snd e)) (fst e)))"

definition op_grows ::
  "nat \<Rightarrow> (bool \<Rightarrow> bytes \<Rightarrow> bool) \<Rightarrow> ('l trace \<Rightarrow> bool) \<Rightarrow> bytes \<Rightarrow> ('l trace session, 'a) operation \<Rightarrow> bool" where
  "op_grows n good R key m \<longleftrightarrow>
     (\<forall>s r s'. m s = (r, s') \<longrightarrow> s_pairing_key s = key \<longrightarrow>
        s_pairing_key s' = key \<and> grows n good R (s_link s) (s_link s'))"

lemma grows_refl: "grows n good R t t"
  by (simp add: grows_def)

lemma grows_trans:
  assumes "grows m good R t1 t2" and "grows n good R t2 t3"
  shows "grows (m + n) good R t1 t3"
proof -
  from assms obtain es fs where "fst t2 = fst t1 @ es" "length (filter unretried es) \<le> m"
      "\<forall>e \<in> set es. good (fst (snd e)) (fst e)"
      "fst t3 = fst t2 @ fs" "length (filter unretried fs) \<le> n"
      "\<forall>e \<in> set fs. good (fst (snd e)) (fst e)"
    by (auto simp: grows_def)
  then have "\<exists>es. fst t3 = fst t1 @ es \<and> length (filter unretried es) \<le> m + n \<and>
      (\<forall>e \<in> set es. good (fst (snd e)) (fst e))"
    by (intro exI [of _ "es @ fs"]) auto
  then show ?thesis using assms by (simp add: grows_def)
qed

lemma grows_mono: "grows m good R t t' \<Longrightarrow> m \<le> n \<Longrightarrow> grows n good R t t'"
  unfolding grows_def by (meson order_trans)

lemma op_grows_yields: "op_grows n good R key (yields r)"
  by (simp add: op_grows_def grows_refl)

lemma op_grows_sbind:
  assumes "op_grows m good R key f" and "\<And>x. op_grows n good R key (g x)"
  shows "op_grows (m + n) good R key (sbind f g)"
  unfolding op_grows_def
proof (intro allI impI)
  fix s r s'
  assume run: "sbind f g s = (r, s')" and key: "s_pairing_key s = key"
  obtain r1 s1 where f: "f s = (r1, s1)" by fastforce
  with assms(1) key have f1: "s_pairing_key s1 = key" "grows m good R (s_link s) (s_link s1)"
    by (auto simp: op_grows_def)
  show "s_pairing_key s' = key \<and> grows (m + n) good R (s_link s) (s_link s')"
  proof (cases r1)
    case (Inl e)
    then show ?thesis using run f f1 by (auto simp: sbind_def intro: grows_mono)
  next
    case (Inr x)
    then have "g x s1 = (r, s')" using run f by (simp add: sbind_def)
    with assms(2) f1(1) have "s_pairing_key s' = key" "grows n good R (s_link s1) (s_link s')"
      by (auto simp: op_grows_def)
    then show ?thesis using f1(2) grows_trans by blast
  qed
qed

lemmas op_grows_reads = op_grows_sbind [where m = 0 and n = 0, simplified]

text \<open>A request that has been encoded.\<close>

lemma op_grows_encoded:
  assumes "\<And>f. enc = Inr f \<Longrightarrow> op_grows n good R key (g f)"
  shows "op_grows n good R key (sbind (yields enc) g)"
  using assms by (cases enc) (simp_all add: op_grows_yields)

text \<open>
  What a session sends: the requests of the handshake and status reads, whose chunks may be retried,
  and position requests, whose chunks may not.
\<close>

definition read_request :: "cipher \<Rightarrow> bytes \<Rightarrow> bytes \<Rightarrow> bool" where
  "read_request ctr key f \<longleftrightarrow>
     encode_protocol_versions_request = Inr f \<or> (\<exists>v. encode_protocol_selection v = Inr f) \<or>
     encode_nonce_request = Inr f \<or>
     (\<exists>nonce c mid. encode_read_request ctr Shade_GET_STATUS key nonce c mid = Inr f)"

definition position_request :: "cipher \<Rightarrow> bytes \<Rightarrow> int \<Rightarrow> bytes \<Rightarrow> bool" where
  "position_request ctr key target f \<longleftrightarrow>
     (\<exists>nonce c mid. encode_position_request ctr (PyInt target) key nonce c mid (PyInt 100) = Inr f)"

definition session_request :: "cipher \<Rightarrow> bytes \<Rightarrow> int \<Rightarrow> bool \<Rightarrow> bytes \<Rightarrow> bool" where
  "session_request ctr key target retry_chunks f \<longleftrightarrow>
     (if retry_chunks then read_request ctr key f else position_request ctr key target f)"

text \<open>A position request for any position, key and session is told by its length.\<close>

definition any_position_request :: "cipher \<Rightarrow> bytes \<Rightarrow> bool" where
  "any_position_request ctr f \<longleftrightarrow> (\<exists>p key nonce c mid speed. encode_position_request ctr p key nonce c mid speed = Inr f)"

lemma sealed_length:
  "ctr_cipher ctr \<Longrightarrow> encode_application_request ctr cmd payload key nonce c mid = Inr f \<Longrightarrow>
     length f = length payload + 6"
  using aes_ctr_facts(1) [of ctr key "send_iv nonce c"]
  by (auto simp: encode_application_request_Inr seal_def Let_def send_iv_def to_bytes_big_2)

lemma any_position_request_length:
  "ctr_cipher ctr \<Longrightarrow> any_position_request ctr f \<Longrightarrow> length f = 9"
  by (auto simp: any_position_request_def encode_position_request_Inr dest: sealed_length)

lemma read_request_not_position:
  assumes "ctr_cipher ctr" and "read_request ctr key f"
  shows "\<not> any_position_request ctr f"
proof -
  have "length f \<le> 6" using assms(2) sealed_length [OF assms(1)]
    by (auto simp: read_request_def encode_read_request_def encode_protocol_versions_request_def
        encode_protocol_selection_def encode_nonce_request_def encode_crypto_request_Inr crypto_frame_def
        append_checksum_def Let_def split: if_split_asm)
  then show ?thesis using any_position_request_length [OF assms(1)] by fastforce
qed

context frame_link
begin

lemma traced_ok:
  assumes "trace_ok ready air chunks_for base t" and "traced send air f r t = (x, t')"
  shows "trace_ok ready air chunks_for base t'"
proof -
  obtain l where l: "send f r (snd t) = (x, l)"
    and t': "t' = (fst t @ [(f, r, drop (length (air (snd t))) (air l))], l)"
    using assms(2) by (auto simp: traced_def split: prod.splits)
  have rd: "ready (snd t)" using assms(1) by (simp add: trace_ok_def)
  have "ready l" using send_ready [OF rd, of f r] l by simp
  moreover obtain ws where ws: "air l = air (snd t) @ ws"
    using send_appends [OF rd, of f r] l by (auto elim: prefixE)
  moreover have "prefix ws (chunks_for f (snd t))" if "\<not> r"
    using send_once [OF rd, of f] l that ws by auto
  ultimately show ?thesis using assms(1) unfolding trace_ok_def t'
    by (auto simp: unretried_def)
qed

lemma op_grows_send:
  assumes "good r f"
  shows "op_grows (if r then 0 else 1) good (trace_ok ready air chunks_for base) key
    (session_send (traced send air) f r)"
  unfolding op_grows_def
proof (intro allI impI)
  fix s :: "'l trace session" and x s'
  assume "session_send (traced send air) f r s = (x, s')" and key: "s_pairing_key s = key"
  then obtain t where t: "traced send air f r (s_link s) = (x, t)" and s': "s' = s\<lparr>s_link := t\<rparr>"
    by (auto simp: session_send_eq)
  have "\<exists>ws. fst t = fst (s_link s) @ [(f, r, ws)]"
    using t by (auto simp: traced_def split: prod.splits)
  then have "grows (if r then 0 else 1) good (trace_ok ready air chunks_for base) (s_link s) t"
    using traced_ok [OF _ t] assms by (auto simp: grows_def unretried_def)
  then show "s_pairing_key s' = key \<and>
      grows (if r then 0 else 1) good (trace_ok ready air chunks_for base) (s_link s) (s_link s')"
    using key s' by simp
qed

lemma op_grows_send_retried:
  "read_request ctr key f \<Longrightarrow> op_grows 0 (session_request ctr key target) (trace_ok ready air chunks_for base) key
    (session_send (traced send air) f True)"
  using op_grows_send [of "session_request ctr key target" True f] by (simp add: session_request_def)

lemma op_grows_fetch_nonce:
  "op_grows 0 (session_request ctr key target) (trace_ok ready air chunks_for base) key (fetch_nonce (traced send air))"
proof -
  have "op_grows 0 (session_request ctr key target) (trace_ok ready air chunks_for base) key
      (\<lambda>s. case m s of Inl e \<Rightarrow> (Inl e, s) | Inr False \<Rightarrow> (Inl x, s)
        | Inr True \<Rightarrow> (Inr (), s\<lparr>s_nonce := n\<rparr>))" for m x n
    by (auto simp: op_grows_def grows_refl split: sum.splits bool.splits)
  then show ?thesis
    unfolding fetch_nonce_def
    by (intro op_grows_encoded op_grows_reads op_grows_yields op_grows_send_retried) (simp_all add: read_request_def)
qed

lemma op_grows_authenticate:
  "op_grows 0 (session_request ctr key target) (trace_ok ready air chunks_for base) key (authenticate (traced send air))"
proof -
  have find: "op_grows 0 (session_request ctr key target) (trace_ok ready air chunks_for base) key
      (case x of None \<Rightarrow> yields e | Some v \<Rightarrow> yields (f v))" for x e f
    by (cases x) (simp_all add: op_grows_yields)
  have "op_grows 0 (session_request ctr key target) (trace_ok ready air chunks_for base) key
      (negotiate_version (traced send air))"
    unfolding negotiate_version_def
    by (intro op_grows_encoded op_grows_reads op_grows_yields op_grows_send_retried find) (simp_all add: read_request_def)
  moreover have "op_grows 0 (session_request ctr key target) (trace_ok ready air chunks_for base) key
      (select_version (traced send air) v)" for v
    unfolding select_version_def
    by (intro op_grows_encoded op_grows_reads op_grows_yields op_grows_send_retried) (auto simp: read_request_def)
  ultimately show ?thesis
    unfolding authenticate_def by (intro op_grows_reads op_grows_fetch_nonce)
qed

text \<open>A request over the identifiers taken from the session.\<close>

lemma op_grows_with_ids:
  assumes "\<And>nonce c mid f. enc key nonce c mid = Inr f \<Longrightarrow>
    op_grows n good (trace_ok ready air chunks_for base) key (m key nonce c mid f)"
  shows "op_grows n good (trace_ok ready air chunks_for base) key
    (\<lambda>s. case require_nonce s of
        Inl e \<Rightarrow> (Inl e, s)
      | Inr nonce \<Rightarrow>
          (let ((c, mid), s1) = take_application_ids s
           in case enc (s_pairing_key s) nonce c mid of Inl e \<Rightarrow> (Inl e, s1) | Inr f \<Rightarrow> m (s_pairing_key s) nonce c mid f s1))"
  unfolding op_grows_def
proof (intro allI impI)
  fix s :: "'l trace session" and r s'
  assume run: "(case require_nonce s of
        Inl e \<Rightarrow> (Inl e, s)
      | Inr nonce \<Rightarrow>
          (let ((c, mid), s1) = take_application_ids s
           in case enc (s_pairing_key s) nonce c mid of Inl e \<Rightarrow> (Inl e, s1) | Inr f \<Rightarrow> m (s_pairing_key s) nonce c mid f s1)) = (r, s')"
    and key: "s_pairing_key s = key"
  define s1 where "s1 = snd (take_application_ids s)"
  have s1: "s_pairing_key s1 = key" "s_link s1 = s_link s" using key by (simp_all add: s1_def)
  obtain c mid where ids: "take_application_ids s = ((c, mid), s1)"
    by (metis s1_def surj_pair prod.collapse)
  show "s_pairing_key s' = key \<and> grows n good (trace_ok ready air chunks_for base) (s_link s) (s_link s')"
  proof (cases "require_nonce s")
    case (Inl e)
    then show ?thesis using run key by (simp add: grows_refl)
  next
    case nonce: (Inr nonce)
    show ?thesis
    proof (cases "enc key nonce c mid")
      case (Inl e)
      then show ?thesis using run nonce ids s1 key by (simp add: grows_refl)
    next
      case (Inr f)
      then have "m key nonce c mid f s1 = (r, s')" using run nonce ids key by simp
      with assms [OF Inr] s1(1) have "s_pairing_key s' = key"
        "grows n good (trace_ok ready air chunks_for base) (s_link s1) (s_link s')"
        by (auto simp: op_grows_def)
      then show ?thesis unfolding s1(2) by simp
    qed
  qed
qed

lemma op_grows_read_status:
  "op_grows 0 (session_request ctr key target) (trace_ok ready air chunks_for base) key (read_status ctr (traced send air))"
proof -
  have "op_grows 0 (session_request ctr key target) (trace_ok ready air chunks_for base) key
      (application_request ctr (traced send air) Shade_GET_STATUS True)"
    unfolding application_request_def [abs_def]
    by (intro op_grows_with_ids op_grows_reads op_grows_send_retried op_grows_yields) (auto simp: read_request_def)
  then show ?thesis
    unfolding read_status_def by (intro op_grows_reads op_grows_yields)
qed

text \<open>A position write sends at most one frame without retries, and it carries the target.\<close>

lemma op_grows_set_position:
  "op_grows 1 (session_request ctr key target) (trace_ok ready air chunks_for base) key
    (set_position ctr (traced send air) target)"
proof -
  have "op_grows (1 + 0) (session_request ctr key target) (trace_ok ready air chunks_for base) key
      (sbind (session_send (traced send air) f False) (\<lambda>x. yields (d x)))"
    if "encode_position_request ctr (PyInt target) key nonce c mid (PyInt 100) = Inr f" for nonce c mid f d
  proof (rule op_grows_sbind [OF _ op_grows_yields])
    have "session_request ctr key target False f" using that by (auto simp: session_request_def position_request_def)
    then show "op_grows 1 (session_request ctr key target) (trace_ok ready air chunks_for base) key
        (session_send (traced send air) f False)"
      using op_grows_send [of "session_request ctr key target" False f base key] by simp
  qed
  then show ?thesis
    unfolding set_position_def [abs_def] by (intro op_grows_with_ids) simp
qed

end

subsection \<open>What authentication establishes\<close>

lemma session_send_Inr:
  "session_send send f r s = (Inr x, s') \<Longrightarrow>
     \<exists>l. send f r (s_link s) = (Inr x, l) \<and> s' = s\<lparr>s_link := l\<rparr>"
  by (simp add: session_send_eq)

lemma negotiate_version_Inr:
  assumes "negotiate_version send s = (Inr v, s')"
  shows "v \<in> {1, 2} \<and> (\<exists>l. s' = s\<lparr>s_link := l\<rparr>)"
proof -
  from assms obtain request f s1 versions where "session_send send request True s = (Inr f, s1)"
    and k: "(case find (\<lambda>version. version \<in> set versions) SUPPORTED_CRYPTO_PROTOCOLS of
         None \<Rightarrow> yields (Inl (TiltProtocolError
           ''Shade does not support an allowlisted crypto protocol.''))
       | Some selected \<Rightarrow> yields (Inr selected)) s1 = (Inr v, s')"
    unfolding negotiate_version_def sbind_Inr yields_eq by blast
  moreover from k have
    "find (\<lambda>version. version \<in> set versions) SUPPORTED_CRYPTO_PROTOCOLS = Some v" "s' = s1"
    by (simp_all split: option.split_asm)
  moreover from this have "v \<in> {1, 2}"
    by (auto simp: SUPPORTED_CRYPTO_PROTOCOLS_def split: if_split_asm)
  ultimately show ?thesis by (auto simp: session_send_eq)
qed

lemma check_selection_Inr:
  "check_selection v r = Inr u \<Longrightarrow>
     r = \<lparr>cr_command = Crypto_SELECT_PROTOCOL_VERSION, cr_payload = [word_of_int v]\<rparr> \<or>
     r = \<lparr>cr_command = Crypto_ACK, cr_payload = [0x03]\<rparr>"
  by (cases r) (auto simp: check_selection_def split: if_split_asm)

lemma select_version_Inr:
  assumes "select_version send v s = (Inr u, s')" and "v \<in> {1, 2}"
  shows "\<exists>f l. send (crypto_frame Crypto_SELECT_PROTOCOL_VERSION [word_of_int v]) True (s_link s) = (Inr f, l) \<and>
    s' = s\<lparr>s_link := l\<rparr> \<and>
    (f = crypto_frame Crypto_SELECT_PROTOCOL_VERSION [word_of_int v] \<or> f = crypto_frame Crypto_ACK [0x03])"
proof -
  have enc: "encode_protocol_selection v = Inr (crypto_frame Crypto_SELECT_PROTOCOL_VERSION [word_of_int v])"
    using assms(2)
    by (auto simp: encode_protocol_selection_def encode_crypto_request_Inr SUPPORTED_CRYPTO_PROTOCOLS_def)
  from assms(1) obtain f s1 r where
    "session_send send (crypto_frame Crypto_SELECT_PROTOCOL_VERSION [word_of_int v]) True s = (Inr f, s1)"
    "parse_crypto_response f = Inr r" "check_selection v r = Inr u" "s' = s1"
    unfolding select_version_def enc sbind_Inr yields_eq by blast
  then show ?thesis
    by (auto simp: session_send_eq parse_crypto_response_iff dest!: check_selection_Inr)
qed

lemma fetch_nonce_Inr:
  assumes "fetch_nonce send s = (Inr u, s')"
  shows "\<exists>nonce l. send (crypto_frame Crypto_REQUEST_NONCE []) True (s_link s) =
      (Inr (crypto_frame Crypto_REQUEST_NONCE
        (nonce @ hmac_sha256 (s_pairing_key s) PAIRING_KEY_PROOF_MESSAGE)), l) \<and>
    s' = s\<lparr>s_link := l, s_nonce := Some nonce\<rparr> \<and> length nonce = 12 \<and> length (s_pairing_key s) = 32"
proof -
  have enc: "encode_nonce_request = Inr (crypto_frame Crypto_REQUEST_NONCE [])"
    by (simp add: encode_nonce_request_def encode_crypto_request_Inr)
  from assms obtain f s1 n where
    send: "session_send send (crypto_frame Crypto_REQUEST_NONCE []) True s = (Inr f, s1)"
    and n: "rbind (parse_crypto_response f) parse_nonce_response = Inr n"
    and k: "(case pairing_key_matches_proof (s_pairing_key s1) (nr_key_proof n) of
         Inl e \<Rightarrow> (Inl e, s1)
       | Inr False \<Rightarrow>
           (Inl (AuthenticationError ''Configured pairing key did not authenticate this shade.''), s1)
       | Inr True \<Rightarrow> (Inr (), s1\<lparr>s_nonce := Some (nr_nonce n)\<rparr>)) = (Inr u, s')"
    unfolding fetch_nonce_def enc sbind_Inr yields_eq by blast
  from k have m: "pairing_key_matches_proof (s_pairing_key s1) (nr_key_proof n) = Inr True"
    and s': "s' = s1\<lparr>s_nonce := Some (nr_nonce n)\<rparr>"
    by (auto split: sum.split_asm bool.split_asm)
  have p: "length (s_pairing_key s1) = 32" "nr_key_proof n = hmac_sha256 (s_pairing_key s1) PAIRING_KEY_PROOF_MESSAGE"
    using m by (auto simp: pairing_key_matches_proof_def pairing_key_proof_def compare_digest_def rbind_eq_Inr
        split: if_split_asm)
  have f: "f = crypto_frame Crypto_REQUEST_NONCE (nr_nonce n @ nr_key_proof n) \<and> length (nr_nonce n) = 12"
    using n by (auto simp: rbind_eq_Inr parse_crypto_response_iff parse_nonce_response_Inr)
  show ?thesis using send f p s' by (auto simp: session_send_eq)
qed

lemma authenticate_Inr:
  assumes "authenticate send s = (Inr u, s')"
  shows "\<exists>v nonce f l1 l2 l3. v \<in> {1, 2} \<and>
    send (crypto_frame Crypto_SELECT_PROTOCOL_VERSION [word_of_int v]) True l1 = (Inr f, l2) \<and>
    (f = crypto_frame Crypto_SELECT_PROTOCOL_VERSION [word_of_int v] \<or> f = crypto_frame Crypto_ACK [0x03]) \<and>
    send (crypto_frame Crypto_REQUEST_NONCE []) True l2 =
      (Inr (crypto_frame Crypto_REQUEST_NONCE
        (nonce @ hmac_sha256 (s_pairing_key s) PAIRING_KEY_PROOF_MESSAGE)), l3) \<and>
    s' = s\<lparr>s_link := l3, s_nonce := Some nonce\<rparr> \<and> length nonce = 12 \<and> length (s_pairing_key s) = 32"
proof -
  from assms obtain v u2 s1 s2 where n: "negotiate_version send s = (Inr v, s1)"
    and v: "select_version send v s1 = (Inr u2, s2)" and f: "fetch_nonce send s2 = (Inr u, s')"
    unfolding authenticate_def sbind_Inr by blast
  from negotiate_version_Inr [OF n] have "v \<in> {1, 2}" and s1: "\<exists>l. s1 = s\<lparr>s_link := l\<rparr>" by auto
  then obtain l1 where l1: "s1 = s\<lparr>s_link := l1\<rparr>" by blast
  obtain g l2 where g: "send (crypto_frame Crypto_SELECT_PROTOCOL_VERSION [word_of_int v]) True (s_link s1) = (Inr g, l2)"
    "s2 = s1\<lparr>s_link := l2\<rparr>"
    "g = crypto_frame Crypto_SELECT_PROTOCOL_VERSION [word_of_int v] \<or> g = crypto_frame Crypto_ACK [0x03]"
    using select_version_Inr [OF v \<open>v \<in> {1, 2}\<close>] by blast
  obtain nonce l3 where n: "send (crypto_frame Crypto_REQUEST_NONCE []) True (s_link s2) =
      (Inr (crypto_frame Crypto_REQUEST_NONCE
        (nonce @ hmac_sha256 (s_pairing_key s2) PAIRING_KEY_PROOF_MESSAGE)), l3)"
    "s' = s2\<lparr>s_link := l3, s_nonce := Some nonce\<rparr>" "length nonce = 12" "length (s_pairing_key s2) = 32"
    using fetch_nonce_Inr [OF f] by blast
  show ?thesis
    by (rule exI [of _ v], rule exI [of _ nonce], rule exI [of _ g], rule exI [of _ "s_link s1"],
        rule exI [of _ l2], rule exI [of _ l3]) (use \<open>v \<in> {1, 2}\<close> g n l1 in simp)
qed

subsection \<open>Properties\<close>

text \<open>C29: The counter blocks of a session's requests: two requests under one nonce use the same
  block exactly when their numbers in the session are equal modulo 32767 (the counter wraps from
  0x7FFF to 1 without a new nonce), and no request block is ever a response block.\<close>

theorem request_counter_blocks:
  "(send_iv nonce (s_counter (session_after m (session_new key l))) =
      send_iv nonce (s_counter (session_after n (session_new key l))) \<longleftrightarrow> m mod 32767 = n mod 32767) \<and>
   send_iv nonce (s_counter (session_after m (session_new key l))) \<noteq>
     receive_iv nonce (s_counter (session_after n (session_new key l)))"
proof -
  let ?c = "\<lambda>n. (next_counter ^^ n) 1"
  have c: "s_counter (session_after n (session_new key l)) = ?c n" for n
    by (simp add: session_after_ids session_new_def)
  have r: "1 \<le> ?c n \<and> ?c n \<le> MAX_COUNTER" for n
    using counter.iterate_range [of 1 n] by (simp add: MAX_COUNTER_def)
  have "send_iv nonce (?c m) = send_iv nonce (?c n) \<longleftrightarrow> ?c m = ?c n"
    using to_bytes_big_2_inject r by (auto simp: send_iv_def)
  also have "\<dots> \<longleftrightarrow> int m mod MAX_COUNTER = int n mod MAX_COUNTER"
    by (rule counter.iterate_eq_iff) (simp_all add: MAX_COUNTER_def)
  also have "\<dots> \<longleftrightarrow> m mod 32767 = n mod 32767"
  proof -
    have "int x mod MAX_COUNTER = int (x mod 32767)" for x by (simp add: MAX_COUNTER_def of_nat_mod)
    then show ?thesis by (simp only: of_nat_eq_iff)
  qed
  finally show ?thesis using send_iv_not_receive_iv r c by simp
qed

end
