(* ===== verification/Shade_Client.thy ===== *)
theory Shade_Client
  imports Session
begin

text \<open>
  \<open>TiltShadeClient\<close> of \<open>tilt/ble.py\<close>: the read with one retry, the bounded position change
  with its read-back, and the lifetime of a connection.

  The BLE client belongs to the third-party package \<open>bleak\<close> (or to whoever passes a client
  factory): its calls are the fields of \<open>ble_env\<close>, functions of a state \<open>'w\<close> of the outside
  world that may raise anything. \<open>env_send\<close> is \<open>_send_frame\<close> over that client and
  \<open>env_new_session\<close>, \<open>env_start_worker\<close> and \<open>env_stop_worker\<close> are the session's own queues and worker
  task. The global lock makes sessions run one after the other (\<open>Concurrent_Clients\<close>), as the functions here
  do; the pauses are left out: a cancellation during one behaves as one raised by the next call.
\<close>

record shade_client =
  cl_mac :: string
  cl_shade_id :: string
  cl_pairing_key :: bytes
  cl_allow_position_writes :: bool

definition client_new :: "string \<Rightarrow> bytes \<Rightarrow> string option \<Rightarrow> bool \<Rightarrow> exc + shade_client" where
  "client_new mac pairing_key shade_id allow_position_writes =
     (if length pairing_key \<noteq> 32
      then Inl (TiltProtocolError ''Tilt pairing keys must be exactly 32 bytes.'')
      else Inr \<lparr>cl_mac = mac,
                cl_shade_id = (case shade_id of None \<Rightarrow> mac | Some i \<Rightarrow> if i = [] then mac else i),
                cl_pairing_key = pairing_key, cl_allow_position_writes = allow_position_writes\<rparr>)"

subsection \<open>Changing the position\<close>

definition moved_toward :: "shade_status \<Rightarrow> shade_status \<Rightarrow> int \<Rightarrow> exc + bool" where
  "moved_toward before after target =
     rbind (position_percent before) (\<lambda>b. rbind (position_percent after) (\<lambda>a.
       Inr (if target > b then a > b else a < b)))"

text \<open>The comparison of a read-back with the status before the write.\<close>

definition verify_move :: "string \<Rightarrow> shade_status \<Rightarrow> shade_status \<Rightarrow> int \<Rightarrow> exc + shade_status \<times> bool" where
  "verify_move message before after target =
     rbind (position_percent after) (\<lambda>a.
       if a = target then Inr (after, True)
       else rbind (moved_toward before after target) (\<lambda>moved.
         if \<not> moved then Inl (PositionVerificationPending message after)
         else Inr (after, True)))"

definition after_write_timeout ::
  "cipher \<Rightarrow> 'l sender_fun \<Rightarrow> shade_status \<Rightarrow> int \<Rightarrow> ('l session, shade_status \<times> bool) operation" where
  "after_write_timeout ctr send before target s =
     (case read_status ctr send s of
        (Inl readback_error, s1) \<Rightarrow>
          (if isinstance_exc readback_error [Exception_class]
           then (Inl (AmbiguousPositionWrite ''Position write timed out and readback also failed.''), s1)
           else (Inl readback_error, s1))
      | (Inr after, s1) \<Rightarrow>
          (verify_move ''Position write timed out and the responding shade did not move toward the target.''
             before after target, s1))"

definition after_write ::
  "cipher \<Rightarrow> 'l sender_fun \<Rightarrow> shade_status \<Rightarrow> int \<Rightarrow> ('l session, shade_status \<times> bool) operation" where
  "after_write ctr send before target =
     sbind (read_status ctr send) (\<lambda>after.
       yields (verify_move
         ''Position write completed and the responding shade did not move toward the target.''
         before after target))"

definition position_operation ::
  "cipher \<Rightarrow> 'l sender_fun \<Rightarrow> int \<Rightarrow> ('l session, shade_status \<times> bool) operation" where
  "position_operation ctr send target =
     sbind (read_status ctr send) (\<lambda>before.
     sbind (yields (position_percent before)) (\<lambda>b.
       if b = target then yields (Inr (before, False))
       else (\<lambda>s. case set_position ctr send target s of
            (Inl e, s1) \<Rightarrow>
              (if isinstance_exc e [TiltBleTimeout_class] then after_write_timeout ctr send before target s1
               else (Inl e, s1))
          | (Inr _, s1) \<Rightarrow> after_write ctr send before target s1)))"

subsection \<open>Connections\<close>

record 'w ble_env =
  env_factory :: "string \<Rightarrow> 'w \<Rightarrow> (exc + unit) \<times> 'w"
  env_is_connected :: "'w \<Rightarrow> bool"
  env_connect :: "'w \<Rightarrow> (exc + unit) \<times> 'w"
  env_new_session :: "'w \<Rightarrow> 'w"
  env_start_notify :: "'w \<Rightarrow> (exc + unit) \<times> 'w"
  env_start_worker :: "'w \<Rightarrow> 'w"
  env_stop_worker :: "'w \<Rightarrow> 'w"
  env_stop_notify :: "'w \<Rightarrow> (exc + unit) \<times> 'w"
  env_disconnect :: "'w \<Rightarrow> (exc + unit) \<times> 'w"
  env_send :: "'w sender_fun"
  env_cancelled :: "'w \<Rightarrow> bool"

text \<open>The client factory: the caller's, or \<open>bleak\<close>'s client when the package is installed.\<close>

type_synonym 'w factory = "string \<Rightarrow> ('w, unit) operation"

definition default_client_factory :: "'w factory option \<Rightarrow> 'w factory" where
  "default_client_factory bleak mac w =
     (case bleak of
        None \<Rightarrow> (Inl (TiltBleError ''The Tilt bridge requires the bleak package.''), w)
      | Some BleakClient \<Rightarrow> BleakClient mac w)"

definition client_factory :: "'w factory option \<Rightarrow> 'w factory option \<Rightarrow> 'w factory" where
  "client_factory custom bleak = (case custom of Some factory \<Rightarrow> factory | None \<Rightarrow> default_client_factory bleak)"

text \<open>\<open>session.start()\<close>: the worker task is created when the subscription has been made.\<close>

definition start_session :: "'w ble_env \<Rightarrow> ('w, unit) operation" where
  "start_session env w =
     (case env_start_notify env w of
        (Inl e, w1) \<Rightarrow> (Inl e, w1)
      | (Inr _, w1) \<Rightarrow> (Inr (), env_start_worker env w1))"

text \<open>
  \<open>session.stop()\<close>: cancelling the worker, if there is one, never raises; \<open>stop_notify\<close> may.
\<close>

definition stop_session :: "'w ble_env \<Rightarrow> ('w, unit) operation" where
  "stop_session env w =
     (case env_stop_notify env (env_stop_worker env w) of
        (Inl e, w1) \<Rightarrow> (if isinstance_exc e [Exception_class] then Inr () else Inl e, w1)
      | (Inr _, w1) \<Rightarrow> (Inr (), w1))"

definition disconnect_client :: "'w ble_env \<Rightarrow> ('w, unit) operation" where
  "disconnect_client env w =
     (case env_disconnect env w of
        (Inl e, w1) \<Rightarrow>
          (if isinstance_exc e [Exception_class]
           then (if env_is_connected env w1
                 then Inl (TiltBleCleanupError ''Tilt BLE client disconnect failed.'') else Inr ())
           else Inl e, w1)
      | (Inr _, w1) \<Rightarrow> (Inr (), w1))"

text \<open>\<open>_close_ble_client\<close>: an exception of \<open>stop\<close> is raised again after the disconnect.\<close>

definition close_ble_client :: "'w ble_env \<Rightarrow> bool \<Rightarrow> ('w, unit) operation" where
  "close_ble_client env has_session w =
     (let (stopped, w1) = (if has_session then stop_session env w else (Inr (), w))
      in case disconnect_client env w1 of
           (Inl e, w2) \<Rightarrow> (Inl e, w2)
         | (Inr _, w2) \<Rightarrow>
             (case stopped of
                Inl e \<Rightarrow> (Inl e, w2)
              | Inr _ \<Rightarrow>
                  (if env_is_connected env w2
                   then Inl (TiltBleCleanupError ''Tilt BLE client remained connected after disconnect.'')
                   else Inr (), w2)))"

text \<open>
  \<open>_await_cancellation_safe_cleanup\<close>: the cleanup always runs to its end. When the caller is
  cancelled meanwhile, an exception of the cleanup is only logged and the cancellation goes on. A
  second cancellation is passed on to the cleanup's task, where it is the \<open>CancelledError\<close> of the
  operation of \<open>env\<close> that is awaited.
\<close>

definition cancellation_safe_cleanup :: "'w ble_env \<Rightarrow> bool \<Rightarrow> ('w, unit) operation" where
  "cancellation_safe_cleanup env has_session w =
     (let (r, w1) = close_ble_client env has_session w
      in (if env_cancelled env w then Inl CancelledError else r, w1))"

text \<open>The body of the \<open>try\<close>: whether a session object was created, and the outcome.\<close>

definition connect_client :: "'w ble_env \<Rightarrow> shade_client \<Rightarrow> ('w, unit) operation" where
  "connect_client env client w =
     (let (r, w1) = (if \<not> env_is_connected env w then env_connect env w else (Inr (), w))
      in case r of
           Inl e \<Rightarrow> (Inl e, w1)
         | Inr _ \<Rightarrow>
             (if \<not> env_is_connected env w1
              then Inl (TiltBleError (''Unable to connect to configured shade '' @
                     cl_shade_id client @ ''.''))
              else Inr (), w1))"

definition session_body ::
  "'w ble_env \<Rightarrow> shade_client \<Rightarrow> ('w session, 'r) operation \<Rightarrow> 'w \<Rightarrow> (exc + 'r) \<times> bool \<times> 'w" where
  "session_body env client operate w =
     (case connect_client env client w of
        (Inl e, w1) \<Rightarrow> (Inl e, False, w1)
      | (Inr _, w1) \<Rightarrow>
          (case start_session env (env_new_session env w1) of
             (Inl e, w2) \<Rightarrow> (Inl e, True, w2)
           | (Inr _, w2) \<Rightarrow>
               (let (r, s) = sbind (authenticate (env_send env)) (\<lambda>_. operate)
                      (session_new (cl_pairing_key client) w2)
                in (r, True, s_link s))))"

definition run_session ::
  "'w ble_env \<Rightarrow> shade_client \<Rightarrow> ('w session, 'r) operation \<Rightarrow> ('w, 'r) operation" where
  "run_session env client operate w =
     (case env_factory env (cl_mac client) w of
        (Inl e, w1) \<Rightarrow> (Inl e, w1)
      | (Inr _, w1) \<Rightarrow>
          (let (r, has_session, w2) = session_body env client operate w1
           in case cancellation_safe_cleanup env has_session w2 of
                (Inl e, w3) \<Rightarrow> (Inl e, w3)
              | (Inr _, w3) \<Rightarrow> (r, w3)))"

definition TRANSIENT_ERRORS :: "exc_class list" where
  "TRANSIENT_ERRORS =
     [BleakError_class, TiltBleError_class, TiltProtocolError_class, TimeoutError_class]"

definition client_read_status :: "cipher \<Rightarrow> 'w ble_env \<Rightarrow> shade_client \<Rightarrow> ('w, shade_status) operation" where
  "client_read_status ctr env client w =
     (case run_session env client (read_status ctr (env_send env)) w of
        (Inr status, w1) \<Rightarrow> (Inr status, w1)
      | (Inl e, w1) \<Rightarrow>
          (if isinstance_exc e [AuthenticationError_class] then (Inl e, w1)
           else if isinstance_exc e TRANSIENT_ERRORS
           then run_session env client (read_status ctr (env_send env)) w1
           else (Inl e, w1)))"

definition set_position_and_read_status ::
  "cipher \<Rightarrow> 'w ble_env \<Rightarrow> shade_client \<Rightarrow> pyval \<Rightarrow> ('w, shade_status \<times> bool) operation" where
  "set_position_and_read_status ctr env client position =
     (if \<not> cl_allow_position_writes client
      then yields (Inl (TiltBleError ''Position writes are not enabled for this shade.''))
      else case position of
          PyInt target \<Rightarrow>
            (if \<not> (0 \<le> target \<and> target \<le> 100)
             then yields (Inl (TiltProtocolError ''Position must be between 0 and 100 percent.''))
             else run_session env client (position_operation ctr (env_send env) target))
        | _ \<Rightarrow> yields (Inl (TiltProtocolError ''Position must be an integer percent.'')))"

subsection \<open>What a position change sends\<close>

lemma op_growsD:
  "op_grows n good R key m \<Longrightarrow> m s = (r, s') \<Longrightarrow> s_pairing_key s = key \<Longrightarrow>
     grows n good R (s_link s) (s_link s')"
  unfolding op_grows_def by blast

lemma op_grows_handle:
  assumes "op_grows m good R key f" and "\<And>e. op_grows n good R key (h e)"
    and "\<And>x. op_grows n good R key (g x)"
  shows "op_grows (m + n) good R key (\<lambda>s. case f s of
      (Inl e, s1) \<Rightarrow> (if P e then h e s1 else (Inl e, s1)) | (Inr x, s1) \<Rightarrow> g x s1)"
  unfolding op_grows_def
proof (intro allI impI)
  fix s r s'
  assume run: "(case f s of (Inl e, s1) \<Rightarrow> (if P e then h e s1 else (Inl e, s1))
      | (Inr x, s1) \<Rightarrow> g x s1) = (r, s')" and key: "s_pairing_key s = key"
  obtain r1 s1 where f: "f s = (r1, s1)" by fastforce
  with assms(1) key have f1: "s_pairing_key s1 = key" "grows m good R (s_link s) (s_link s1)"
    by (auto simp: op_grows_def)
  have "s_pairing_key s' = key \<and> grows n good R (s_link s1) (s_link s')"
  proof (cases r1)
    case (Inl e)
    with run f have "(if P e then h e s1 else (Inl e, s1)) = (r, s')" by simp
    then show ?thesis using f1(1) assms(2) [of e]
      by (cases "P e") (auto simp: op_grows_def intro: grows_refl)
  next
    case (Inr x)
    with run f have "g x s1 = (r, s')" by simp
    then show ?thesis using f1(1) assms(3) [of x] by (auto simp: op_grows_def)
  qed
  then show "s_pairing_key s' = key \<and> grows (m + n) good R (s_link s) (s_link s')"
    using f1(2) grows_trans by blast
qed

context frame_link
begin

lemma op_grows_position_operation:
  "op_grows 1 (session_request ctr key target)
    (trace_ok ready air chunks_for base) key (position_operation ctr (traced send air) target)"
proof -
  let ?good = "session_request ctr key target"
  let ?R = "trace_ok ready air chunks_for base" and ?send = "traced send air"
  have h: "op_grows 0 ?good ?R key (after_write_timeout ctr ?send before target)" for before
  proof -
    let ?v = "verify_move ''Position write timed out and the responding shade did not move toward the target.''"
    let ?x = "AmbiguousPositionWrite ''Position write timed out and readback also failed.''"
    have "op_grows (0 + 0) ?good ?R key (\<lambda>s. case read_status ctr ?send s of
        (Inl e, s1) \<Rightarrow> (if isinstance_exc e [Exception_class] then yields (Inl ?x) s1 else (Inl e, s1))
      | (Inr after, s1) \<Rightarrow> yields (?v before after target) s1)"
      by (intro op_grows_handle op_grows_read_status op_grows_yields)
    then show ?thesis unfolding after_write_timeout_def [abs_def] yields_def by simp
  qed
  have g: "op_grows 0 ?good ?R key (after_write ctr ?send before target)" for before
    unfolding after_write_def by (intro op_grows_reads op_grows_read_status op_grows_yields)
  have attempt: "op_grows (1 + 0) ?good ?R key (\<lambda>s. case set_position ctr ?send target s of
        (Inl e, s1) \<Rightarrow> (if isinstance_exc e [TiltBleTimeout_class]
           then after_write_timeout ctr ?send before target s1 else (Inl e, s1))
      | (Inr _, s1) \<Rightarrow> after_write ctr ?send before target s1)" for before
    by (intro op_grows_handle op_grows_set_position h g)
  have "op_grows (0 + 1) ?good ?R key (position_operation ctr ?send target)"
    unfolding position_operation_def
  proof (rule op_grows_sbind [OF op_grows_read_status])
    fix before
    have "op_grows (0 + 1) ?good ?R key (sbind (yields (position_percent before)) (\<lambda>b.
       if b = target then yields (Inr (before, False))
       else (\<lambda>s. case set_position ctr ?send target s of
            (Inl e, s1) \<Rightarrow>
              (if isinstance_exc e [TiltBleTimeout_class] then after_write_timeout ctr ?send before target s1
               else (Inl e, s1))
          | (Inr _, s1) \<Rightarrow> after_write ctr ?send before target s1)))"
      using attempt [of before] by (intro op_grows_sbind op_grows_yields) (simp add: op_grows_yields)
    then show "op_grows 1 ?good ?R key (sbind (yields (position_percent before)) (\<lambda>b.
       if b = target then yields (Inr (before, False))
       else (\<lambda>s. case set_position ctr ?send target s of
            (Inl e, s1) \<Rightarrow>
              (if isinstance_exc e [TiltBleTimeout_class] then after_write_timeout ctr ?send before target s1
               else (Inl e, s1))
          | (Inr _, s1) \<Rightarrow> after_write ctr ?send before target s1)))" by simp
  qed
  then show ?thesis by simp
qed

lemma position_session_trace:
  assumes "ctr_cipher ctr" and "ready l"
    and "sbind (authenticate (traced send air)) (\<lambda>_. position_operation ctr (traced send air) target)
      (session_new key ([], l)) = (r, s')"
  shows "\<forall>e \<in> set (fst (s_link s')). read_request ctr key (fst e) \<or> position_request ctr key target (fst e)"
    "length (filter (\<lambda>e. any_position_request ctr (fst e)) (fst (s_link s'))) \<le> 1"
    "\<forall>e \<in> set (fst (s_link s')). any_position_request ctr (fst e) \<longrightarrow>
       position_request ctr key target (fst e) \<and> (\<exists>l. prefix (snd (snd e)) (chunks_for (fst e) l))"
    "air (snd (s_link s')) = air l @ concat (map (snd \<circ> snd) (fst (s_link s')))"
proof -
  let ?R = "trace_ok ready air chunks_for (air l)" and ?trace = "fst (s_link s')"
  have "op_grows (0 + 1) (session_request ctr key target) ?R key
      (sbind (authenticate (traced send air)) (\<lambda>_. position_operation ctr (traced send air) target))"
    by (intro op_grows_sbind op_grows_authenticate op_grows_position_operation)
  from op_growsD [OF this assms(3)] have g: "grows 1 (session_request ctr key target) ?R ([], l) (s_link s')"
    by (simp add: session_new_def)
  moreover have "?R ([], l)" using assms(2) by (simp add: trace_ok_def)
  ultimately have R: "?R (s_link s')" by (simp add: grows_def)
  have sent: "if unretried e then position_request ctr key target (fst e) else read_request ctr key (fst e)"
    if "e \<in> set ?trace" for e
    using g that by (fastforce simp: grows_def session_request_def unretried_def)
  then show "\<forall>e \<in> set ?trace. read_request ctr key (fst e) \<or> position_request ctr key target (fst e)" by (meson)
  have position: "unretried e" if "e \<in> set ?trace" "any_position_request ctr (fst e)" for e
    using sent [OF that(1)] read_request_not_position [OF assms(1)] that(2) by (auto split: if_split_asm)
  then have "filter (\<lambda>e. any_position_request ctr (fst e)) ?trace = filter (\<lambda>e. any_position_request ctr (fst e)) (filter unretried ?trace)"
    by (auto intro: filter_cong)
  then have "length (filter (\<lambda>e. any_position_request ctr (fst e)) ?trace) \<le> length (filter unretried ?trace)"
    by (metis length_filter_le)
  moreover have "length (filter unretried ?trace) \<le> 1" using g by (auto simp: grows_def)
  ultimately show "length (filter (\<lambda>e. any_position_request ctr (fst e)) ?trace) \<le> 1" by linarith
  show "\<forall>e \<in> set ?trace. any_position_request ctr (fst e) \<longrightarrow>
       position_request ctr key target (fst e) \<and> (\<exists>l. prefix (snd (snd e)) (chunks_for (fst e) l))"
    using R sent position by (fastforce simp: trace_ok_def)
  show "air (snd (s_link s')) = air l @ concat (map (snd \<circ> snd) ?trace)" using R by (simp add: trace_ok_def)
qed

end

subsection \<open>What a position change reports\<close>

lemma verify_move_Inr:
  "verify_move msg before after target = Inr (st, moved) \<longleftrightarrow>
     st = after \<and> moved \<and>
     (\<exists>a. position_percent after = Inr a \<and>
        (a = target \<or>
         (\<exists>b. position_percent before = Inr b \<and> (if b < target then b < a else a < b))))"
  by (cases "position_percent after"; cases "position_percent before")
    (auto simp: verify_move_def moved_toward_def split: if_split_asm)

lemma position_operation_Inr:
  assumes "position_operation ctr send target s = (Inr (status, moved), s')"
  shows "\<exists>before b a s1. read_status ctr send s = (Inr before, s1) \<and> position_percent before = Inr b \<and>
    position_percent status = Inr a \<and>
    (if moved then b \<noteq> target \<and> (a = target \<or> (if b < target then b < a else a < b))
     else status = before \<and> a = target \<and> s' = s1)"
proof -
  from assms obtain before s1 where rd: "read_status ctr send s = (Inr before, s1)"
    and k: "sbind (yields (position_percent before)) (\<lambda>b.
       if b = target then yields (Inr (before, False))
       else (\<lambda>s. case set_position ctr send target s of
            (Inl e, s1) \<Rightarrow>
              (if isinstance_exc e [TiltBleTimeout_class] then after_write_timeout ctr send before target s1
               else (Inl e, s1))
          | (Inr _, s1) \<Rightarrow> after_write ctr send before target s1)) s1 = (Inr (status, moved), s')"
    unfolding position_operation_def sbind_Inr by blast
  from k obtain b where b: "position_percent before = Inr b"
    by (cases "position_percent before") auto
  with k have rest: "(if b = target then yields (Inr (before, False))
       else (\<lambda>s. case set_position ctr send target s of
            (Inl e, s1) \<Rightarrow>
              (if isinstance_exc e [TiltBleTimeout_class] then after_write_timeout ctr send before target s1
               else (Inl e, s1))
          | (Inr _, s1) \<Rightarrow> after_write ctr send before target s1)) s1 = (Inr (status, moved), s')"
    by simp
  show ?thesis
  proof (cases "b = target")
    case True
    then show ?thesis using rest rd b by auto
  next
    case False
    then obtain msg where "verify_move msg before status target = Inr (status, moved)"
      using rest
      by (auto simp: after_write_timeout_def after_write_def sbind_Inr verify_move_Inr
          split: prod.split_asm sum.split_asm if_split_asm)
    then show ?thesis using False rd b by (fastforce simp: verify_move_Inr)
  qed
qed

lemma frame_of_one_chunk:
  assumes "f \<noteq> []" and "length f \<le> MAX_BLE_PAYLOAD" and "prefix cs (frame_chunks f l)"
  shows "length cs \<le> 1"
  using prefix_length_le [OF assms(3)] assms(1,2)
  by (simp add: frame_chunks_def chunks_of.simps [of f])

subsection \<open>Closing\<close>

lemma isinstance_Exception: "isinstance_exc e [Exception_class] \<longleftrightarrow> e \<noteq> CancelledError"
  by (cases e) (simp_all add: isinstance_exc_def)

text \<open>What the cleanup raises: it always ends with the disconnect.\<close>

lemma stop_session_outcome:
  "stop_session env w = (stopped, w1) \<Longrightarrow> stopped = Inr () \<or> stopped = Inl CancelledError"
  by (auto simp: stop_session_def isinstance_Exception split: if_split_asm sum.split_asm prod.split_asm)

lemma disconnect_client_outcome:
  "env_disconnect env w = (d, w1) \<Longrightarrow> disconnect_client env w =
     (if d = Inl CancelledError then Inl CancelledError
      else if d \<noteq> Inr () \<and> env_is_connected env w1
      then Inl (TiltBleCleanupError ''Tilt BLE client disconnect failed.'') else Inr (), w1)"
  by (cases d) (auto simp: disconnect_client_def isinstance_Exception)

lemma close_ble_client_disconnects:
  assumes "close_ble_client env has_session w = (c, w')"
  shows "\<exists>d. env_disconnect env (if has_session then snd (stop_session env w) else w) = (d, w') \<and>
    (if d = Inl CancelledError then c = Inl CancelledError
     else if has_session \<and> fst (stop_session env w) = Inl CancelledError
       then c = Inl CancelledError \<or> env_is_connected env w' \<and> (\<exists>m. c = Inl (TiltBleCleanupError m))
     else if env_is_connected env w' then \<exists>m. c = Inl (TiltBleCleanupError m) else c = Inr ())"
proof -
  let ?w1 = "if has_session then snd (stop_session env w) else w"
  obtain stopped where s: "(if has_session then stop_session env w else (Inr (), w)) = (stopped, ?w1)"
    and st: "stopped = (if has_session \<and> fst (stop_session env w) = Inl CancelledError then Inl CancelledError else Inr ())"
    using stop_session_outcome [of env w] by (cases "stop_session env w") auto
  obtain d w2 where d: "env_disconnect env ?w1 = (d, w2)" by fastforce
  note close = assms [unfolded close_ble_client_def s Let_def prod.case disconnect_client_outcome [OF d]]
  then have "w2 = w'" by (auto split: sum.split_asm if_split_asm)
  then show ?thesis using d close st
    by (cases "d = Inl CancelledError"; cases "has_session \<and> fst (stop_session env w) = Inl CancelledError";
        cases "d = Inr ()"; cases "env_is_connected env w'") auto
qed

lemma run_session_closed:
  assumes "env_factory env (cl_mac client) w = (Inr (), w0)"
    and "run_session env client operate w = (r, w')"
  shows "\<exists>x has_session w1 d. session_body env client operate w0 = (x, has_session, w1) \<and>
    env_disconnect env (if has_session then snd (stop_session env w1) else w1) = (d, w') \<and>
    (if env_cancelled env w1 \<or> d = Inl CancelledError then r = Inl CancelledError
     else if has_session \<and> fst (stop_session env w1) = Inl CancelledError
       then r = Inl CancelledError \<or> env_is_connected env w' \<and> (\<exists>m. r = Inl (TiltBleCleanupError m))
     else if env_is_connected env w' then \<exists>m. r = Inl (TiltBleCleanupError m) else r = x)"
proof -
  obtain x hs w1 where body: "session_body env client operate w0 = (x, hs, w1)" by (metis prod_cases3)
  obtain c w2 where close: "close_ble_client env hs w1 = (c, w2)" by fastforce
  have w2: "w2 = w'" and r: "r = (if env_cancelled env w1 then Inl CancelledError else case c of Inl e \<Rightarrow> Inl e | Inr _ \<Rightarrow> x)"
    using assms body close
    by (auto simp: run_session_def cancellation_safe_cleanup_def split: if_split_asm sum.split_asm)
  from close_ble_client_disconnects [OF close, unfolded w2] obtain d
    where "env_disconnect env (if hs then snd (stop_session env w1) else w1) = (d, w')"
      "(if d = Inl CancelledError then c = Inl CancelledError
     else if hs \<and> fst (stop_session env w1) = Inl CancelledError
       then c = Inl CancelledError \<or> env_is_connected env w' \<and> (\<exists>m. c = Inl (TiltBleCleanupError m))
     else if env_is_connected env w' then \<exists>m. c = Inl (TiltBleCleanupError m) else c = Inr ())" by blast
  then show ?thesis unfolding r using body
    by (intro exI [of _ x] exI [of _ hs] exI [of _ w1] exI [of _ d] conjI) (auto split: if_split_asm)
qed

subsection \<open>Properties\<close>

text \<open>C2: Over the real link, whatever the peer and the schedule do, an authenticated position
  change sends only handshake and status requests and at most one position request, for its target;
  that request is one chunk, and it is on the air at most once. Everything on the air belongs to a
  frame the session sent.\<close>

theorem position_frame_sent_once:
  assumes "ctr_cipher ctr" and "link_ready l"
    and "sbind (authenticate (traced exchange on_air))
        (\<lambda>_. position_operation ctr (traced exchange on_air) target) (session_new key ([], l)) = (r, s')"
  shows "(\<forall>e \<in> set (fst (s_link s')). read_request ctr key (fst e) \<or> position_request ctr key target (fst e)) \<and>
    length (filter (\<lambda>e. any_position_request ctr (fst e)) (fst (s_link s'))) \<le> 1 \<and>
    (\<forall>e \<in> set (fst (s_link s')). any_position_request ctr (fst e) \<longrightarrow>
       position_request ctr key target (fst e) \<and> length (snd (snd e)) \<le> 1) \<and>
    on_air (snd (s_link s')) = on_air l @ concat (map (snd \<circ> snd) (fst (s_link s')))"
proof -
  have "length cs \<le> 1" if "any_position_request ctr f" "prefix cs (frame_chunks f l)" for f cs l
    using any_position_request_length [OF assms(1) that(1)]
    by (intro frame_of_one_chunk [OF _ _ that(2)]) (auto simp: MAX_BLE_PAYLOAD_def)
  with link.position_session_trace [OF assms] show ?thesis by blast
qed

theorem position_frame_sent_once_witness:
  "\<exists>r s'. sbind (authenticate (traced exchange on_air))
        (\<lambda>_. position_operation xor_cipher (traced exchange on_air) 50)
        (session_new (replicate 32 7) ([], (link_new, [Notify [0, 1], Worker_take]))) = (r, s') \<and>
     length (filter (\<lambda>e. any_position_request xor_cipher (fst e)) (fst (s_link s'))) \<le> 1"
proof -
  let ?run = "sbind (authenticate (traced exchange on_air))
        (\<lambda>_. position_operation xor_cipher (traced exchange on_air) 50)
        (session_new (replicate 32 7) ([], (link_new, [Notify [0, 1], Worker_take])))"
  obtain r s' where run: "?run = (r, s')" by fastforce
  have "link_ready (link_new, [Notify [0, 1], Worker_take])"
    using link_inv_new by (simp add: link_ready_def link_new_def)
  from position_frame_sent_once [OF ctr_cipher_xor_cipher this run] run show ?thesis by blast
qed

text \<open>C30: Whatever the BLE client does and however the call ends, returned, raised or cancelled, a
  session that obtained a client disconnects it: the disconnect, with the world as the body and
  \<open>stop\<close> left it, is the last thing that happens. The call then raises \<open>CancelledError\<close> if it was
  cancelled during the cleanup or the disconnect was, \<open>TiltBleCleanupError\<close> if the client is connected
  after the disconnect, and otherwise has the outcome of its body; only a cancelled \<open>stop\<close> may hide a
  client that stayed connected.\<close>

theorem session_ends_disconnected:
  assumes "env_factory env (cl_mac client) w = (Inr (), w0)"
    and "run_session env client operate w = (r, w')"
  shows "\<exists>x has_session w1 d. session_body env client operate w0 = (x, has_session, w1) \<and>
    env_disconnect env (if has_session then snd (stop_session env w1) else w1) = (d, w') \<and>
    (if env_cancelled env w1 \<or> d = Inl CancelledError then r = Inl CancelledError
     else if has_session \<and> fst (stop_session env w1) = Inl CancelledError
       then r = Inl CancelledError \<or> env_is_connected env w' \<and> (\<exists>m. r = Inl (TiltBleCleanupError m))
     else if env_is_connected env w' then \<exists>m. r = Inl (TiltBleCleanupError m) else r = x)"
  using assms by (rule run_session_closed)

text \<open>A client whose subscription is cancelled; the world is whether it is connected.\<close>

definition cancelled_env :: "bool ble_env" where
  "cancelled_env =
     \<lparr>env_factory = (\<lambda>mac w. (Inr (), w)), env_is_connected = (\<lambda>w. w),
      env_connect = (\<lambda>w. (Inr (), True)), env_new_session = (\<lambda>w. w),
      env_start_notify = (\<lambda>w. (Inl CancelledError, w)),
      env_start_worker = (\<lambda>w. w), env_stop_worker = (\<lambda>w. w),
      env_stop_notify = (\<lambda>w. (Inr (), w)), env_disconnect = (\<lambda>w. (Inr (), False)),
      env_send = (\<lambda>f r w. (Inl TimeoutError, w)), env_cancelled = (\<lambda>w. False)\<rparr>"

theorem session_ends_disconnected_witness:
  "run_session cancelled_env
      \<lparr>cl_mac = ''AA'', cl_shade_id = ''AA'', cl_pairing_key = [], cl_allow_position_writes = True\<rparr>
      (yields (Inr ())) False =
    (Inl CancelledError, False)"
  (is "run_session _ ?client ?op False = _")
proof -
  obtain r w' where run: "run_session cancelled_env ?client ?op False = (r, w')" by fastforce
  have body: "session_body cancelled_env ?client ?op False = (Inl CancelledError, True, True)"
    by (simp add: session_body_def connect_client_def start_session_def cancelled_env_def)
  have factory: "env_factory cancelled_env (cl_mac ?client) False = (Inr (), False)" by (simp add: cancelled_env_def)
  have "env_disconnect cancelled_env v = (Inr (), False)" "fst (stop_session cancelled_env v) = Inr ()"
    "\<not> env_cancelled cancelled_env v" "env_is_connected cancelled_env v = v" for v
    by (simp_all add: cancelled_env_def stop_session_def)
  then show ?thesis using session_ends_disconnected [OF factory run] body by (auto simp: run split: if_split_asm)
qed

end
