(* ===== verification/Shade_Side.thy ===== *)
theory Shade_Side
  imports App_Layer
begin

text \<open>
  The peripheral's half of the protocol, as the repository states it in
  \<open>tests/tilt_helpers.py\<close>: the shade-side frame builders and the request handler of
  \<open>FakeShadeClient\<close> on whole frames; its chunk transport is in \<open>Fake_Device\<close>.

  The section on round trips shows that the library's codec and the shade's are inverse in both
  directions; \<open>handle_request\<close> is the peer the session theorems run against.
\<close>

subsection \<open>Frame builders\<close>

definition versions_response :: "int list \<Rightarrow> bytes" where
  "versions_response versions =
     crypto_frame Crypto_REQUEST_PROTOCOL_VERSIONS
       (word_of_int (int (length versions)) # map word_of_int versions)"

definition selection_response :: "byte \<Rightarrow> bytes" where
  "selection_response version = crypto_frame Crypto_SELECT_PROTOCOL_VERSION [version]"

definition nonce_response_frame :: "bytes \<Rightarrow> bytes \<Rightarrow> exc + bytes" where
  "nonce_response_frame nonce key =
     rbind (pairing_key_proof key) (\<lambda>p. Inr (crypto_frame Crypto_REQUEST_NONCE (nonce @ p)))"

definition encode_app_response ::
  "cipher \<Rightarrow> shade_command \<Rightarrow> bytes \<Rightarrow> bytes \<Rightarrow> bytes \<Rightarrow> int \<Rightarrow> int \<Rightarrow> bytes" where
  "encode_app_response ctr command payload key nonce counter message_id =
     (let header = to_bytes_big 2 counter;
          presentation =
            [word_of_int message_id OR PRESENTATION_RESPONSE_FLAG, shade_value command] @ payload;
          plaintext = presentation @ to_bytes_little 2 (crc16 (header @ presentation));
          iv = nonce @ [header ! 0 OR 0x80, header ! 1] @ [0, 0]
      in header @ aes_ctr ctr plaintext key iv)"

text \<open>\<open>presentation[1]\<close> and \<open>ShadeCommand(\<dots>)\<close> raise \<open>IndexError\<close> and \<open>ValueError\<close>.\<close>

definition decrypt_app_request ::
  "cipher \<Rightarrow> bytes \<Rightarrow> bytes \<Rightarrow> bytes \<Rightarrow> exc + int \<times> int \<times> shade_command \<times> bytes" where
  "decrypt_app_request ctr frame key nonce =
     (let header = take 2 frame;
          counter = from_bytes_big header AND MAX_COUNTER;
          plaintext = aes_ctr ctr (drop 2 frame) key (nonce @ header @ [0, 0])
      in rbind (verify_checksum header plaintext) (\<lambda>presentation.
         if length presentation < 2 then Inl (OtherException ''IndexError'')
         else case shade_command_of (presentation ! 1) of
             None \<Rightarrow> Inl (OtherException ''ValueError'')
           | Some command \<Rightarrow>
               Inr (counter, uint (presentation ! 0 AND 0x0F), command, drop 2 presentation)))"

subsection \<open>The fake shade\<close>

text \<open>
  \<open>fs_travel\<close> is \<open>travel_fraction\<close> as numerator and denominator; the quotients are
  far enough from a tie that the rounding error of the product never moves the result.
\<close>

record fake_shade =
  fs_key :: bytes
  fs_proof_key :: bytes
  fs_nonce :: bytes
  fs_versions :: "int list"
  fs_travel :: "int \<times> int"
  fs_position :: int
  fs_battery :: int
  fs_set_position_calls :: nat

definition fake_status :: "int \<Rightarrow> int \<Rightarrow> shade_status" where
  "fake_status raw battery =
     \<lparr>raw_position = raw, battery_percent = battery, charge_status = 0, calibrated = True\<rparr>"

definition handle_crypto :: "fake_shade \<Rightarrow> bytes \<Rightarrow> exc + bytes" where
  "handle_crypto shade frame =
     rbind (parse_crypto_response frame) (\<lambda>request.
       case cr_command request of
         Crypto_REQUEST_PROTOCOL_VERSIONS \<Rightarrow> Inr (versions_response (fs_versions shade))
       | Crypto_SELECT_PROTOCOL_VERSION \<Rightarrow>
           (case cr_payload request of
              [] \<Rightarrow> Inl (OtherException ''IndexError'')
            | v # _ \<Rightarrow> Inr (selection_response v))
       | Crypto_REQUEST_NONCE \<Rightarrow> nonce_response_frame (fs_nonce shade) (fs_proof_key shade)
       | Crypto_ACK \<Rightarrow> Inl (OtherException ''AssertionError''))"

definition travelled :: "int \<times> int \<Rightarrow> int \<Rightarrow> int \<Rightarrow> int" where
  "travelled travel position target =
     max 0 (min 100 (round_div (position * snd travel + (target - position) * fst travel) (snd travel)))"

definition handle_app :: "cipher \<Rightarrow> fake_shade \<Rightarrow> bytes \<Rightarrow> (exc + bytes) \<times> fake_shade" where
  "handle_app ctr shade frame =
     (case decrypt_app_request ctr frame (fs_key shade) (fs_nonce shade) of
        Inl e \<Rightarrow> (Inl e, shade)
      | Inr (counter, message_id, command, payload) \<Rightarrow>
          (let reply = (\<lambda>body. encode_app_response ctr command body (fs_key shade) (fs_nonce shade)
                 counter message_id)
           in if command = Shade_SET_POSITION then
                let target = from_bytes_little (take 2 payload) div 10
                in (Inr (reply []),
                    shade\<lparr>fs_position := travelled (fs_travel shade) (fs_position shade) target,
                          fs_set_position_calls := fs_set_position_calls shade + 1\<rparr>)
              else if command = Shade_GET_STATUS then
                (Inr (reply (status_payload (fake_status (fs_position shade * 10) (fs_battery shade)))),
                 shade)
              else if command = Shade_GET_BATTERY then
                (Inr (reply [word_of_int (fs_battery shade), 0]), shade)
              else (Inl (OtherException ''AssertionError''), shade)))"

definition handle_request :: "cipher \<Rightarrow> fake_shade \<Rightarrow> bytes \<Rightarrow> (exc + bytes) \<times> fake_shade" where
  "handle_request ctr shade frame =
     (if from_bytes_big (take 2 frame) AND CRYPTO_LAYER_FLAG \<noteq> 0
      then (handle_crypto shade frame, shade)
      else handle_app ctr shade frame)"

subsection \<open>Round trips\<close>

lemma encode_app_response_seal:
  "encode_app_response ctr cmd payload key nonce c mid =
     seal ctr key (receive_iv nonce c) c
       ([word_of_int mid OR PRESENTATION_RESPONSE_FLAG, shade_value cmd] @ payload)"
  by (simp add: encode_app_response_def seal_def receive_iv_def Let_def)

lemma low_nibble:
  assumes "0 \<le> mid" and "mid \<le> 15"
  shows "word_of_int mid AND (0x0F :: byte) = word_of_int mid"
    and "uint (word_of_int mid :: byte) = mid"
proof -
  show u: "uint (word_of_int mid :: byte) = mid" using assms by (simp add: uint_byte_of_int)
  have "(0x0F :: int) = mask 4" by (simp add: mask_eq_exp_minus_1)
  then have "mid AND 0x0F = take_bit 4 mid" by (simp only: take_bit_eq_mask)
  then have "mid AND 0x0F = mid" using assms by (simp add: take_bit_int_eq_self)
  then have "uint (word_of_int mid AND (0x0F :: byte)) = uint (word_of_int mid :: byte)"
    by (simp add: unsigned_and_eq u)
  then show "word_of_int mid AND (0x0F :: byte) = word_of_int mid" by (rule word_uint_eqI)
qed

lemma response_flags:
  assumes "0 \<le> mid" and "mid \<le> 15"
  defines "flags \<equiv> word_of_int mid OR PRESENTATION_RESPONSE_FLAG"
  shows "flags AND PRESENTATION_RESPONSE_FLAG \<noteq> 0"
    and "flags AND PRESENTATION_RESERVED_FLAGS = 0" and "uint (flags AND 0x0F) = mid"
proof -
  note nib = low_nibble [OF assms(1,2)]
  have "word_of_int mid AND (m :: byte) = word_of_int mid AND (0x0F AND m)" for m
    using nib(1) by (metis and.assoc)
  from this [of "0x30"] this [of "0x40"]
  show "flags AND PRESENTATION_RESPONSE_FLAG \<noteq> 0"
    and "flags AND PRESENTATION_RESERVED_FLAGS = 0" and "uint (flags AND 0x0F) = mid"
    using nib by (simp_all add: flags_def bit.conj_disj_distrib2 PRESENTATION_RESPONSE_FLAG_def
      PRESENTATION_RESERVED_FLAGS_def)
qed

lemma decode_presentation_response:
  assumes "0 \<le> mid" and "mid \<le> 15"
  shows "decode_presentation cmd mid' c
      ([word_of_int mid OR PRESENTATION_RESPONSE_FLAG, shade_value rcmd] @ payload) =
    (if mid \<noteq> mid'
     then Inl (TiltProtocolError ''Application response message id does not match request.'')
     else if rcmd = Shade_ACK \<and> (payload = [] \<or> payload ! 0 \<noteq> shade_value cmd)
     then Inl (TiltProtocolError ''Application ACK does not match the requested command.'')
     else if rcmd \<noteq> Shade_ACK \<and> rcmd \<noteq> cmd
     then Inl (TiltProtocolError ''Application response command does not match request.'')
     else Inr \<lparr>ar_command = rcmd, ar_message_id = mid, ar_counter = c, ar_payload = payload\<rparr>)"
  using response_flags [OF assms] by (simp add: decode_presentation_def Let_def)

text \<open>What the library decodes of a frame the shade built, for any request it waits on.\<close>

lemma decode_app_response:
  assumes "ctr_cipher ctr" and "length key = 32" and "length nonce = 12" and "cmd \<in> RUNTIME_COMMANDS"
    and "1 \<le> c" and "c \<le> MAX_COUNTER" and "0 \<le> mid" and "mid \<le> 15"
  shows "decode_application_response ctr (encode_app_response ctr cmd payload key nonce c mid)
      key nonce cmd mid (Some c) =
    Inr \<lparr>ar_command = cmd, ar_message_id = mid, ar_counter = c, ar_payload = payload\<rparr>"
  using assms decode_presentation_response [OF assms(7,8), of cmd mid c cmd payload]
  by (simp add: encode_app_response_seal decode_sealed RUNTIME_COMMANDS_iff)

text \<open>What the shade decrypts of a frame the library built.\<close>

lemma decrypt_encoded_request:
  assumes "ctr_cipher ctr" and "encode_application_request ctr cmd payload key nonce c mid = Inr frame"
  shows "decrypt_app_request ctr frame key nonce = Inr (c, mid, cmd, payload)"
proof -
  from assms(2) have pre: "length key = 32" "length nonce = 12" "1 \<le> c" "c \<le> MAX_COUNTER"
      "0 \<le> mid" "mid \<le> 15"
    and frame: "frame = seal ctr key (send_iv nonce c) c ([word_of_int mid, shade_value cmd] @ payload)"
    by (auto simp: encode_application_request_Inr)
  have iv: "length (send_iv nonce c) = 16" using pre by simp
  note parts = seal_parts [OF assms(1) pre(1) iv, of c "[word_of_int mid, shade_value cmd] @ payload"]
  have "verify_checksum (to_bytes_big 2 c) (aes_ctr ctr (drop 2 frame) key (send_iv nonce c)) =
      Inr ([word_of_int mid, shade_value cmd] @ payload)"
    unfolding frame parts by (rule verify_append_checksum) simp
  moreover have "take 2 frame = to_bytes_big 2 c" unfolding frame by (rule parts(1))
  ultimately show ?thesis
    using header_of_counter [OF pre(3,4)] low_nibble [OF pre(5,6)]
    by (simp add: decrypt_app_request_def send_iv_def Let_def)
qed

text \<open>An application frame is told from a handshake frame by its header.\<close>

lemma header_of_request:
  assumes "ctr_cipher ctr" and "encode_application_request ctr cmd payload key nonce c mid = Inr frame"
  shows "from_bytes_big (take 2 frame) = c"
proof -
  from assms(2) have pre: "length key = 32" "length nonce = 12" "1 \<le> c" "c \<le> MAX_COUNTER"
    and frame: "frame = seal ctr key (send_iv nonce c) c ([word_of_int mid, shade_value cmd] @ payload)"
    by (auto simp: encode_application_request_Inr)
  have "length (send_iv nonce c) = 16" using pre by simp
  then show ?thesis
    using seal_parts(1) [OF assms(1) pre(1), of "send_iv nonce c" c] header_of_counter(1) [OF pre(3,4)]
    by (simp add: frame)
qed

lemma header_of_crypto_frame:
  "from_bytes_big (take 2 (crypto_frame c p)) AND CRYPTO_LAYER_FLAG \<noteq> 0"
proof -
  have "take 2 (crypto_frame c p) = [0x80, 0]" by (simp add: crypto_frame_def append_checksum_def)
  then show ?thesis by (simp add: from_bytes_big_def CRYPTO_LAYER_FLAG_def)
qed

subsection \<open>What the fake shade answers\<close>

lemma handle_crypto_request:
  "handle_request ctr shade (crypto_frame c p) =
     (handle_crypto shade (crypto_frame c p), shade)"
  by (simp add: handle_request_def header_of_crypto_frame)

lemma handle_app_request:
  assumes "ctr_cipher ctr"
    and "encode_application_request ctr cmd payload (fs_key shade) (fs_nonce shade) c mid = Inr frame"
  shows "handle_request ctr shade frame = handle_app ctr shade frame"
    and "decrypt_app_request ctr frame (fs_key shade) (fs_nonce shade) = Inr (c, mid, cmd, payload)"
proof -
  have c: "1 \<le> c \<and> c \<le> MAX_COUNTER" using assms(2) by (simp add: encode_application_request_Inr)
  show "handle_request ctr shade frame = handle_app ctr shade frame"
    using header_of_request [OF assms] header_of_counter(2) [of c] c by (simp add: handle_request_def)
  show "decrypt_app_request ctr frame (fs_key shade) (fs_nonce shade) = Inr (c, mid, cmd, payload)"
    using assms by (rule decrypt_encoded_request)
qed

lemma parse_versions_response:
  assumes "length versions < 256" and "\<forall>v \<in> set versions. 0 \<le> v \<and> v < 256"
  shows "rbind (parse_crypto_response (versions_response versions)) parse_protocol_versions = Inr versions"
proof -
  have n: "unat (word_of_int (int (length versions)) :: byte) = length versions"
    using assms(1) by (simp add: unat_byte_of_nat)
  have m: "map uint (map (word_of_int :: int \<Rightarrow> byte) versions) = versions"
    using assms(2) by (auto simp: uint_byte_of_int intro!: map_idI)
  show ?thesis
    using n m by (simp add: versions_response_def parse_crypto_frame parse_protocol_versions_def Let_def
        del: map_map of_int_of_nat_eq)
qed

subsection \<open>Properties\<close>

text \<open>C17: Every position request the library encodes is decrypted by the shade, under the same
  key and nonce, to the same counter, message id and command, with the requested position in
  tenths of a percent and the requested speed in the payload.\<close>

theorem position_request_roundtrip:
  assumes "ctr_cipher ctr"
    and "encode_position_request ctr (PyInt pos) key nonce c mid (PyInt speed) = Inr frame"
  shows "\<exists>payload. decrypt_app_request ctr frame key nonce = Inr (c, mid, Shade_SET_POSITION, payload) \<and>
    length payload = 3 \<and> from_bytes_little (take 2 payload) = 10 * pos \<and> uint (payload ! 2) = speed"
proof -
  let ?payload = "to_bytes_little 2 (pos * 10) @ [word_of_int speed]"
  from assms(2) have pos: "0 \<le> pos" "pos \<le> 100" "1 \<le> speed" "speed \<le> 100"
    and enc: "encode_application_request ctr Shade_SET_POSITION ?payload key nonce c mid = Inr frame"
    by (auto simp: encode_position_request_Inr)
  have "decrypt_app_request ctr frame key nonce = Inr (c, mid, Shade_SET_POSITION, ?payload)"
    using assms(1) enc by (rule decrypt_encoded_request)
  then show ?thesis using pos by (simp add: from_to_bytes_little nth_append uint_byte_of_int)
qed

theorem position_request_roundtrip_witness:
  "\<exists>frame payload.
     encode_position_request xor_cipher (PyInt 42) (replicate 32 7) (replicate 12 9) 1 1 (PyInt 100) =
       Inr frame \<and>
     decrypt_app_request xor_cipher frame (replicate 32 7) (replicate 12 9) =
       Inr (1, 1, Shade_SET_POSITION, payload) \<and>
     length payload = 3 \<and> from_bytes_little (take 2 payload) = 10 * 42 \<and> uint (payload ! 2) = 100"
proof -
  have "\<exists>frame. encode_position_request xor_cipher (PyInt 42) (replicate 32 7) (replicate 12 9) 1 1
      (PyInt 100) = Inr frame"
    by (simp add: encode_position_request_Inr encode_application_request_Inr RUNTIME_COMMANDS_iff
        MAX_COUNTER_def)
  then obtain frame where "encode_position_request xor_cipher (PyInt 42) (replicate 32 7)
      (replicate 12 9) 1 1 (PyInt 100) = Inr frame" by blast
  with position_request_roundtrip [OF ctr_cipher_xor_cipher this] show ?thesis by blast
qed

text \<open>C18: A response the shade encrypts for a request decodes, in the library, to exactly its
  command, message id, counter and payload.\<close>

theorem response_roundtrip:
  assumes "ctr_cipher ctr" and "length key = 32" and "length nonce = 12" and "cmd \<in> RUNTIME_COMMANDS"
    and "1 \<le> c" and "c \<le> MAX_COUNTER" and "0 \<le> mid" and "mid \<le> 15"
  shows "decode_application_response ctr (encode_app_response ctr cmd payload key nonce c mid)
      key nonce cmd mid (Some c) =
    Inr \<lparr>ar_command = cmd, ar_message_id = mid, ar_counter = c, ar_payload = payload\<rparr>"
  using assms by (rule decode_app_response)

theorem response_roundtrip_witness:
  "decode_application_response xor_cipher
      (encode_app_response xor_cipher Shade_GET_BATTERY [0x50, 0] (replicate 32 7) (replicate 12 9) 3 3)
      (replicate 32 7) (replicate 12 9) Shade_GET_BATTERY 3 (Some 3) =
    Inr \<lparr>ar_command = Shade_GET_BATTERY, ar_message_id = 3, ar_counter = 3, ar_payload = [0x50, 0]\<rparr>"
  by (rule response_roundtrip)
    (simp_all add: ctr_cipher_xor_cipher RUNTIME_COMMANDS_iff MAX_COUNTER_def)

text \<open>C10: Whatever frame arrives, a response is only accepted when it answers the outstanding
  request: same counter (in the clear header and, as keystream position, in the decryption), same
  message id, the requested command or an ACK naming it, and a checksum valid under the session
  key. A frame for another counter is refused.\<close>

theorem accepted_response_answers_request:
  assumes "decode_application_response ctr frame key nonce cmd mid (Some c) = Inr r"
  shows "ar_counter r = c \<and> ar_message_id r = mid \<and>
    (ar_command r = cmd \<or>
     ar_command r = Shade_ACK \<and> ar_payload r \<noteq> [] \<and> ar_payload r ! 0 = shade_value cmd) \<and>
    take 2 frame = to_bytes_big 2 c \<and>
    (\<exists>flags. verify_checksum (take 2 frame) (aes_ctr ctr (drop 2 frame) key (receive_iv nonce c)) =
        Inr ([flags, shade_value (ar_command r)] @ ar_payload r) \<and>
        flags AND PRESENTATION_RESPONSE_FLAG \<noteq> 0 \<and> flags AND PRESENTATION_RESERVED_FLAGS = 0 \<and>
        uint (flags AND 0x0F) = mid)"
proof -
  from decode_application_response_Inr [OF assms] obtain pres where
    c: "ar_counter r = c" and hd: "take 2 frame = to_bytes_big 2 c"
    and op: "opened ctr frame key nonce c = Inr pres"
    and dec: "decode_presentation cmd mid c pres = Inr r" by auto
  show ?thesis
    using decode_presentation_Inr(1) [OF dec] decode_presentation_Inr(3) [OF dec] c hd op
    by (auto simp: answers_def opened_def)
qed

theorem accepted_response_answers_request_witness:
  "take 2 (encode_app_response xor_cipher Shade_ACK [0x13] (replicate 32 7) (replicate 12 9) 3 3) =
    to_bytes_big 2 3"
proof -
  have "decode_application_response xor_cipher
      (encode_app_response xor_cipher Shade_ACK [0x13] (replicate 32 7) (replicate 12 9) 3 3)
      (replicate 32 7) (replicate 12 9) Shade_SET_POSITION 3 (Some 3) =
    Inr \<lparr>ar_command = Shade_ACK, ar_message_id = 3, ar_counter = 3, ar_payload = [0x13]\<rparr>"
    using decode_presentation_response [of 3 Shade_SET_POSITION 3 3 Shade_ACK "[0x13]"]
    by (simp add: encode_app_response_seal decode_sealed ctr_cipher_xor_cipher RUNTIME_COMMANDS_iff
        MAX_COUNTER_def)
  from accepted_response_answers_request [OF this] show ?thesis by blast
qed

end
