(* ===== verification/Fake_Device.thy ===== *)
theory Fake_Device
  imports Shade_Side Send_Frame
begin

text \<open>
  The transport half of \<open>FakeShadeClient\<close> (\<open>tests/tilt_helpers.py\<close>): \<open>write_gatt_char\<close>, which
  acknowledges and reassembles what the client writes, and the task it creates per message, which
  answers in chunks of its own and waits for the acknowledgement of each.

  The second half composes it with the client's link of \<open>Send_Frame\<close>. The fake's writes never
  suspend, so a write of either task of the client is delivered within the same turn; the turns of
  the client's sender and worker and of the device's task interleave in any order.
\<close>

subsection \<open>The device\<close>

text \<open>A request task: created and not yet run, or waiting for the acknowledgement of a chunk.\<close>

datatype request_task = Task_new bytes | Task_sending nat int "bytes list"

record device =
  dv_shade :: fake_shade
  dv_connected :: bool
  dv_notify :: bool
  dv_assembler :: assembler
  dv_tx_seq :: int
  dv_ack_waiters :: "(int \<times> nat) list"
  dv_futures :: "future list"
  dv_tasks :: "request_task list"

definition device_connect :: "device \<Rightarrow> device" where
  "device_connect d = d\<lparr>dv_connected := True\<rparr>"

definition device_disconnect :: "device \<Rightarrow> device" where
  "device_disconnect d = d\<lparr>dv_connected := False\<rparr>"

definition device_start_notify :: "device \<Rightarrow> device" where
  "device_start_notify d =
     d\<lparr>dv_notify := True, dv_assembler := \<lparr>asm_expected_sequence = 1, asm_buffer = []\<rparr>,
       dv_tx_seq := 1, dv_ack_waiters := []\<rparr>"

definition device_stop_notify :: "device \<Rightarrow> device" where
  "device_stop_notify d = d\<lparr>dv_notify := False\<rparr>"

definition emit :: "device \<Rightarrow> bytes \<Rightarrow> exc + bytes list" where
  "emit d data = (if dv_notify d then Inr [data] else Inl (OtherException ''AssertionError''))"

text \<open>\<open>write_gatt_char\<close>: what is notified meanwhile, the exception it raises, the device after it.\<close>

definition device_write :: "bytes \<Rightarrow> device \<Rightarrow> bytes list \<times> exc option \<times> device" where
  "device_write data d =
     (case parse_ble_chunk data of
        Inl e \<Rightarrow> ([], Some e, d)
      | Inr chunk \<Rightarrow>
          (if ch_for_bluetooth_layer chunk
           then (case parse_ble_ack data of
                   Inl e \<Rightarrow> ([], Some e, d)
                 | Inr seq \<Rightarrow>
                     (case map_of (dv_ack_waiters d) seq of
                        None \<Rightarrow> ([], None, d)
                      | Some waiter \<Rightarrow>
                          ([], None, d\<lparr>dv_futures := complete_future Finished waiter (dv_futures d)\<rparr>)))
           else (case rbind (make_ble_ack (ch_sequence chunk)) (emit d) of
                   Inl e \<Rightarrow> ([], Some e, d)
                 | Inr acks \<Rightarrow>
                     (case assembler_add (dv_assembler d) data of
                        (Inl e, asm) \<Rightarrow> (acks, Some e, d\<lparr>dv_assembler := asm\<rparr>)
                      | (Inr (_, None), asm) \<Rightarrow> (acks, None, d\<lparr>dv_assembler := asm\<rparr>)
                      | (Inr (_, Some message), asm) \<Rightarrow>
                          (acks, None, d\<lparr>dv_assembler := asm,
                                         dv_tasks := dv_tasks d @ [Task_new message]\<rparr>)))))"

text \<open>
  The loop of \<open>_send_frame\<close> up to its next \<open>await\<close>: what is notified, the task if it goes on,
  the device. An exception ends the task unnoticed.
\<close>

type_synonym task_turn = "bytes list \<times> request_task option \<times> device"

fun send_chunks :: "bytes list \<Rightarrow> device \<Rightarrow> task_turn" where
  "send_chunks [] d = ([], None, d)"
| "send_chunks (chunk # rest) d =
     (let seq = chunk_sequence chunk;
          waiter = length (dv_futures d);
          d1 = d\<lparr>dv_futures := dv_futures d @ [Pending],
                 dv_ack_waiters := AList.update seq waiter (dv_ack_waiters d)\<rparr>
      in case emit d1 chunk of
           Inl e \<Rightarrow> ([], None, d1)
         | Inr sent \<Rightarrow> (sent, Some (Task_sending waiter seq rest), d1))"

definition task_start :: "cipher \<Rightarrow> bytes \<Rightarrow> device \<Rightarrow> task_turn" where
  "task_start ctr frame d =
     (let (response, shade) = handle_request ctr (dv_shade d) frame;
          d1 = d\<lparr>dv_shade := shade\<rparr>
      in case rbind response (\<lambda>m. chunk_for_ble m (dv_tx_seq d1)) of
           Inl e \<Rightarrow> ([], None, d1)
         | Inr chunks \<Rightarrow> send_chunks chunks d1)"

definition task_resume :: "int \<Rightarrow> bytes list \<Rightarrow> device \<Rightarrow> task_turn" where
  "task_resume seq rest d =
     (case next_sequence seq of
        Inl e \<Rightarrow> ([], None, d)
      | Inr n \<Rightarrow> send_chunks rest (d\<lparr>dv_tx_seq := n\<rparr>))"

definition task_turn :: "cipher \<Rightarrow> request_task \<Rightarrow> device \<Rightarrow> task_turn option" where
  "task_turn ctr task d =
     (case task of
        Task_new frame \<Rightarrow> Some (task_start ctr frame d)
      | Task_sending waiter seq rest \<Rightarrow>
          (if dv_futures d ! waiter = Finished then Some (task_resume seq rest d) else None))"

definition device_task :: "cipher \<Rightarrow> nat \<Rightarrow> device \<Rightarrow> (bytes list \<times> device) option" where
  "device_task ctr k d =
     (if k < length (dv_tasks d) then
        map_option (\<lambda>(sent, task, d1).
            (sent, d1\<lparr>dv_tasks := take k (dv_tasks d) @
               (case task of None \<Rightarrow> [] | Some t \<Rightarrow> [t]) @ drop (Suc k) (dv_tasks d)\<rparr>))
          (task_turn ctr (dv_tasks d ! k) d)
      else None)"

text \<open>No acknowledgement within the fake's own two seconds: the task ends.\<close>

definition device_timeout :: "nat \<Rightarrow> device \<Rightarrow> device option" where
  "device_timeout k d =
     (if k < length (dv_tasks d) then
        (case dv_tasks d ! k of
           Task_new _ \<Rightarrow> None
         | Task_sending waiter _ _ \<Rightarrow>
             Some (d\<lparr>dv_futures := complete_future Cancelled waiter (dv_futures d),
                     dv_tasks := take k (dv_tasks d) @ drop (Suc k) (dv_tasks d)\<rparr>))
      else None)"

subsection \<open>A link and a device\<close>

type_synonym peered = "link \<times> device"

definition notify_all :: "bytes list \<Rightarrow> link \<Rightarrow> link" where
  "notify_all sent l = fold notification_received sent l"

fun deliver :: "gatt_write \<Rightarrow> peered \<Rightarrow> peered option" where
  "deliver (Chunk_write chunk) (l, d) =
     (let (sent, raised, d1) = device_write chunk d
      in map_option (\<lambda>l1. (l1, d1)) (link_step (Sender_written raised) (notify_all sent l)))"
| "deliver (Ack_write ack) (l, d) =
     (let (sent, raised, d1) = device_write ack d
      in map_option (\<lambda>l1. (l1, d1)) (link_step (Worker_written raised) (notify_all sent l)))"

text \<open>A turn of the client that went from \<open>l\<close> to \<open>l1\<close>, with the write it made, if any.\<close>

definition with_write :: "link \<Rightarrow> link \<Rightarrow> device \<Rightarrow> peered option" where
  "with_write l l1 d =
     (case drop (length (writes l)) (writes l1) of [] \<Rightarrow> Some (l1, d) | w # _ \<Rightarrow> deliver w (l1, d))"

datatype turn = Client_worker | Client_acked | Client_response | Device_task nat

fun peered_step :: "cipher \<Rightarrow> turn \<Rightarrow> peered \<Rightarrow> peered option" where
  "peered_step ctr Client_worker (l, d) =
     Option.bind (link_step Worker_take l) (\<lambda>l1. with_write l l1 d)"
| "peered_step ctr Client_acked (l, d) =
     Option.bind (link_step Sender_wake l) (\<lambda>l1. with_write l l1 d)"
| "peered_step ctr Client_response (l, d) =
     map_option (\<lambda>l1. (l1, d)) (link_step Take_response l)"
| "peered_step ctr (Device_task k) (l, d) =
     map_option (\<lambda>(sent, d1). (notify_all sent l, d1)) (device_task ctr k d)"

definition peered_send :: "bytes \<Rightarrow> bool \<Rightarrow> peered \<Rightarrow> peered option" where
  "peered_send frame retry_chunks p = with_write (fst p) (send_frame frame retry_chunks (fst p)) (snd p)"

text \<open>The runs in which no timer fires.\<close>

fun peered_run :: "cipher \<Rightarrow> turn list \<Rightarrow> peered \<Rightarrow> peered option" where
  "peered_run ctr [] p = Some p"
| "peered_run ctr (t # ts) p = Option.bind (peered_step ctr t p) (peered_run ctr ts)"

subsection \<open>The state of an exchange\<close>

text \<open>The acknowledgement the sender waits for, while it is still in the notification queue.\<close>

definition awaited_ack :: "link \<Rightarrow> bytes list" where
  "awaited_ack l =
     (case sender l of
        Sender_acking a \<Rightarrow> (if futures l ! at_waiter a = Pending then [ack_for (at_chunk a)] else [])
      | _ \<Rightarrow> [])"

text \<open>What the client has received, taken by the sender or not.\<close>

definition received :: "link \<Rightarrow> (exc + bytes) list" where
  "received l = response_queue l @ (case sender l of Sender_done r \<Rightarrow> [r] | _ \<Rightarrow> [])"

abbreviation expecting :: "int \<Rightarrow> bytes \<Rightarrow> assembler" where
  "expecting s b \<equiv> \<lparr>asm_expected_sequence = s, asm_buffer = b\<rparr>"

text \<open>
  \<open>replying ctr f m shade rem rq asm got d\<close>: the device \<open>d\<close> in the exchange of the request \<open>f\<close> for the
  reply \<open>m\<close>, which leaves the shade \<open>shade\<close>. \<open>rem\<close> is what it has not been written of \<open>f\<close>, \<open>rq\<close> the
  chunk of \<open>m\<close> the client has not taken; \<open>asm\<close> and \<open>got\<close> are the client's assembler and what it has
  received.
\<close>

inductive replying ::
  "cipher \<Rightarrow> bytes \<Rightarrow> bytes \<Rightarrow> fake_shade \<Rightarrow>
   bytes \<Rightarrow> bytes list \<Rightarrow> assembler \<Rightarrow> (exc + bytes) list \<Rightarrow> device \<Rightarrow> bool"
  for ctr f m shade where
  collecting: "rem \<noteq> [] \<Longrightarrow> asm_buffer (dv_assembler d) @ rem = f \<Longrightarrow> dv_tasks d = [] \<Longrightarrow>
    handle_request ctr (dv_shade d) f = (Inr m, shade) \<Longrightarrow>
    replying ctr f m shade rem [] (expecting (dv_tx_seq d) []) [] d"
| asked: "asm_buffer (dv_assembler d) = [] \<Longrightarrow> dv_tasks d = [Task_new f] \<Longrightarrow>
    handle_request ctr (dv_shade d) f = (Inr m, shade) \<Longrightarrow>
    replying ctr f m shade [] [] (expecting (dv_tx_seq d) []) [] d"
| sent: "asm_buffer (dv_assembler d) = [] \<Longrightarrow> dv_tasks d = [Task_sending w u (chunks_of rest (succ_sequence u))] \<Longrightarrow>
    dv_shade d = shade \<Longrightarrow> valid_sequence u \<Longrightarrow> map_of (dv_ack_waiters d) u = Some w \<Longrightarrow>
    w < length (dv_futures d) \<Longrightarrow> dv_futures d ! w = Pending \<Longrightarrow>
    b @ p @ rest = m \<Longrightarrow> length p \<le> MAX_BLE_PAYLOAD \<Longrightarrow>
    replying ctr f m shade [] [raw_chunk u (rest = []) p] (expecting u b) [] d"
| acked: "asm_buffer (dv_assembler d) = [] \<Longrightarrow> dv_tasks d = [Task_sending w u (chunks_of rest (succ_sequence u))] \<Longrightarrow>
    dv_shade d = shade \<Longrightarrow> valid_sequence u \<Longrightarrow> dv_futures d ! w = Finished \<Longrightarrow>
    (if rest = [] then b = [] \<and> got = [Inr m] else b @ rest = m \<and> got = []) \<Longrightarrow>
    replying ctr f m shade [] [] (expecting (succ_sequence u) b) got d"
| answered: "asm_buffer (dv_assembler d) = [] \<Longrightarrow> dv_tasks d = [] \<Longrightarrow> dv_shade d = shade \<Longrightarrow>
    replying ctr f m shade [] [] (expecting (dv_tx_seq d) []) [Inr m] d"

text \<open>The sender: a chunk in the air with \<open>rem\<close> of the frame after it, or nothing left to send.\<close>

definition requesting :: "bytes \<Rightarrow> link \<Rightarrow> int \<Rightarrow> bool" where
  "requesting rem l expected \<longleftrightarrow>
     valid_sequence (tx_sequence l) \<and>
     (case sender l of
        Sender_acking a \<Rightarrow>
          chunk_sequence (at_chunk a) = tx_sequence l \<and> ack_waiters l = [(tx_sequence l, at_waiter a)] \<and>
          at_waiter a < length (futures l) \<and> futures l ! at_waiter a \<in> {Pending, Finished} \<and>
          at_rest a = chunks_of rem (succ_sequence (tx_sequence l)) \<and> expected = succ_sequence (tx_sequence l)
      | Sender_response \<Rightarrow> rem = [] \<and> ack_waiters l = [] \<and> expected = tx_sequence l
      | Sender_done _ \<Rightarrow> rem = [] \<and> ack_waiters l = [] \<and> expected = tx_sequence l
      | _ \<Rightarrow> False)"

definition exchanging :: "cipher \<Rightarrow> bytes \<Rightarrow> bytes \<Rightarrow> fake_shade \<Rightarrow> peered \<Rightarrow> bool" where
  "exchanging ctr f m shade p \<longleftrightarrow>
     (let (l, d) = p in
      worker l = Worker_waiting \<and> dv_notify d \<and> valid_sequence (dv_tx_seq d) \<and>
      (\<exists>rem rq. notification_queue l = awaited_ack l @ rq \<and>
         requesting rem l (asm_expected_sequence (dv_assembler d)) \<and>
         replying ctr f m shade rem rq (link_assembler l) (received l) d))"

lemma requesting_cong:
  "tx_sequence l' = tx_sequence l \<Longrightarrow> sender l' = sender l \<Longrightarrow> ack_waiters l' = ack_waiters l \<Longrightarrow>
   futures l' = futures l \<Longrightarrow> requesting rem l' e \<longleftrightarrow> requesting rem l e"
  by (cases "sender l") (simp_all add: requesting_def)

lemma awaited_ack_cong: "sender l' = sender l \<Longrightarrow> futures l' = futures l \<Longrightarrow> awaited_ack l' = awaited_ack l"
  by (cases "sender l") (simp_all add: awaited_ack_def)

lemma exchangingI:
  "worker l = Worker_waiting \<Longrightarrow> dv_notify d \<Longrightarrow> valid_sequence (dv_tx_seq d) \<Longrightarrow>
   notification_queue l = awaited_ack l @ rq \<Longrightarrow>
   requesting rem l (asm_expected_sequence (dv_assembler d)) \<Longrightarrow>
   replying ctr f m shade rem rq (link_assembler l) (received l) d \<Longrightarrow> exchanging ctr f m shade (l, d)"
  by (auto simp: exchanging_def)

text \<open>Turns still to be taken.\<close>

definition number_of_chunks :: "bytes \<Rightarrow> nat" where
  "number_of_chunks f = (length f + MAX_BLE_PAYLOAD - 1) div MAX_BLE_PAYLOAD"

definition turns_left :: "bytes \<Rightarrow> peered \<Rightarrow> nat" where
  "turns_left m p =
     (let (l, d) = p;
          sender_turns = (case sender l of Sender_acking a \<Rightarrow> 2 * length (at_rest a) + 2 | Sender_response \<Rightarrow> 1 | _ \<Rightarrow> 0);
          collects = (case sender l of Sender_acking a \<Rightarrow> at_rest a \<noteq> [] | _ \<Rightarrow> False)
      in sender_turns + length (notification_queue l) +
         (case dv_tasks d of
            [] \<Rightarrow> if collects then 2 * number_of_chunks m + 1 else 0
          | Task_new _ # _ \<Rightarrow> 2 * number_of_chunks m + 1
          | Task_sending _ _ rest # _ \<Rightarrow> 2 * length rest + 1))"

subsection \<open>Each turn\<close>

lemma turn_acknowledgement:
  assumes ex: "exchanging ctr f m shade (l, d)" and ack: "awaited_ack l \<noteq> []"
  shows "\<exists>l1. peered_step ctr Client_worker (l, d) = Some (l1, d) \<and> exchanging ctr f m shade (l1, d) \<and>
    received l1 = received l \<and> Suc (turns_left m (l1, d)) = turns_left m (l, d)"
proof -
  obtain rem rq where q: "notification_queue l = awaited_ack l @ rq"
    and req: "requesting rem l (asm_expected_sequence (dv_assembler d))"
    and rep: "replying ctr f m shade rem rq (link_assembler l) (received l) d"
    and w: "worker l = Worker_waiting" "dv_notify d" "valid_sequence (dv_tx_seq d)"
    using ex by (auto simp: exchanging_def)
  obtain a where a: "sender l = Sender_acking a" "futures l ! at_waiter a = Pending"
    and al: "awaited_ack l = [ack_for (at_chunk a)]"
    using ack by (auto simp: awaited_ack_def split: sender.splits if_split_asm)
  have seq: "chunk_sequence (at_chunk a) = tx_sequence l" "ack_waiters l = [(tx_sequence l, at_waiter a)]"
      "valid_sequence (tx_sequence l)" "at_waiter a < length (futures l)"
    using req a by (simp_all add: requesting_def)
  obtain x where x: "parse_ble_chunk (ack_for (at_chunk a)) = Inr x" "ch_for_bluetooth_layer x"
    using ack_for_parses(2) [of "at_chunk a"] seq by auto
  let ?l = "l\<lparr>notification_queue := rq, processed := processed l @ [ack_for (at_chunk a)],
    futures := (futures l)[at_waiter a := Finished]\<rparr>"
  have "link_step Worker_take l = Some ?l"
    using x ack_for_parses(1) [of "at_chunk a"] seq w q al a
    by (simp add: worker_take_def worker_process_def acknowledge_def complete_future_def)
  then have "peered_step ctr Client_worker (l, d) = Some (?l, d)"
    by (simp add: with_write_def)
  moreover have "exchanging ctr f m shade (?l, d)"
    using w q req rep a seq by (intro exchangingI [where rem = rem and rq = rq])
      (simp_all add: awaited_ack_def requesting_def received_def)
  moreover have "Suc (turns_left m (?l, d)) = turns_left m (l, d)"
    using q al by (simp add: turns_left_def)
  moreover have "received ?l = received l" by (simp add: received_def)
  ultimately show ?thesis by blast
qed

lemma ack_of_sequence:
  assumes "valid_sequence u"
  obtains ack x where "make_ble_ack u = Inr ack" "parse_ble_chunk ack = Inr x" "ch_for_bluetooth_layer x"
    "parse_ble_ack ack = Inr u"
proof -
  obtain ack where ack: "make_ble_ack u = Inr ack"
    using assms by (auto simp: make_ble_ack_def valid_sequence_def)
  then have "parse_ble_ack ack = Inr u" using parse_make_ble_ack [OF assms] by simp
  moreover from this obtain x where "parse_ble_chunk ack = Inr x" "ch_for_bluetooth_layer x"
    by (auto simp: parse_ble_ack_def rbind_eq_Inr split: if_split_asm)
  ultimately show thesis using that ack by blast
qed

lemma not_done_received: "received l = [] \<Longrightarrow> \<not> is_done l \<and> response_queue l = []"
  by (auto simp: received_def is_done_def split: sender.splits)

lemma turn_response_chunk:
  assumes ex: "exchanging ctr f m shade (l, d)" and ack: "awaited_ack l = []" and q: "notification_queue l \<noteq> []"
  shows "\<exists>p. peered_step ctr Client_worker (l, d) = Some p \<and> exchanging ctr f m shade p \<and>
    Suc (turns_left m p) = turns_left m (l, d)"
proof -
  obtain rem rq where rq: "notification_queue l = rq" "rq \<noteq> []"
    and req: "requesting rem l (asm_expected_sequence (dv_assembler d))"
    and rep: "replying ctr f m shade rem rq (link_assembler l) (received l) d"
    and wk: "worker l = Worker_waiting" "dv_notify d" "valid_sequence (dv_tx_seq d)"
    using ex ack q by (auto simp: exchanging_def)
  from rep rq(2) obtain w u rest b p where s: "rem = []" "asm_buffer (dv_assembler d) = []"
    "dv_tasks d = [Task_sending w u (chunks_of rest (succ_sequence u))]" "dv_shade d = shade"
    "valid_sequence u" "map_of (dv_ack_waiters d) u = Some w" "w < length (dv_futures d)"
    "dv_futures d ! w = Pending" "b @ p @ rest = m" "length p \<le> MAX_BLE_PAYLOAD"
    "rq = [raw_chunk u (rest = []) p]" "link_assembler l = expecting u b" "received l = []"
    by cases auto
  obtain ack x where ack': "make_ble_ack u = Inr ack" "parse_ble_chunk ack = Inr x"
    "ch_for_bluetooth_layer x" "parse_ble_ack ack = Inr u" using ack_of_sequence [OF s(5)] .
  let ?c = "raw_chunk u (rest = []) p"
  let ?asm = "expecting (succ_sequence u) (if rest = [] then [] else b @ p)"
  let ?l1 = "l\<lparr>notification_queue := [], processed := processed l @ [?c], link_assembler := ?asm,
    worker := Worker_writing (if rest = [] then Some (b @ p) else None), writes := writes l @ [Ack_write ack]\<rparr>"
  let ?l2 = "?l1\<lparr>worker := Worker_waiting, response_queue := if rest = [] then [Inr (b @ p)] else []\<rparr>"
  let ?d = "d\<lparr>dv_futures := (dv_futures d)[w := Finished]\<rparr>"
  have nd: "\<not> is_done l" "response_queue l = []" using not_done_received [OF s(13)] by simp_all
  have "link_step Worker_take l = Some ?l1"
    using s(5,10-12) wk rq ack'(1) assembler_add_raw_chunk [of u p "expecting u b" "rest = []"]
    by (simp add: worker_take_def worker_process_def parse_raw_chunk)
  moreover have "device_write ack d = ([], None, ?d)"
    using ack' s(6,8) by (simp add: device_write_def complete_future_def)
  moreover have "link_step (Worker_written None) ?l1 = Some ?l2"
    using nd(2) by (simp add: worker_written_def RESPONSE_QUEUE_SIZE_def)
  ultimately have "peered_step ctr Client_worker (l, d) = Some (?l2, ?d)"
    by (simp add: with_write_def notify_all_def)
  moreover have got: "received ?l2 = (if rest = [] then [Inr m] else [])"
    using nd s(9) by (cases "sender l") (auto simp: received_def is_done_def)
  then have "replying ctr f m shade [] [] (link_assembler ?l2) (received ?l2) ?d"
    using s(2-9) by (simp only: got) (auto intro!: replying.acked)
  then have "exchanging ctr f m shade (?l2, ?d)"
    using wk req ack s(1) requesting_cong [of ?l2 l] awaited_ack_cong [of ?l2 l]
    by (intro exchangingI [where rem = "[]" and rq = "[]"]) simp_all
  moreover have "Suc (turns_left m (?l2, ?d)) = turns_left m (l, d)"
    using rq(1) s(3,11) by (simp add: turns_left_def)
  ultimately show ?thesis by blast
qed

lemma turn_worker:
  assumes "exchanging ctr f m shade (l, d)" and "notification_queue l \<noteq> []"
  shows "\<exists>p. peered_step ctr Client_worker (l, d) = Some p \<and> exchanging ctr f m shade p \<and>
    Suc (turns_left m p) = turns_left m (l, d)"
  using turn_acknowledgement [OF assms(1)] turn_response_chunk [OF assms(1) _ assms(2)] by blast

text \<open>The next chunk of the request, from the start of a call or an acknowledgement.\<close>

lemma chunks_of_cons:
  "rest \<noteq> [] \<Longrightarrow> chunks_of rest s =
     raw_chunk s (length rest \<le> MAX_BLE_PAYLOAD) (take MAX_BLE_PAYLOAD rest) #
     chunks_of (drop MAX_BLE_PAYLOAD rest) (succ_sequence s)"
  by (simp add: chunks_of.simps [of rest s])

lemma chunks_of_eq_Nil [simp]: "chunks_of rest s = [] \<longleftrightarrow> rest = []"
  using chunks_of_cons by (cases "rest = []") simp_all

lemma number_of_chunks: "length (chunks_of rest s) = number_of_chunks rest"
  by (simp add: number_of_chunks_def length_chunks_of)

lemma next_chunk_delivered:
  assumes "rest \<noteq> []" and "valid_sequence (tx_sequence l)" and "ack_waiters l = []" and "received l = [] "
    and "notification_queue l = []" and "worker l = Worker_waiting"
    and "dv_assembler d = expecting (tx_sequence l) b" and "b @ rest = f"
    and "dv_notify d" and "dv_tasks d = []" and "valid_sequence (dv_tx_seq d)"
    and "handle_request ctr (dv_shade d) f = (Inr m, shade)" and "link_assembler l = expecting (dv_tx_seq d) []"
    and base: "writes base = writes l"
  shows "\<exists>p. with_write base (next_chunk (chunks_of rest (tx_sequence l)) n l) d = Some p \<and>
    exchanging ctr f m shade p \<and>
    turns_left m p = 2 * number_of_chunks rest + 2 * number_of_chunks m + 2 \<and>
    received (fst p) = [] \<and> (dv_tasks (snd p) = [] \<or> dv_tasks (snd p) = [Task_new f])"
proof -
  let ?s = "tx_sequence l" and ?p = "take MAX_BLE_PAYLOAD rest" and ?r = "drop MAX_BLE_PAYLOAD rest"
  let ?c = "raw_chunk ?s (length rest \<le> MAX_BLE_PAYLOAD) ?p" and ?cs = "chunks_of ?r (succ_sequence ?s)"
  let ?w = "length (futures l)"
  let ?a = "\<lparr>at_waiter = ?w, at_chunk = ?c, at_rest = ?cs, at_attempt = 0, at_attempts = n\<rparr>"
  let ?l1 = "begin_attempt ?c ?cs 0 n l"
  let ?l2 = "?l1\<lparr>notification_queue := [ack_for ?c], sender := Sender_acking ?a\<rparr>"
  let ?d = "d\<lparr>dv_assembler := expecting (succ_sequence ?s) (if ?r = [] then [] else b @ ?p),
    dv_tasks := if ?r = [] then [Task_new f] else []\<rparr>"
  have len: "length ?p \<le> MAX_BLE_PAYLOAD" by simp
  have seq: "chunk_sequence ?c = ?s"
    using numbered_chunks_of [OF assms(2), of rest] by (simp add: chunks_of_cons [OF assms(1)])
  obtain ack where ack: "make_ble_ack ?s = Inr ack" using ack_of_sequence [OF assms(2)] .
  have af: "ack_for ?c = ack" unfolding ack_for_def seq ack by simp
  have f: "?r = [] \<Longrightarrow> b @ ?p = f" using assms(8) by simp
  have "device_write ?c d = ([ack], None, ?d)"
    using parse_raw_chunk [OF assms(2) len, of "length rest \<le> MAX_BLE_PAYLOAD"] ack assms(9,10) f
      assembler_add_raw_chunk [OF assms(2) len, of "dv_assembler d" "length rest \<le> MAX_BLE_PAYLOAD"]
    by (simp add: device_write_def assms(7) emit_def)
  moreover have "link_step (Sender_written None) (notify_all [ack] ?l1) = Some ?l2"
    using assms(5) by (simp add: notify_all_def notification_received_def NOTIFICATION_QUEUE_SIZE_def
        sender_written_def begin_attempt_def Let_def af)
  ultimately have "with_write base (next_chunk (chunks_of rest ?s) n l) d = Some (?l2, ?d)"
    by (simp add: with_write_def base chunks_of_cons [OF assms(1)] begin_attempt_def Let_def)
  moreover have "exchanging ctr f m shade (?l2, ?d)"
  proof (rule exchangingI [where rem = ?r and rq = "[]"])
    have "received ?l2 = []" using not_done_received [OF assms(4)] by (simp add: received_def begin_attempt_def Let_def)
    then show "replying ctr f m shade ?r [] (link_assembler ?l2) (received ?l2) ?d"
      using assms(8,12,13) replying.collecting [of ?r ?d f ctr m shade] replying.asked [of ?d f ctr m shade]
      by (cases "?r = []") (simp_all add: begin_attempt_def Let_def)
    show "requesting ?r ?l2 (asm_expected_sequence (dv_assembler ?d))"
      using assms(2,3) seq by (simp add: requesting_def begin_attempt_def Let_def)
  qed (use assms(6,9,11) in \<open>simp_all add: awaited_ack_def begin_attempt_def Let_def\<close>)
  moreover have "turns_left m (?l2, ?d) = 2 * number_of_chunks rest + 2 * number_of_chunks m + 2"
    using number_of_chunks [of rest ?s, unfolded chunks_of_cons [OF assms(1)]]
    by (auto simp: turns_left_def begin_attempt_def Let_def)
  moreover have "received ?l2 = []" using not_done_received [OF assms(4)] by (simp add: received_def begin_attempt_def Let_def)
  ultimately show ?thesis by simp
qed

lemma turn_acked:
  assumes ex: "exchanging ctr f m shade (l, d)" and a: "sender l = Sender_acking a" and ack: "awaited_ack l = []"
  shows "\<exists>p. peered_step ctr Client_acked (l, d) = Some p \<and> exchanging ctr f m shade p \<and>
    Suc (turns_left m p) = turns_left m (l, d) \<and> received (fst p) = received l \<and>
    (dv_tasks (snd p) = dv_tasks d \<or> dv_tasks (snd p) = [Task_new f])"
proof -
  obtain rem rq where q: "notification_queue l = rq"
    and req: "requesting rem l (asm_expected_sequence (dv_assembler d))"
    and rep: "replying ctr f m shade rem rq (link_assembler l) (received l) d"
    and wk: "worker l = Worker_waiting" "dv_notify d" "valid_sequence (dv_tx_seq d)"
    using ex ack by (auto simp: exchanging_def)
  let ?s = "tx_sequence l"
  have s: "valid_sequence ?s" "chunk_sequence (at_chunk a) = ?s" "ack_waiters l = [(?s, at_waiter a)]"
    "futures l ! at_waiter a = Finished" "at_rest a = chunks_of rem (succ_sequence ?s)"
    "asm_expected_sequence (dv_assembler d) = succ_sequence ?s"
    using req a ack by (auto simp: requesting_def awaited_ack_def split: if_split_asm)
  let ?l1 = "l\<lparr>ack_waiters := [], tx_sequence := succ_sequence ?s\<rparr>"
  have wake: "link_step Sender_wake l = Some (next_chunk (chunks_of rem (succ_sequence ?s)) (at_attempts a) ?l1)"
    using s a by (simp add: sender_wake_def chunk_acknowledged_def release_waiter_def next_sequence_valid Let_def)
  show ?thesis
  proof (cases "rem = []")
    case True
    let ?l2 = "?l1\<lparr>sender := Sender_response\<rparr>"
    have "peered_step ctr Client_acked (l, d) = Some (?l2, d)"
      using wake True by (simp add: with_write_def)
    moreover have "exchanging ctr f m shade (?l2, d)"
      using wk q rep True s valid_succ_sequence [OF s(1)] a
      by (intro exchangingI [where rem = "[]" and rq = rq]) (simp_all add: awaited_ack_def requesting_def received_def)
    moreover have "Suc (turns_left m (?l2, d)) = turns_left m (l, d)"
      using a s(5) True by (simp add: turns_left_def)
    moreover have "received ?l2 = received l" using a by (simp add: received_def)
    ultimately show ?thesis by simp
  next
    case False
    with rep have c: "asm_buffer (dv_assembler d) @ rem = f" "dv_tasks d = []" "rq = []"
      "handle_request ctr (dv_shade d) f = (Inr m, shade)" "link_assembler l = expecting (dv_tx_seq d) []"
      "received l = []" by (cases; simp)+
    have "dv_assembler d = expecting (tx_sequence ?l1) (asm_buffer (dv_assembler d))" using s(6) by simp
    from next_chunk_delivered [OF False _ _ _ _ _ this c(1) wk(2) c(2) wk(3) c(4), where base = l and n = "at_attempts a"]
    obtain p where p: "with_write l (next_chunk (chunks_of rem (succ_sequence ?s)) (at_attempts a) ?l1) d = Some p"
      "exchanging ctr f m shade p" "turns_left m p = 2 * number_of_chunks rem + 2 * number_of_chunks m + 2"
      "received (fst p) = []" "dv_tasks (snd p) = [] \<or> dv_tasks (snd p) = [Task_new f]"
      using s(1) c q wk(1) valid_succ_sequence [OF s(1)] a by (auto simp: received_def)
    moreover have "turns_left m (l, d) = 2 * number_of_chunks rem + 2 * number_of_chunks m + 3"
      using a q c(2,3) s(5) False by (simp add: turns_left_def number_of_chunks)
    ultimately show ?thesis using wake c(2,6) by simp
  qed
qed

lemma turn_response:
  assumes ex: "exchanging ctr f m shade (l, d)" and sender: "sender l = Sender_response"
    and got: "received l \<noteq> []"
  shows "\<exists>p. peered_step ctr Client_response (l, d) = Some p \<and> exchanging ctr f m shade p \<and>
    Suc (turns_left m p) = turns_left m (l, d)"
proof -
  obtain rem rq where q: "notification_queue l = rq"
    and req: "requesting rem l (asm_expected_sequence (dv_assembler d))"
    and rep: "replying ctr f m shade rem rq (link_assembler l) (received l) d"
    and wk: "worker l = Worker_waiting" "dv_notify d" "valid_sequence (dv_tx_seq d)"
    using ex sender by (auto simp: exchanging_def awaited_ack_def)
  have r: "response_queue l = [Inr m]"
    using rep got sender by cases (auto simp: received_def split: if_split_asm)
  let ?l = "l\<lparr>response_queue := [], sender := Sender_done (Inr m)\<rparr>"
  have "link_step Take_response l = Some ?l" using r sender by (simp add: take_response_def finish_def)
  moreover have "received ?l = received l" using r sender by (simp add: received_def)
  then have "exchanging ctr f m shade (?l, d)"
    using wk q rep req sender by (intro exchangingI [where rem = rem and rq = rq])
      (simp_all add: awaited_ack_def requesting_def)
  moreover have "Suc (turns_left m (?l, d)) = turns_left m (l, d)"
    using sender by (simp add: turns_left_def split: list.split request_task.split)
  ultimately show ?thesis by auto
qed

text \<open>The device's task: the next chunk of the reply, or its end.\<close>

lemma turn_task_sends:
  assumes ex: "exchanging ctr f m shade (l, d)" and rest: "rest \<noteq> []" and u: "valid_sequence u"
    and rem: "requesting [] l (asm_expected_sequence (dv_assembler d))"
    and d: "asm_buffer (dv_assembler d) = []" "dv_shade d1 = shade" "dv_notify d1" "valid_sequence (dv_tx_seq d1)"
      "dv_assembler d1 = dv_assembler d"
    and l: "link_assembler l = expecting u b" "received l = []" "notification_queue l = awaited_ack l" "b @ rest = m"
    and step: "device_task ctr 0 d = map_option (\<lambda>(sent, task, d2).
        (sent, d2\<lparr>dv_tasks := (case task of None \<Rightarrow> [] | Some t \<Rightarrow> [t])\<rparr>)) (Some (send_chunks (chunks_of rest u) d1))"
    and turns: "turns_left m (l, d) = (case sender l of Sender_acking a \<Rightarrow> 2 * length (at_rest a) + 2 | Sender_response \<Rightarrow> 1 | _ \<Rightarrow> 0) +
      length (notification_queue l) + 2 * number_of_chunks rest + 1"
  shows "\<exists>p. peered_step ctr (Device_task 0) (l, d) = Some p \<and> exchanging ctr f m shade p \<and>
    Suc (turns_left m p) = turns_left m (l, d)"
proof -
  let ?p = "take MAX_BLE_PAYLOAD rest" and ?r = "drop MAX_BLE_PAYLOAD rest" and ?w = "length (dv_futures d1)"
  let ?c = "raw_chunk u (length rest \<le> MAX_BLE_PAYLOAD) ?p" and ?cs = "chunks_of ?r (succ_sequence u)"
  let ?d = "d1\<lparr>dv_futures := dv_futures d1 @ [Pending], dv_ack_waiters := AList.update u ?w (dv_ack_waiters d1),
    dv_tasks := [Task_sending ?w u ?cs]\<rparr>"
  let ?l = "l\<lparr>notification_queue := awaited_ack l @ [?c]\<rparr>"
  have seq: "chunk_sequence ?c = u"
    using numbered_chunks_of [OF u, of rest] by (simp add: chunks_of_cons [OF rest])
  have "device_task ctr 0 d = Some ([?c], ?d)"
    using d(3) seq unfolding step chunks_of_cons [OF rest]
    by (simp only: send_chunks.simps Let_def) (simp add: emit_def)
  moreover have "length (awaited_ack l) \<le> 1" by (cases "sender l") (simp_all add: awaited_ack_def)
  then have "notify_all [?c] l = ?l"
    using l(3) by (simp add: notify_all_def notification_received_def NOTIFICATION_QUEUE_SIZE_def)
  ultimately have "peered_step ctr (Device_task 0) (l, d) = Some (?l, ?d)" by simp
  moreover have "replying ctr f m shade [] [?c] (expecting u b) [] ?d"
    using d(1,2,5) l(4) u replying.sent [of ?d ?w u ?r shade b ?p m ctr f] by (simp add: update_conv')
  then have "exchanging ctr f m shade (?l, ?d)"
    using ex d(3-5) l(1,2) rem requesting_cong [of ?l l] awaited_ack_cong [of ?l l]
    by (intro exchangingI [where rem = "[]" and rq = "[?c]"])
      (simp_all add: exchanging_def received_def)
  moreover have "Suc (turns_left m (?l, ?d)) = turns_left m (l, d)"
    using number_of_chunks [of rest u, unfolded chunks_of_cons [OF rest]] l(3) unfolding turns
    by (cases "sender l") (auto simp: turns_left_def)
  ultimately show ?thesis by blast
qed

definition ready_task :: "device \<Rightarrow> bool" where
  "ready_task d \<longleftrightarrow>
     (case dv_tasks d of
        Task_new _ # _ \<Rightarrow> True
      | Task_sending w _ _ # _ \<Rightarrow> dv_futures d ! w = Finished
      | _ \<Rightarrow> False)"

lemma turn_task:
  assumes ex: "exchanging ctr f m shade (l, d)" and m: "m \<noteq> []" and ready: "ready_task d"
  shows "\<exists>p. peered_step ctr (Device_task 0) (l, d) = Some p \<and> exchanging ctr f m shade p \<and>
    Suc (turns_left m p) = turns_left m (l, d)"
proof -
  obtain rem rq where q: "notification_queue l = awaited_ack l @ rq"
    and req: "requesting rem l (asm_expected_sequence (dv_assembler d))"
    and rep: "replying ctr f m shade rem rq (link_assembler l) (received l) d"
    and wk: "worker l = Worker_waiting" "dv_notify d" "valid_sequence (dv_tx_seq d)"
    using ex by (auto simp: exchanging_def)
  from rep show ?thesis
  proof cases
    case asked
    let ?d = "d\<lparr>dv_shade := shade\<rparr>"
    have "device_task ctr 0 d = map_option (\<lambda>(sent, task, d2).
        (sent, d2\<lparr>dv_tasks := (case task of None \<Rightarrow> [] | Some t \<Rightarrow> [t])\<rparr>))
        (Some (send_chunks (chunks_of m (dv_tx_seq d)) ?d))"
      using asked m wk(3) by (simp add: device_task_def task_turn_def task_start_def chunk_for_ble_eq [THEN iffD2] split: prod.split)
    from turn_task_sends [OF ex m wk(3) _ _ _ _ _ _ _ _ _ _ this] asked q req wk show ?thesis
      by (simp add: turns_left_def)
  next
    case (acked w u rest b)
    have n: "next_sequence u = Inr (succ_sequence u)" using acked by (simp add: next_sequence_valid)
    let ?d = "d\<lparr>dv_tx_seq := succ_sequence u\<rparr>"
    have step: "device_task ctr 0 d = map_option (\<lambda>(sent, task, d2).
        (sent, d2\<lparr>dv_tasks := (case task of None \<Rightarrow> [] | Some t \<Rightarrow> [t])\<rparr>))
        (Some (send_chunks (chunks_of rest (succ_sequence u)) ?d))"
      using acked n by (simp add: device_task_def task_turn_def task_resume_def)
    have u: "valid_sequence (succ_sequence u)" using acked valid_succ_sequence by simp
    show ?thesis
    proof (cases "rest = []")
      case True
      let ?d2 = "?d\<lparr>dv_tasks := []\<rparr>"
      have "peered_step ctr (Device_task 0) (l, d) = Some (l, ?d2)"
        using step True by (simp add: notify_all_def)
      moreover have "exchanging ctr f m shade (l, ?d2)"
        using acked True q req wk u replying.answered [of ?d2 shade ctr f m]
        by (intro exchangingI [where rem = "[]" and rq = "[]"]) auto
      moreover have "Suc (turns_left m (l, ?d2)) = turns_left m (l, d)"
        using acked True req by (simp add: turns_left_def requesting_def split: sender.split_asm)
      ultimately show ?thesis by blast
    next
      case False
      from turn_task_sends [OF ex False u _ _ _ _ _ _ _ _ _ _ step] acked False q req wk u show ?thesis
        by (simp add: turns_left_def number_of_chunks)
    qed
  qed (use ready in \<open>simp_all add: ready_task_def\<close>)
qed

text \<open>Between two calls: both directions at rest, each side expecting the other's next number.\<close>

definition synced :: "peered \<Rightarrow> bool" where
  "synced p \<longleftrightarrow>
     (let (l, d) = p in
      quiet (dv_tx_seq d) l \<and> sender l = Sender_idle \<and> dv_assembler d = expecting (tx_sequence l) [] \<and>
      dv_notify d \<and> dv_tasks d = [])"

lemma finished_synced:
  assumes ex: "exchanging ctr f m shade (l, d)" and t: "turns_left m (l, d) = 0"
  shows "sender l = Sender_done (Inr m) \<and> dv_shade d = shade \<and> synced (l\<lparr>sender := Sender_idle\<rparr>, d)"
proof -
  obtain rem rq where q: "notification_queue l = awaited_ack l @ rq"
    and req: "requesting rem l (asm_expected_sequence (dv_assembler d))"
    and rep: "replying ctr f m shade rem rq (link_assembler l) (received l) d"
    and wk: "worker l = Worker_waiting" "dv_notify d" "valid_sequence (dv_tx_seq d)"
    using ex by (auto simp: exchanging_def)
  obtain r where r: "sender l = Sender_done r" "dv_tasks d = []" "notification_queue l = []"
    using t req by (auto simp: turns_left_def requesting_def split: sender.splits list.splits request_task.splits)
  with req have rem: "rem = []" "ack_waiters l = []" "asm_expected_sequence (dv_assembler d) = tx_sequence l"
    "valid_sequence (tx_sequence l)" by (simp_all add: requesting_def)
  from rep rem(1) r(2) have a: "asm_buffer (dv_assembler d) = []" "dv_shade d = shade"
    "link_assembler l = expecting (dv_tx_seq d) []" "received l = [Inr m]" by (cases; simp)+
  have "dv_assembler d = expecting (tx_sequence l) []" using a(1) rem(3) by (cases "dv_assembler d") simp
  moreover have "r = Inr m" "response_queue l = []" using a(4) r(1) by (auto simp: received_def)
  ultimately show ?thesis using a r rem wk
    by (simp add: synced_def quiet_def at_rest_for_def)
qed

text \<open>An exchange that has not ended has a turn; \<open>next_turn\<close> picks one.\<close>

definition next_turn :: "peered \<Rightarrow> turn" where
  "next_turn p =
     (let (l, d) = p in
      if notification_queue l \<noteq> [] then Client_worker
      else if ready_task d then Device_task 0
      else case sender l of Sender_response \<Rightarrow> Client_response | _ \<Rightarrow> Client_acked)"

lemma next_turn_progress:
  assumes ex: "exchanging ctr f m shade (l, d)" and m: "m \<noteq> []" and t: "turns_left m (l, d) \<noteq> 0"
  shows "\<exists>p. peered_step ctr (next_turn (l, d)) (l, d) = Some p"
proof -
  consider (queue) "notification_queue l \<noteq> []" | (task) "notification_queue l = []" "ready_task d"
    | (sender) "notification_queue l = []" "\<not> ready_task d" by blast
  then show ?thesis
  proof cases
    case queue
    then show ?thesis using turn_worker [OF ex queue] by (auto simp: next_turn_def simp del: peered_step.simps)
  next
    case task
    then show ?thesis using turn_task [OF ex m task(2)] by (auto simp: next_turn_def simp del: peered_step.simps)
  next
    case sender
    obtain rem where req: "requesting rem l (asm_expected_sequence (dv_assembler d))"
      and rep: "replying ctr f m shade rem [] (link_assembler l) (received l) d" and ack: "awaited_ack l = []"
      using ex sender(1) by (auto simp: exchanging_def)
    show ?thesis
    proof (cases "sender l")
      case (Sender_acking a)
      then show ?thesis using turn_acked [OF ex _ ack] sender
        by (auto simp: next_turn_def simp del: peered_step.simps)
    next
      case Sender_response
      then have "rem = []" using req by (simp add: requesting_def)
      with rep sender(2) have "received l \<noteq> []" by cases (auto simp: ready_task_def)
      then show ?thesis using turn_response [OF ex Sender_response] sender Sender_response
        by (auto simp: next_turn_def simp del: peered_step.simps)
    next
      case (Sender_done r)
      then have rem: "rem = []" using req by (simp add: requesting_def)
      with rep sender(2) have "dv_tasks d = []" by cases (auto simp: ready_task_def)
      then show ?thesis using t sender(1) Sender_done by (simp add: turns_left_def)
    qed (use req in \<open>simp_all add: requesting_def\<close>)
  qed
qed

subsection \<open>Every interleaving\<close>

lemma peered_step_exchanging:
  assumes ex: "exchanging ctr f m shade p" and m: "m \<noteq> []" and step: "peered_step ctr t p = Some p'"
  shows "exchanging ctr f m shade p' \<and> Suc (turns_left m p') = turns_left m p"
proof -
  obtain l d where p: "p = (l, d)" by (metis surj_pair)
  obtain rem rq where q: "notification_queue l = awaited_ack l @ rq"
    and req: "requesting rem l (asm_expected_sequence (dv_assembler d))"
    and rep: "replying ctr f m shade rem rq (link_assembler l) (received l) d"
    using ex by (auto simp: exchanging_def p)
  have taken: ?thesis if "\<exists>p. peered_step ctr t (l, d) = Some p \<and> exchanging ctr f m shade p \<and>
      Suc (turns_left m p) = turns_left m (l, d)"
    using that step p by auto
  show ?thesis
  proof (cases t)
    case Client_worker
    then have "notification_queue l \<noteq> []"
      using step p by (auto simp: worker_take_def bind_eq_Some_conv split: worker.splits list.splits)
    then show ?thesis using turn_worker ex p taken Client_worker by blast
  next
    case Client_acked
    then obtain a where a: "sender l = Sender_acking a" "futures l ! at_waiter a \<noteq> Pending"
      using step p by (auto simp: sender_wake_def bind_eq_Some_conv split: sender.splits future.splits)
    then have "awaited_ack l = []" by (simp add: awaited_ack_def)
    then show ?thesis using turn_acked ex p a(1) taken Client_acked by blast
  next
    case Client_response
    then have "sender l = Sender_response" "received l \<noteq> []"
      using step p by (auto simp: take_response_def received_def split: sender.splits list.splits)
    then show ?thesis using turn_response ex p taken Client_response by blast
  next
    case (Device_task k)
    then have "k < length (dv_tasks d)" "task_turn ctr (dv_tasks d ! k) d \<noteq> None"
      using step p by (auto simp: device_task_def split: if_split_asm)
    moreover from rep this(1) have "k = 0" by cases auto
    ultimately have "ready_task d"
      by (cases "dv_tasks d") (auto simp: ready_task_def task_turn_def split: request_task.splits if_split_asm)
    then show ?thesis using turn_task [OF _ m] ex p taken Device_task \<open>k = 0\<close> by blast
  qed
qed

lemma peered_run_exchanging:
  "exchanging ctr f m shade p \<Longrightarrow> m \<noteq> [] \<Longrightarrow> peered_run ctr ts p = Some p' \<Longrightarrow>
   exchanging ctr f m shade p' \<and> turns_left m p' + length ts = turns_left m p"
proof (induction ctr ts p rule: peered_run.induct)
  case (2 ctr t ts p)
  obtain p1 where p1: "peered_step ctr t p = Some p1" "peered_run ctr ts p1 = Some p'"
    using "2.prems"(3) by (auto simp: bind_eq_Some_conv)
  from peered_step_exchanging [OF "2.prems"(1,2) p1(1)] "2.IH" [OF p1(1) _ "2.prems"(2) p1(2)] show ?case by auto
qed simp

lemma peered_send_exchanging:
  assumes "synced (l, d)" and "f \<noteq> []" and "handle_request ctr (dv_shade d) f = (Inr m, shade)"
  shows "\<exists>p. peered_send f r (l, d) = Some p \<and> exchanging ctr f m shade p \<and>
    turns_left m p = 2 * number_of_chunks f + 2 * number_of_chunks m + 2 \<and>
    received (fst p) = [] \<and> (dv_tasks (snd p) = [] \<or> dv_tasks (snd p) = [Task_new f])"
proof -
  have q: "quiet (dv_tx_seq d) l" "sender l = Sender_idle" "dv_assembler d = expecting (tx_sequence l) []"
    "dv_notify d" "dv_tasks d = []" using assms(1) by (simp_all add: synced_def)
  have "send_frame f r l = next_chunk (chunks_of f (tx_sequence l)) (if r then 2 else 1) l"
    using q(1) assms(2) by (simp add: send_frame_def quiet_def chunk_for_ble_eq [THEN iffD2])
  then show ?thesis
    using next_chunk_delivered [of f l d "[]" f ctr m shade l "if r then 2 else 1"] q assms
    by (simp add: peered_send_def quiet_def at_rest_for_def received_def)
qed

lemma exchanging_done:
  assumes "exchanging ctr f m shade (l, d)" and "sender l = Sender_done res"
  shows "res = Inr m"
proof -
  obtain rem rq where "replying ctr f m shade rem rq (link_assembler l) (received l) d"
    using assms(1) by (auto simp: exchanging_def)
  then show ?thesis using assms(2)
    by cases (auto simp: received_def append_eq_Cons_conv split: if_split_asm)
qed

lemma peered_run_outcome:
  assumes sync: "synced (l, d)" and f: "f \<noteq> []" and m: "m \<noteq> []"
    and h: "handle_request ctr (dv_shade d) f = (Inr m, shade)"
    and send: "peered_send f r (l, d) = Some p" and run: "peered_run ctr ts p = Some (l', d')"
  defines "n \<equiv> 2 * number_of_chunks f + 2 * number_of_chunks m + 2"
  shows "length ts \<le> n" and "sender l' = Sender_done res \<Longrightarrow> res = Inr m"
    and "length ts < n \<Longrightarrow> peered_step ctr (next_turn (l', d')) (l', d') \<noteq> None"
    and "length ts = n \<Longrightarrow> sender l' = Sender_done (Inr m) \<and> dv_shade d' = shade \<and>
      synced (l'\<lparr>sender := Sender_idle\<rparr>, d')"
proof -
  have p: "exchanging ctr f m shade p" "turns_left m p = n"
    using peered_send_exchanging [OF sync f h, of r] send by (simp_all add: n_def)
  from peered_run_exchanging [OF p(1) m run]
  have e: "exchanging ctr f m shade (l', d')" and left: "turns_left m (l', d') + length ts = n"
    using p(2) by simp_all
  from left show "length ts \<le> n" by simp
  show "res = Inr m" if "sender l' = Sender_done res" using exchanging_done [OF e that] .
  show "peered_step ctr (next_turn (l', d')) (l', d') \<noteq> None" if "length ts < n"
    using next_turn_progress [OF e m] left that by auto
  show "sender l' = Sender_done (Inr m) \<and> dv_shade d' = shade \<and> synced (l'\<lparr>sender := Sender_idle\<rparr>, d')"
    if "length ts = n" using finished_synced [OF e] left that by simp
qed

subsection \<open>One call against the device\<close>

text \<open>
  \<open>_send_frame\<close> against the device: the event loop, \<open>sched\<close>, picks which of the tasks that can go on
  takes the next turn, and when none can the client's timers fire. The turns of an answered request
  are enough fuel; a request the shade does not answer has fewer.
\<close>

type_synonym scheduler = "peered \<Rightarrow> turn"

definition scheduled :: "scheduler \<Rightarrow> cipher \<Rightarrow> peered \<Rightarrow> turn" where
  "scheduled sched ctr p = (if peered_step ctr (sched p) p = None then next_turn p else sched p)"

fun take_turns :: "scheduler \<Rightarrow> cipher \<Rightarrow> nat \<Rightarrow> peered \<Rightarrow> peered" where
  "take_turns sched ctr 0 p = p"
| "take_turns sched ctr (Suc n) p =
     (case peered_step ctr (scheduled sched ctr p) p of None \<Rightarrow> p | Some p1 \<Rightarrow> take_turns sched ctr n p1)"

definition turns_of_call :: "cipher \<Rightarrow> bytes \<Rightarrow> device \<Rightarrow> nat" where
  "turns_of_call ctr frame d =
     2 * number_of_chunks frame +
     2 * (case fst (handle_request ctr (dv_shade d) frame) of Inr m \<Rightarrow> number_of_chunks m | Inl _ \<Rightarrow> 0) + 2"

definition device_exchange :: "scheduler \<Rightarrow> cipher \<Rightarrow> bytes \<Rightarrow> bool \<Rightarrow> peered \<Rightarrow> (exc + bytes) \<times> peered" where
  "device_exchange sched ctr frame retry_chunks p =
     (case peered_send frame retry_chunks p of
        None \<Rightarrow> (Inl CancelledError, p)
      | Some p1 \<Rightarrow>
          (let (l1, d1) = take_turns sched ctr (turns_of_call ctr frame (snd p)) p1;
               l2 = settle (sender_measure (sender l1)) l1
           in (case sender l2 of Sender_done r \<Rightarrow> r | _ \<Rightarrow> Inl CancelledError,
               (l2\<lparr>sender := Sender_idle\<rparr>, d1))))"

lemma scheduled_progress:
  assumes "exchanging ctr f m shade p" and "m \<noteq> []" and "turns_left m p \<noteq> 0"
  shows "\<exists>p1. peered_step ctr (scheduled sched ctr p) p = Some p1"
  using next_turn_progress [of ctr f m shade "fst p" "snd p"] assms by (auto simp: scheduled_def)

lemma take_turns_exchanging:
  "exchanging ctr f m shade p \<Longrightarrow> m \<noteq> [] \<Longrightarrow> n = turns_left m p \<Longrightarrow>
   exchanging ctr f m shade (take_turns sched ctr n p) \<and> turns_left m (take_turns sched ctr n p) = 0"
proof (induction n arbitrary: p)
  case (Suc n)
  obtain p1 where p1: "peered_step ctr (scheduled sched ctr p) p = Some p1"
    using scheduled_progress Suc.prems by (metis nat.distinct(1))
  note e = peered_step_exchanging [OF Suc.prems(1,2) p1]
  have "n = turns_left m p1" using e Suc.prems(3) by simp
  from Suc.IH [OF _ Suc.prems(2) this] e
  have "exchanging ctr f m shade (take_turns sched ctr n p1) \<and> turns_left m (take_turns sched ctr n p1) = 0" by blast
  moreover have "take_turns sched ctr (Suc n) p = take_turns sched ctr n p1" using p1 by simp
  ultimately show ?case by (simp only:)
qed simp

text \<open>
  Schedulers that look at the state are all there are: the turns of a call never repeat a state, so
  every run of them is the one of some scheduler.
\<close>

lemma take_turns_cong:
  assumes "exchanging ctr f m shade p" and "m \<noteq> []"
    and "\<And>q. turns_left m q \<le> turns_left m p \<Longrightarrow> sched q = sched' q"
  shows "take_turns sched ctr n p = take_turns sched' ctr n p"
  using assms
proof (induction n arbitrary: p)
  case (Suc n)
  have same: "scheduled sched ctr p = scheduled sched' ctr p" using Suc.prems(3) by (simp add: scheduled_def)
  show ?case
  proof (cases "peered_step ctr (scheduled sched' ctr p) p")
    case (Some p1)
    note e = peered_step_exchanging [OF Suc.prems(1,2) Some]
    have "take_turns sched ctr n p1 = take_turns sched' ctr n p1"
    proof (rule Suc.IH)
      show "exchanging ctr f m shade p1" "m \<noteq> []" using e Suc.prems(2) by simp_all
      show "sched q = sched' q" if "turns_left m q \<le> turns_left m p1" for q
        using that e by (intro Suc.prems(3)) simp
    qed
    then show ?thesis using Some same by simp
  qed (simp add: same)
qed simp

lemma every_run_scheduled:
  "exchanging ctr f m shade p \<Longrightarrow> m \<noteq> [] \<Longrightarrow> peered_run ctr ts p = Some p' \<Longrightarrow>
   \<exists>sched. take_turns sched ctr (length ts) p = p'"
proof (induction ctr ts p rule: peered_run.induct)
  case (2 ctr t ts p)
  obtain p1 where p1: "peered_step ctr t p = Some p1" "peered_run ctr ts p1 = Some p'"
    using "2.prems"(3) by (auto simp: bind_eq_Some_conv)
  note e = peered_step_exchanging [OF "2.prems"(1,2) p1(1)]
  obtain sched where sched: "take_turns sched ctr (length ts) p1 = p'"
    using "2.IH" [OF p1(1) _ "2.prems"(2) p1(2)] e by blast
  have "take_turns (sched(p := t)) ctr (length ts) p1 = take_turns sched ctr (length ts) p1"
  proof (rule take_turns_cong)
    show "exchanging ctr f m shade p1" "m \<noteq> []" using e "2.prems"(2) by simp_all
    show "(sched(p := t)) q = sched q" if "turns_left m q \<le> turns_left m p1" for q
      using that e by auto
  qed
  then have "take_turns (sched(p := t)) ctr (length (t # ts)) p = p'"
    using p1(1) sched by (simp add: scheduled_def del: peered_step.simps)
  then show ?case by blast
qed simp

lemma device_exchange_answers:
  assumes "synced (l, d)" and "f \<noteq> []" and "handle_request ctr (dv_shade d) f = (Inr m, shade)" and "m \<noteq> []"
  shows "\<exists>p. device_exchange sched ctr f r (l, d) = (Inr m, p) \<and> synced p \<and> dv_shade (snd p) = shade"
proof -
  obtain p1 where p1: "peered_send f r (l, d) = Some p1" "exchanging ctr f m shade p1"
    "turns_left m p1 = turns_of_call ctr f d"
    using peered_send_exchanging [OF assms(1-3), of r] assms(3) by (auto simp: turns_of_call_def)
  obtain l2 d2 where t: "take_turns sched ctr (turns_of_call ctr f d) p1 = (l2, d2)" by (metis surj_pair)
  have "exchanging ctr f m shade (l2, d2)" "turns_left m (l2, d2) = 0"
    using take_turns_exchanging [OF p1(2) assms(4) p1(3) [symmetric], of sched] t by simp_all
  from finished_synced [OF this] show ?thesis
    using p1(1) t by (simp add: device_exchange_def)
qed

end
