(* ===== verification/Lost_Reply.thy ===== *)
theory Lost_Reply
  imports Fake_Device
begin

text \<open>
  A device whose answers to position requests get lost: the request arrives, the shade carries it
  out, but no chunk of the reply reaches the client. The client's wait for the response times out,
  and so does the device's wait for the acknowledgement, in whatever order the tasks run until then.
\<close>

fun lossy_step :: "cipher \<Rightarrow> turn \<Rightarrow> peered \<Rightarrow> peered option" where
  "lossy_step ctr (Device_task k) (l, d) = map_option (\<lambda>(sent, d1). (l, d1)) (device_task ctr k d)"
| "lossy_step ctr t p = peered_step ctr t p"

lemma lossy_step_None [simp]: "lossy_step ctr t p = None \<longleftrightarrow> peered_step ctr t p = None"
  by (cases t; cases p) simp_all

fun take_lossy_turns :: "scheduler \<Rightarrow> cipher \<Rightarrow> nat \<Rightarrow> peered \<Rightarrow> peered" where
  "take_lossy_turns sched ctr 0 p = p"
| "take_lossy_turns sched ctr (Suc n) p =
     (case lossy_step ctr (scheduled sched ctr p) p of None \<Rightarrow> p | Some p1 \<Rightarrow> take_lossy_turns sched ctr n p1)"

definition device_gives_up :: "device \<Rightarrow> device" where
  "device_gives_up d = (case device_timeout 0 d of None \<Rightarrow> d | Some d1 \<Rightarrow> d1)"

definition lossy_exchange :: "scheduler \<Rightarrow> cipher \<Rightarrow> bytes \<Rightarrow> bool \<Rightarrow> peered \<Rightarrow> (exc + bytes) \<times> peered" where
  "lossy_exchange sched ctr frame retry_chunks p =
     (if retry_chunks then device_exchange sched ctr frame True p
      else case peered_send frame False p of
          None \<Rightarrow> (Inl CancelledError, p)
        | Some p1 \<Rightarrow>
            (let (l1, d1) = take_lossy_turns sched ctr (turns_of_call ctr frame (snd p)) p1;
                 l2 = settle (sender_measure (sender l1)) l1
             in (case sender l2 of Sender_done r \<Rightarrow> r | _ \<Rightarrow> Inl CancelledError,
                 (l2\<lparr>sender := Sender_idle\<rparr>, device_gives_up d1))))"

subsection \<open>The client waits in vain\<close>

text \<open>
  Nothing is on its way to the client but perhaps the acknowledgement of the last chunk of the request.
\<close>

definition unanswered :: "int \<Rightarrow> link \<Rightarrow> bool" where
  "unanswered t l \<longleftrightarrow>
     notification_queue l = awaited_ack l \<and> worker l = Worker_waiting \<and> response_queue l = [] \<and>
     link_assembler l = expecting t []"

definition lost :: "fake_shade \<Rightarrow> peered \<Rightarrow> bool" where
  "lost shade p \<longleftrightarrow>
     (let (l, d) = p in
      unanswered (dv_tx_seq d) l \<and> requesting [] l (asm_expected_sequence (dv_assembler d)) \<and> \<not> is_done l \<and>
      dv_notify d \<and> valid_sequence (dv_tx_seq d) \<and> asm_buffer (dv_assembler d) = [] \<and> dv_shade d = shade \<and>
      (\<exists>w u rest. dv_tasks d = [Task_sending w u rest] \<and> dv_futures d ! w = Pending))"

definition lost_left :: "peered \<Rightarrow> nat" where
  "lost_left p =
     (case sender (fst p) of Sender_acking _ \<Rightarrow> 1 | _ \<Rightarrow> 0) + length (notification_queue (fst p))"

definition gives_up_synced :: "fake_shade \<Rightarrow> peered \<Rightarrow> bool" where
  "gives_up_synced shade p \<longleftrightarrow>
     (let (l, d) = p; l1 = settle (sender_measure (sender l)) l in
      (\<exists>e. sender l1 = Sender_done (Inl (TiltBleTimeout e))) \<and>
      synced (l1\<lparr>sender := Sender_idle\<rparr>, device_gives_up d) \<and> dv_shade (device_gives_up d) = shade)"

lemma lost_sender:
  assumes "lost shade (l, d)"
  obtains (response) "sender l = Sender_response" | (acking) a where "sender l = Sender_acking a"
  using assms by (cases "sender l") (auto simp: lost_def requesting_def is_done_def)

lemma lost_response:
  assumes lost: "lost shade (l, d)" and s: "sender l = Sender_response"
  shows "gives_up_synced shade (l, d)"
proof -
  let ?l = "finish (Inl (TiltBleTimeout ''Timed out waiting for Tilt response.'')) l"
  obtain w u rest where d: "dv_tasks d = [Task_sending w u rest]" "dv_futures d ! w = Pending"
    using lost by (auto simp: lost_def)
  have l: "unanswered (dv_tx_seq d) l" "requesting [] l (asm_expected_sequence (dv_assembler d))"
    "dv_notify d" "valid_sequence (dv_tx_seq d)" "asm_buffer (dv_assembler d) = []" "dv_shade d = shade"
    using lost by (simp_all add: lost_def)
  have "settle (sender_measure (sender l)) l = ?l"
    using s l(1) by (simp add: is_done_def silent_event_def response_timeout_def unanswered_def)
  moreover have "dv_assembler d = expecting (tx_sequence l) []"
    using l(2,5) s by (cases "dv_assembler d") (simp add: requesting_def)
  ultimately show "gives_up_synced shade (l, d)"
    using l s d by (simp add: gives_up_synced_def device_gives_up_def device_timeout_def synced_def quiet_def
        at_rest_for_def unanswered_def requesting_def finish_def awaited_ack_def)
qed

text \<open>The two turns that are left: the worker takes the acknowledgement, the sender wakes up.\<close>

lemma lost_worker:
  assumes lost: "lost shade (l, d)" and q: "notification_queue l \<noteq> []"
  shows "\<exists>l1. link_step Worker_take l = Some l1 \<and> writes l1 = writes l \<and> lost shade (l1, d) \<and>
    Suc (lost_left (l1, d)) = lost_left (l, d)"
proof -
  have l: "unanswered (dv_tx_seq d) l" "requesting [] l (asm_expected_sequence (dv_assembler d))"
    using lost by (simp_all add: lost_def)
  have "awaited_ack l \<noteq> []" using l(1) q by (simp add: unanswered_def)
  then obtain a where a: "sender l = Sender_acking a" "futures l ! at_waiter a = Pending"
    and al: "awaited_ack l = [ack_for (at_chunk a)]"
    by (auto simp: awaited_ack_def split: sender.splits if_split_asm)
  have seq: "chunk_sequence (at_chunk a) = tx_sequence l" "ack_waiters l = [(tx_sequence l, at_waiter a)]"
      "valid_sequence (tx_sequence l)" "at_waiter a < length (futures l)"
    using l(2) a by (simp_all add: requesting_def)
  obtain x where x: "parse_ble_chunk (ack_for (at_chunk a)) = Inr x" "ch_for_bluetooth_layer x"
    using ack_for_parses(2) [of "at_chunk a"] seq by auto
  let ?l = "l\<lparr>notification_queue := [], processed := processed l @ [ack_for (at_chunk a)],
    futures := (futures l)[at_waiter a := Finished]\<rparr>"
  have "link_step Worker_take l = Some ?l"
    using x ack_for_parses(1) [of "at_chunk a"] seq l(1) al a
    by (simp add: worker_take_def worker_process_def acknowledge_def complete_future_def unanswered_def)
  moreover have "lost shade (?l, d)"
    using lost l a seq by (simp add: lost_def unanswered_def awaited_ack_def requesting_def is_done_def)
  moreover have "Suc (lost_left (?l, d)) = lost_left (l, d)"
    using l(1) al by (simp add: lost_left_def unanswered_def)
  ultimately show ?thesis by auto
qed

lemma lost_acked:
  assumes lost: "lost shade (l, d)" and a: "sender l = Sender_acking a" and f: "futures l ! at_waiter a \<noteq> Pending"
  shows "\<exists>l1. link_step Sender_wake l = Some l1 \<and> writes l1 = writes l \<and> lost shade (l1, d) \<and>
    Suc (lost_left (l1, d)) = lost_left (l, d)"
proof -
  have l: "unanswered (dv_tx_seq d) l" "requesting [] l (asm_expected_sequence (dv_assembler d))"
    using lost by (simp_all add: lost_def)
  let ?l = "l\<lparr>ack_waiters := [], tx_sequence := succ_sequence (tx_sequence l), sender := Sender_response\<rparr>"
  have s: "valid_sequence (tx_sequence l)" "chunk_sequence (at_chunk a) = tx_sequence l"
    "ack_waiters l = [(tx_sequence l, at_waiter a)]" "futures l ! at_waiter a = Finished" "at_rest a = []"
    "asm_expected_sequence (dv_assembler d) = succ_sequence (tx_sequence l)"
    using l a f by (auto simp: requesting_def)
  have "link_step Sender_wake l = Some ?l"
    using s a by (simp add: sender_wake_def chunk_acknowledged_def release_waiter_def next_sequence_valid Let_def)
  moreover have "notification_queue l = []" using l(1) s(4) a by (simp add: unanswered_def awaited_ack_def)
  then have "lost shade (?l, d)" "Suc (lost_left (?l, d)) = lost_left (l, d)"
    using lost s valid_succ_sequence [OF s(1)] a
    by (simp_all add: lost_def unanswered_def awaited_ack_def requesting_def is_done_def lost_left_def)
  ultimately show ?thesis by auto
qed

lemma lost_step:
  assumes lost: "lost shade p" and step: "lossy_step ctr t p = Some p1"
  shows "lost shade p1 \<and> Suc (lost_left p1) = lost_left p"
proof -
  obtain l d where p: "p = (l, d)" by (metis surj_pair)
  show ?thesis
  proof (cases t)
    case Client_worker
    then have "notification_queue l \<noteq> []"
      using step p by (auto simp: worker_take_def bind_eq_Some_conv split: worker.splits list.splits)
    with lost_worker [of shade l d] lost step Client_worker p show ?thesis by (auto simp: with_write_def)
  next
    case Client_acked
    then obtain a where "sender l = Sender_acking a" "futures l ! at_waiter a \<noteq> Pending"
      using step p by (auto simp: sender_wake_def bind_eq_Some_conv split: sender.splits future.splits)
    with lost_acked [of shade l d] lost step Client_acked p show ?thesis by (auto simp: with_write_def)
  next
    case Client_response
    then show ?thesis using lost step p
      by (auto simp: lost_def unanswered_def take_response_def split: sender.splits)
  next
    case (Device_task k)
    then show ?thesis using lost step p
      by (auto simp: lost_def device_task_def task_turn_def split: if_split_asm)
  qed
qed

lemma lost_progress:
  assumes lost: "lost shade p" and left: "lost_left p \<noteq> 0"
  shows "peered_step ctr (scheduled sched ctr p) p \<noteq> None"
proof -
  obtain l d where p: "p = (l, d)" by (metis surj_pair)
  have task: "\<not> ready_task d" using lost by (auto simp: p lost_def ready_task_def)
  have "peered_step ctr (next_turn (l, d)) (l, d) \<noteq> None"
  proof (cases "notification_queue l = []")
    case False
    with lost_worker [of shade l d] lost p show ?thesis by (auto simp: next_turn_def with_write_def)
  next
    case True
    with left p obtain a where a: "sender l = Sender_acking a" by (auto simp: lost_left_def split: sender.splits)
    moreover have "futures l ! at_waiter a \<noteq> Pending"
      using lost p True a by (auto simp: lost_def unanswered_def awaited_ack_def)
    ultimately show ?thesis using lost_acked [of shade l d a] lost p True task
      by (auto simp: next_turn_def with_write_def)
  qed
  then show ?thesis by (simp add: scheduled_def p)
qed

lemma lost_ends: "lost shade p \<Longrightarrow> lost_left p \<le> n \<Longrightarrow> gives_up_synced shade (take_lossy_turns sched ctr n p)"
proof (induction n arbitrary: p)
  case 0
  obtain l d where p: "p = (l, d)" by (metis surj_pair)
  from lost_sender [OF "0.prems"(1) [unfolded p]] show ?case
    using lost_response [of shade l d] 0 by cases (simp_all add: p lost_left_def)
next
  case (Suc n)
  obtain l d where p: "p = (l, d)" by (metis surj_pair)
  show ?case
  proof (cases "lossy_step ctr (scheduled sched ctr p) p")
    case None
    then have "lost_left p = 0" using lost_progress [OF Suc.prems(1), where ctr = ctr and sched = sched] by auto
    moreover have "gives_up_synced shade p"
      using lost_sender [OF Suc.prems(1) [unfolded p]] lost_response [of shade l d] Suc.prems(1) \<open>lost_left p = 0\<close>
      by cases (simp_all add: p lost_left_def)
    ultimately show ?thesis using None by (simp del: lossy_step_None)
  next
    case (Some p1)
    then show ?thesis using lost_step [OF Suc.prems(1) Some] Suc by simp
  qed
qed

subsection \<open>Until the reply is lost\<close>

definition unstarted :: "bytes \<Rightarrow> peered \<Rightarrow> bool" where
  "unstarted f p \<longleftrightarrow> received (fst p) = [] \<and> (dv_tasks (snd p) = [] \<or> dv_tasks (snd p) = [Task_new f])"

lemma task_loses_reply:
  assumes ex: "exchanging ctr f m shade (l, d)" and m: "m \<noteq> []" and un: "unstarted f (l, d)"
    and tasks: "dv_tasks d = [Task_new f]"
  shows "\<exists>p. lossy_step ctr (Device_task 0) (l, d) = Some p \<and> lost shade p \<and> lost_left p < turns_left m (l, d)"
proof -
  obtain rem rq where ack: "notification_queue l = awaited_ack l @ rq"
    and req: "requesting rem l (asm_expected_sequence (dv_assembler d))"
    and rep: "replying ctr f m shade rem rq (link_assembler l) (received l) d"
    and wk: "worker l = Worker_waiting" "dv_notify d" "valid_sequence (dv_tx_seq d)"
    using ex by (auto simp: exchanging_def)
  have got: "received l = []" using un by (simp add: unstarted_def)
  from rep tasks have a: "rem = []" "rq = []" "asm_buffer (dv_assembler d) = []"
    "handle_request ctr (dv_shade d) f = (Inr m, shade)" "link_assembler l = expecting (dv_tx_seq d) []" by (cases; simp)+
  obtain c cs where cs: "chunks_of m (dv_tx_seq d) = c # cs" using m by (cases "chunks_of m (dv_tx_seq d)") auto
  let ?w = "length (dv_futures d)" and ?u = "chunk_sequence c"
  let ?d = "d\<lparr>dv_shade := shade, dv_futures := dv_futures d @ [Pending],
    dv_ack_waiters := AList.update ?u ?w (dv_ack_waiters d), dv_tasks := [Task_sending ?w ?u cs]\<rparr>"
  have "device_task ctr 0 d = Some ([c], ?d)"
    using tasks a(4) m wk cs
    by (simp add: device_task_def task_turn_def task_start_def chunk_for_ble_eq [THEN iffD2] emit_def Let_def)
  then have "lossy_step ctr (Device_task 0) (l, d) = Some (l, ?d)" by simp
  moreover have "lost shade (l, ?d)"
    using not_done_received [OF got] wk ack req a by (simp add: lost_def unanswered_def)
  moreover have "lost_left (l, ?d) < turns_left m (l, d)"
    using tasks by (simp add: lost_left_def turns_left_def split: sender.split)
  ultimately show ?thesis by blast
qed

text \<open>A turn before the device's task has begun: of the request's transport, or the task's first.\<close>

lemma unstarted_step:
  assumes ex: "exchanging ctr f m shade p" and m: "m \<noteq> []" and un: "unstarted f p"
    and step: "lossy_step ctr t p = Some p1"
  shows "exchanging ctr f m shade p1 \<and> unstarted f p1 \<and> Suc (turns_left m p1) = turns_left m p \<or>
    lost shade p1 \<and> lost_left p1 < turns_left m p"
proof -
  obtain l d where p: "p = (l, d)" by (metis surj_pair)
  obtain rem rq where q: "notification_queue l = awaited_ack l @ rq"
    and rep: "replying ctr f m shade rem rq (link_assembler l) (received l) d"
    using ex by (auto simp: exchanging_def p)
  from rep un have rq: "rq = []" by cases (auto simp: unstarted_def p)
  show ?thesis
  proof (cases t)
    case Client_worker
    then have "awaited_ack l \<noteq> []"
      using step p q rq by (auto simp: worker_take_def bind_eq_Some_conv split: worker.splits list.splits)
    with turn_acknowledgement [OF ex [unfolded p] this] un step Client_worker p show ?thesis
      by (auto simp: unstarted_def simp del: peered_step.simps)
  next
    case Client_acked
    then obtain a where a: "sender l = Sender_acking a" "futures l ! at_waiter a \<noteq> Pending"
      using step p by (auto simp: sender_wake_def bind_eq_Some_conv split: sender.splits future.splits)
    then have "awaited_ack l = []" by (simp add: awaited_ack_def)
    with turn_acked [OF ex [unfolded p] a(1) this] un step Client_acked p show ?thesis
      by (auto simp: unstarted_def simp del: peered_step.simps)
  next
    case Client_response
    then show ?thesis using step p un
      by (auto simp: unstarted_def received_def take_response_def split: sender.splits)
  next
    case (Device_task k)
    then have "k < length (dv_tasks d)" using step p by (auto simp: device_task_def split: if_split_asm)
    then have "dv_tasks d = [Task_new f]" "k = 0" using un p by (auto simp: unstarted_def)
    with task_loses_reply [OF ex [unfolded p] m un [unfolded p]] step Device_task p show ?thesis by auto
  qed
qed

lemma lossy_turns:
  "exchanging ctr f m shade p \<Longrightarrow> m \<noteq> [] \<Longrightarrow> unstarted f p \<Longrightarrow> turns_left m p \<le> n \<Longrightarrow>
   gives_up_synced shade (take_lossy_turns sched ctr n p)"
proof (induction n arbitrary: p)
  case 0
  obtain l d where p: "p = (l, d)" by (metis surj_pair)
  have "sender l = Sender_done (Inr m)" using finished_synced [of ctr f m shade l d] 0 p by simp
  then show ?case using "0.prems"(3) p by (simp add: unstarted_def received_def)
next
  case (Suc n)
  have "turns_left m p \<noteq> 0"
  proof
    assume "turns_left m p = 0"
    then have "sender (fst p) = Sender_done (Inr m)"
      using finished_synced [of ctr f m shade "fst p" "snd p"] Suc.prems(1) by simp
    then show False using Suc.prems(3) by (simp add: unstarted_def received_def)
  qed
  then obtain p1 where p1: "lossy_step ctr (scheduled sched ctr p) p = Some p1"
    using scheduled_progress [OF Suc.prems(1,2), of sched] lossy_step_None by (metis not_None_eq)
  from unstarted_step [OF Suc.prems(1-3) p1] show ?case
    using Suc.IH [of p1] lost_ends [of shade p1 n sched ctr] Suc.prems p1 by auto
qed

lemma lossy_exchange_times_out:
  assumes "synced (l, d)" and "f \<noteq> []" and "handle_request ctr (dv_shade d) f = (Inr m, shade)" and "m \<noteq> []"
  shows "\<exists>e p. lossy_exchange sched ctr f False (l, d) = (Inl (TiltBleTimeout e), p) \<and> synced p \<and> dv_shade (snd p) = shade"
proof -
  obtain p1 where p1: "peered_send f False (l, d) = Some p1" "exchanging ctr f m shade p1" "unstarted f p1"
    "turns_left m p1 = turns_of_call ctr f d"
    using peered_send_exchanging [OF assms(1-3), of False] assms(3) by (auto simp: turns_of_call_def unstarted_def)
  from lossy_turns [OF p1(2) assms(4) p1(3), of "turns_of_call ctr f d" sched] p1(1,4) show ?thesis
    by (auto simp: lossy_exchange_def gives_up_synced_def Let_def split: prod.splits)
qed

end
