(* ===== verification/End_To_End.thy ===== *)
theory End_To_End
  imports Shade_Client Lost_Reply
begin

text \<open>
  \<open>TiltShadeClient\<close> against \<open>FakeShadeClient\<close> (\<open>tests/test_tilt_ble.py\<close>): the client's session
  over its chunked link, with the fake device of \<open>Fake_Device\<close> at the other end.

  \<open>shade_peer\<close> is what the session theorems need of such a link: a request the shade answers comes
  back answered. They hold for every shade, position and cipher; the device provides it.
\<close>

subsection \<open>A shade at the other end of the link\<close>

locale shade_reader =
  fixes ctr :: cipher and send :: "'l sender_fun" and shade_of :: "'l \<Rightarrow> fake_shade"
    and ready :: "'l \<Rightarrow> bool"
  assumes reply: "ready l \<Longrightarrow> f \<noteq> [] \<Longrightarrow> handle_request ctr (shade_of l) f = (Inr m, shade) \<Longrightarrow> m \<noteq> [] \<Longrightarrow>
    \<exists>l'. send f True l = (Inr m, l') \<and> ready l' \<and> shade_of l' = shade"

text \<open>What becomes of a frame sent without chunk retries: it is answered, or its answer is lost.\<close>

locale shade_peer = shade_reader +
  assumes reply_unretried: "ready l \<Longrightarrow> f \<noteq> [] \<Longrightarrow> handle_request ctr (shade_of l) f = (Inr m, shade) \<Longrightarrow> m \<noteq> [] \<Longrightarrow>
    \<exists>l'. send f False l = (Inr m, l') \<and> ready l' \<and> shade_of l' = shade"

locale losing_peer = shade_reader +
  assumes reply_lost: "ready l \<Longrightarrow> f \<noteq> [] \<Longrightarrow> handle_request ctr (shade_of l) f = (Inr m, shade) \<Longrightarrow> m \<noteq> [] \<Longrightarrow>
    \<exists>l' e. send f False l = (Inl (TiltBleTimeout e), l') \<and> ready l' \<and> shade_of l' = shade"

interpretation device: shade_peer ctr "device_exchange sched ctr" "\<lambda>p. dv_shade (snd p)" synced
  for sched ctr
proof unfold_locales
  fix p :: peered and f m shade
  assume "synced p" "f \<noteq> []" "handle_request ctr (dv_shade (snd p)) f = (Inr m, shade)" "m \<noteq> []"
  from device_exchange_answers [of "fst p" "snd p", OF _ this(2-4)] this(1)
  show "\<exists>p'. device_exchange sched ctr f True p = (Inr m, p') \<and> synced p' \<and> dv_shade (snd p') = shade"
    "\<exists>p'. device_exchange sched ctr f False p = (Inr m, p') \<and> synced p' \<and> dv_shade (snd p') = shade"
    by simp_all
qed

interpretation lossy: losing_peer ctr "lossy_exchange sched ctr" "\<lambda>p. dv_shade (snd p)" synced
  for sched ctr
proof unfold_locales
  fix p :: peered and f m shade
  assume h: "synced p" "f \<noteq> []" "handle_request ctr (dv_shade (snd p)) f = (Inr m, shade)" "m \<noteq> []"
  show "\<exists>p'. lossy_exchange sched ctr f True p = (Inr m, p') \<and> synced p' \<and> dv_shade (snd p') = shade"
    using device.reply [OF h] by (simp add: lossy_exchange_def)
  show "\<exists>p' e. lossy_exchange sched ctr f False p = (Inl (TiltBleTimeout e), p') \<and> synced p' \<and> dv_shade (snd p') = shade"
    using lossy_exchange_times_out [of "fst p" "snd p", OF _ h(2-4)] h(1) by simp blast
qed

subsection \<open>A session with a shade\<close>

definition valid_shade :: "fake_shade \<Rightarrow> bool" where
  "valid_shade sh \<longleftrightarrow>
     length (fs_key sh) = 32 \<and> length (fs_nonce sh) = 12 \<and> 0 \<le> fs_position sh \<and> fs_position sh \<le> 100 \<and>
     0 \<le> fs_battery sh \<and> fs_battery sh \<le> 100 \<and> length (fs_versions sh) < 256 \<and>
     (\<forall>v \<in> set (fs_versions sh). 0 \<le> v \<and> v < 256) \<and> (1 \<in> set (fs_versions sh) \<or> 2 \<in> set (fs_versions sh))"

lemma crypto_frame_nonempty [simp]: "crypto_frame c p \<noteq> []"
  by (simp add: crypto_frame_def append_checksum_def)

lemma travelled_range: "0 \<le> travelled tr p q \<and> travelled tr p q \<le> 100"
  by (simp add: travelled_def)

text \<open>The shade after it has carried out a position request.\<close>

definition moved_shade :: "fake_shade \<Rightarrow> int \<Rightarrow> fake_shade" where
  "moved_shade sh target =
     sh\<lparr>fs_position := travelled (fs_travel sh) (fs_position sh) target,
        fs_set_position_calls := fs_set_position_calls sh + 1\<rparr>"

lemma valid_moved_shade [simp]: "valid_shade sh \<Longrightarrow> valid_shade (moved_shade sh target)"
  using travelled_range by (simp add: valid_shade_def moved_shade_def)

lemma moved_shade_simps [simp]:
  "fs_key (moved_shade sh target) = fs_key sh" "fs_nonce (moved_shade sh target) = fs_nonce sh"
  by (simp_all add: moved_shade_def)

definition status_of :: "fake_shade \<Rightarrow> shade_status" where
  "status_of sh = fake_status (fs_position sh * 10) (fs_battery sh)"

lemma status_of_percent: "valid_shade sh \<Longrightarrow> position_percent (status_of sh) = Inr (fs_position sh)"
  using round_div_exact [of 10 "fs_position sh"]
  by (simp add: status_of_def fake_status_def position_percent_def raw_position_to_percent_def
      valid_shade_def mult.commute)

lemma find_supported:
  assumes "1 \<in> set vs \<or> 2 \<in> set vs"
  shows "\<exists>v \<in> {1, 2}. find (\<lambda>version. version \<in> set vs) SUPPORTED_CRYPTO_PROTOCOLS = Some v"
  using assms by (auto simp: SUPPORTED_CRYPTO_PROTOCOLS_def)

context shade_reader
begin

text \<open>A session that has authenticated to its shade.\<close>

definition joined :: "'l session \<Rightarrow> bool" where
  "joined s \<longleftrightarrow>
     ready (s_link s) \<and> valid_session s \<and> valid_shade (shade_of (s_link s)) \<and>
     s_pairing_key s = fs_key (shade_of (s_link s)) \<and> s_nonce s = Some (fs_nonce (shade_of (s_link s)))"

lemma send_crypto:
  assumes "ready l" and "handle_crypto (shade_of l) (crypto_frame c p) = Inr (crypto_frame c' p')"
  shows "\<exists>l'. send (crypto_frame c p) True l = (Inr (crypto_frame c' p'), l') \<and> ready l' \<and>
    shade_of l' = shade_of l"
  using reply [OF assms(1), of "crypto_frame c p" "crypto_frame c' p'" "shade_of l"] assms(2)
  by (simp add: handle_crypto_request)

text \<open>The handshake with any key: the shade's proof decides.\<close>

lemma authenticate_answers:
  assumes s: "s = session_new key l" "length key = 32" and l: "ready l" "shade_of l = sh" "valid_shade sh"
    and proof_key: "length (fs_proof_key sh) = 32"
  shows "\<exists>l'. ready l' \<and> shade_of l' = sh \<and>
    authenticate send s =
      (if hmac_sha256 key PAIRING_KEY_PROOF_MESSAGE = hmac_sha256 (fs_proof_key sh) PAIRING_KEY_PROOF_MESSAGE
       then (Inr (), s\<lparr>s_link := l', s_nonce := Some (fs_nonce sh)\<rparr>)
       else (Inl (AuthenticationError ''Configured pairing key did not authenticate this shade.''),
             s\<lparr>s_link := l'\<rparr>))"
proof -
  obtain v where v: "v \<in> {1, 2}"
    "find (\<lambda>version. version \<in> set (fs_versions sh)) SUPPORTED_CRYPTO_PROTOCOLS = Some v"
    using find_supported [of "fs_versions sh"] l(3) by (auto simp: valid_shade_def)
  have enc1: "encode_protocol_versions_request = Inr (crypto_frame Crypto_REQUEST_PROTOCOL_VERSIONS [])"
    by (simp add: encode_protocol_versions_request_def encode_crypto_request_Inr)
  have enc2: "encode_protocol_selection v = Inr (crypto_frame Crypto_SELECT_PROTOCOL_VERSION [word_of_int v])"
    using v(1)
    by (auto simp: encode_protocol_selection_def encode_crypto_request_Inr SUPPORTED_CRYPTO_PROTOCOLS_def)
  have enc3: "encode_nonce_request = Inr (crypto_frame Crypto_REQUEST_NONCE [])"
    by (simp add: encode_nonce_request_def encode_crypto_request_Inr)
  let ?vr = "versions_response (fs_versions sh)"
  obtain l1 where l1: "send (crypto_frame Crypto_REQUEST_PROTOCOL_VERSIONS []) True l = (Inr ?vr, l1)"
    "ready l1" "shade_of l1 = sh"
    using send_crypto [OF l(1), of Crypto_REQUEST_PROTOCOL_VERSIONS "[]" Crypto_REQUEST_PROTOCOL_VERSIONS] l(2)
    by (auto simp: handle_crypto_def parse_crypto_frame versions_response_def)
  have "rbind (parse_crypto_response ?vr) parse_protocol_versions = Inr (fs_versions sh)"
    using l(3) by (intro parse_versions_response) (simp_all add: valid_shade_def)
  then have neg: "negotiate_version send s = (Inr v, s\<lparr>s_link := l1\<rparr>)"
    using l1(1) v(2) s
    by (simp add: negotiate_version_def enc1 sbind_def session_send_def session_new_def yields_def)
  let ?sel = "crypto_frame Crypto_SELECT_PROTOCOL_VERSION [word_of_int v]"
  obtain l2 where l2: "send ?sel True l1 = (Inr ?sel, l2)" "ready l2" "shade_of l2 = sh"
    using send_crypto [OF l1(2), of Crypto_SELECT_PROTOCOL_VERSION "[word_of_int v]"
        Crypto_SELECT_PROTOCOL_VERSION "[word_of_int v]"] l1(3)
    by (auto simp: handle_crypto_def parse_crypto_frame selection_response_def)
  then have sel: "select_version send v (s\<lparr>s_link := l1\<rparr>) = (Inr (), s\<lparr>s_link := l2\<rparr>)"
    by (simp add: select_version_def enc2 sbind_def session_send_def parse_crypto_frame check_selection_def yields_def)
  let ?proof = "hmac_sha256 (fs_proof_key sh) PAIRING_KEY_PROOF_MESSAGE"
  let ?nf = "crypto_frame Crypto_REQUEST_NONCE (fs_nonce sh @ ?proof)"
  have k: "length (fs_nonce sh) = 12" using l(3) by (simp add: valid_shade_def)
  obtain l3 where l3: "send (crypto_frame Crypto_REQUEST_NONCE []) True l2 = (Inr ?nf, l3)" "ready l3"
    "shade_of l3 = sh"
    using send_crypto [OF l2(2), of Crypto_REQUEST_NONCE "[]" Crypto_REQUEST_NONCE "fs_nonce sh @ ?proof"] l2(3)
      proof_key k
    by (auto simp: handle_crypto_def parse_crypto_frame nonce_response_frame_def pairing_key_proof_def)
  have "fetch_nonce send (s\<lparr>s_link := l2\<rparr>) =
      (if hmac_sha256 key PAIRING_KEY_PROOF_MESSAGE = ?proof
       then (Inr (), s\<lparr>s_link := l3, s_nonce := Some (fs_nonce sh)\<rparr>)
       else (Inl (AuthenticationError ''Configured pairing key did not authenticate this shade.''),
             s\<lparr>s_link := l3\<rparr>))"
    using l3(1) s k
    by (simp add: fetch_nonce_def enc3 sbind_def session_send_def parse_crypto_frame parse_nonce_response_def
        session_new_def yields_def pairing_key_matches_proof_def pairing_key_proof_def compare_digest_def)
  then have "authenticate send s =
      (if hmac_sha256 key PAIRING_KEY_PROOF_MESSAGE = ?proof
       then (Inr (), s\<lparr>s_link := l3, s_nonce := Some (fs_nonce sh)\<rparr>)
       else (Inl (AuthenticationError ''Configured pairing key did not authenticate this shade.''),
             s\<lparr>s_link := l3\<rparr>))"
    by (simp add: authenticate_def sbind_def neg sel)
  with l3 show ?thesis by blast
qed

lemma authenticate_joins:
  assumes s: "s = session_new (fs_key sh) l" and l: "ready l" "shade_of l = sh" "valid_shade sh"
    and key: "fs_proof_key sh = fs_key sh"
  shows "\<exists>s'. authenticate send s = (Inr (), s') \<and> joined s' \<and> shade_of (s_link s') = sh"
proof -
  have k: "length (fs_key sh) = 32" "length (fs_nonce sh) = 12" using l(3) by (simp_all add: valid_shade_def)
  from authenticate_answers [OF s k(1) l] k key obtain l' where "ready l'" "shade_of l' = sh"
    "authenticate send s = (Inr (), s\<lparr>s_link := l', s_nonce := Some (fs_nonce sh)\<rparr>)" by auto
  then show ?thesis using s k l(3) valid_session_new [OF k(1), of l]
    by (simp add: joined_def valid_session_def session_new_def)
qed

end

text \<open>What a whole position change does, for every way the shade may travel.\<close>

definition judged_move :: "string \<Rightarrow> fake_shade \<Rightarrow> int \<Rightarrow> exc + shade_status \<times> bool" where
  "judged_move message sh target =
     (let p = fs_position sh; q = travelled (fs_travel sh) p target; st = status_of (moved_shade sh target)
      in if p = target then Inr (status_of sh, False)
         else if q = target \<or> (if p < target then p < q else q < p) then Inr (st, True)
         else Inl (PositionVerificationPending message st))"

definition move_result :: "fake_shade \<Rightarrow> int \<Rightarrow> exc + shade_status \<times> bool" where
  "move_result =
     judged_move ''Position write completed and the responding shade did not move toward the target.''"

definition lost_move_result :: "fake_shade \<Rightarrow> int \<Rightarrow> exc + shade_status \<times> bool" where
  "lost_move_result =
     judged_move ''Position write timed out and the responding shade did not move toward the target.''"

lemma judged_move_there: "fs_position sh = target \<Longrightarrow> judged_move message sh target = Inr (status_of sh, False)"
  by (simp add: judged_move_def)

lemma verify_judged_move:
  assumes v: "valid_shade sh" and "fs_position sh \<noteq> target"
  shows "verify_move message (status_of sh) (status_of (moved_shade sh target)) target = judged_move message sh target"
proof -
  have "position_percent (status_of (moved_shade sh target)) = Inr (travelled (fs_travel sh) (fs_position sh) target)"
    using status_of_percent [OF valid_moved_shade [OF v, of target]] by (simp add: moved_shade_def)
  then show ?thesis using status_of_percent [OF v] assms(2)
    by (auto simp: verify_move_def moved_toward_def judged_move_def Let_def)
qed

context shade_reader
begin

lemma handle_app_joined:
  assumes "ctr_cipher ctr" and "joined s"
    and "encode_application_request ctr cmd payload (s_pairing_key s) (fs_nonce (shade_of (s_link s))) c mid = Inr f"
  shows "decrypt_app_request ctr f (fs_key (shade_of (s_link s))) (fs_nonce (shade_of (s_link s))) =
    Inr (c, mid, cmd, payload)"
  using handle_app_request(2) [OF assms(1)] assms(2,3) by (simp add: joined_def)

text \<open>Any request of a joined session that the shade answers with \<open>body\<close>.\<close>

lemma joined_request:
  assumes "ctr_cipher ctr" and j: "joined s" and cmd: "cmd \<in> RUNTIME_COMMANDS"
    and app: "\<And>f. decrypt_app_request ctr f (fs_key sh) (fs_nonce sh) = Inr (s_counter s, s_message_id s, cmd, payload) \<Longrightarrow>
      handle_app ctr sh f = (Inr (encode_app_response ctr cmd body (fs_key sh) (fs_nonce sh)
        (s_counter s) (s_message_id s)), sh')"
    and sh: "sh = shade_of (s_link s)"
  shows "\<exists>f m. encode_application_request ctr cmd payload (s_pairing_key s) (fs_nonce sh)
        (s_counter s) (s_message_id s) = Inr f \<and>
    f \<noteq> [] \<and> handle_request ctr sh f = (Inr m, sh') \<and> m \<noteq> [] \<and>
    decode_application_response ctr m (s_pairing_key s) (fs_nonce sh) cmd (s_message_id s) (Some (s_counter s)) =
      Inr \<lparr>ar_command = cmd, ar_message_id = s_message_id s, ar_counter = s_counter s, ar_payload = body\<rparr>"
proof -
  let ?c = "s_counter s" and ?mid = "s_message_id s" and ?key = "s_pairing_key s"
  have ok: "length ?key = 32" "length (fs_nonce sh) = 12" "1 \<le> ?c" "?c \<le> MAX_COUNTER" "0 \<le> ?mid" "?mid \<le> 15"
    and key: "?key = fs_key sh"
    using j sh by (auto simp: joined_def valid_session_def valid_shade_def)
  obtain f where f: "encode_application_request ctr cmd payload ?key (fs_nonce sh) ?c ?mid = Inr f"
    using ok cmd by (auto simp: encode_application_request_Inr)
  then have "f \<noteq> []"
    by (auto simp: encode_application_request_Inr seal_def to_bytes_big_2 Let_def)
  let ?m = "encode_app_response ctr cmd body (fs_key sh) (fs_nonce sh) ?c ?mid"
  have "handle_app ctr sh f = (Inr ?m, sh')" using app handle_app_joined [OF assms(1) j] f sh by simp
  then have "handle_request ctr sh f = (Inr ?m, sh')"
    using handle_app_request(1) [OF assms(1)] f j sh by (simp add: joined_def)
  moreover have "?m \<noteq> []" by (simp add: encode_app_response_seal seal_def to_bytes_big_2 Let_def)
  moreover have "decode_application_response ctr ?m ?key (fs_nonce sh) cmd ?mid (Some ?c) =
      Inr \<lparr>ar_command = cmd, ar_message_id = ?mid, ar_counter = ?c, ar_payload = body\<rparr>"
    unfolding key using ok assms(1) cmd key by (intro decode_app_response) simp_all
  ultimately show ?thesis using f \<open>f \<noteq> []\<close> by blast
qed

lemma joined_after:
  assumes "joined s" and "ready l'" and "valid_shade (shade_of l')"
    and "fs_key (shade_of l') = fs_key (shade_of (s_link s))" and "fs_nonce (shade_of l') = fs_nonce (shade_of (s_link s))"
  shows "joined ((snd (take_application_ids s))\<lparr>s_link := l'\<rparr>)"
  using assms valid_session_ids [of s] by (simp add: joined_def)

lemma joined_ids:
  obtains s1 where "take_application_ids s = ((s_counter s, s_message_id s), s1)"
    "snd (take_application_ids s) = s1" "s_link s1 = s_link s"
  by (simp add: take_application_ids_def)

lemma joined_nonce: "joined s \<Longrightarrow> require_nonce s = Inr (fs_nonce (shade_of (s_link s)))"
  by (simp add: joined_def require_nonce_def)

lemma read_status_joined:
  assumes "ctr_cipher ctr" and j: "joined s"
  shows "\<exists>s'. read_status ctr send s = (Inr (status_of (shade_of (s_link s))), s') \<and> joined s' \<and>
    shade_of (s_link s') = shade_of (s_link s)"
proof -
  let ?sh = "shade_of (s_link s)"
  let ?body = "status_payload (status_of ?sh)"
  have v: "valid_shade ?sh" and ready: "ready (s_link s)" using j by (simp_all add: joined_def)
  obtain f m where h: "encode_application_request ctr Shade_GET_STATUS [] (s_pairing_key s) (fs_nonce ?sh)
        (s_counter s) (s_message_id s) = Inr f"
    "f \<noteq> []" "handle_request ctr ?sh f = (Inr m, ?sh)" "m \<noteq> []"
    "decode_application_response ctr m (s_pairing_key s) (fs_nonce ?sh) Shade_GET_STATUS (s_message_id s)
      (Some (s_counter s)) = Inr \<lparr>ar_command = Shade_GET_STATUS, ar_message_id = s_message_id s,
        ar_counter = s_counter s, ar_payload = ?body\<rparr>"
    using joined_request [OF assms, of Shade_GET_STATUS ?sh "[]" ?body ?sh]
    by (auto simp: handle_app_def RUNTIME_COMMANDS_iff status_of_def)
  obtain l' where l': "send f True (s_link s) = (Inr m, l')" "ready l'" "shade_of l' = ?sh"
    using reply [OF ready h(2-4)] by blast
  have enc: "encode_read_request ctr Shade_GET_STATUS (s_pairing_key s) (fs_nonce ?sh) (s_counter s)
      (s_message_id s) = Inr f"
    using h(1) by (simp add: encode_read_request_def READ_COMMANDS_iff)
  have "valid_status (status_of ?sh)"
    using v by (simp add: valid_status_def status_of_def fake_status_def valid_shade_def)
  then have st: "parse_status \<lparr>ar_command = Shade_GET_STATUS, ar_message_id = s_message_id s,
      ar_counter = s_counter s, ar_payload = ?body\<rparr> = Inr (status_of ?sh)"
    by (simp add: parse_status_payload)
  obtain s1 where s1: "take_application_ids s = ((s_counter s, s_message_id s), s1)"
    "snd (take_application_ids s) = s1" "s_link s1 = s_link s" by (rule joined_ids)
  have "read_status ctr send s = (Inr (status_of ?sh), s1\<lparr>s_link := l'\<rparr>)"
    using h(5) l'(1) enc st joined_nonce [OF j] s1
    by (simp add: read_status_def application_request_def sbind_def session_send_def yields_def)
  then show ?thesis using joined_after [OF j l'(2)] l'(3) v s1(2) by simp
qed

text \<open>The position request of a joined session, and what the shade makes of it.\<close>

lemma position_request_joined:
  assumes "ctr_cipher ctr" and j: "joined s" and target: "0 \<le> target" "target \<le> 100"
  shows "\<exists>f m. encode_position_request ctr (PyInt target) (s_pairing_key s) (fs_nonce (shade_of (s_link s)))
      (s_counter s) (s_message_id s) (PyInt 100) = Inr f \<and>
    f \<noteq> [] \<and> handle_request ctr (shade_of (s_link s)) f = (Inr m, moved_shade (shade_of (s_link s)) target) \<and> m \<noteq> [] \<and>
    (\<exists>r. decode_application_response ctr m (s_pairing_key s) (fs_nonce (shade_of (s_link s))) Shade_SET_POSITION
       (s_message_id s) (Some (s_counter s)) = Inr r)"
proof -
  let ?sh = "shade_of (s_link s)" and ?payload = "to_bytes_little 2 (target * 10) @ [word_of_int 100]"
  have p: "from_bytes_little (take 2 ?payload) div 10 = target"
    using target by (simp add: from_to_bytes_little)
  have app: "handle_app ctr ?sh f = (Inr (encode_app_response ctr Shade_SET_POSITION [] (fs_key ?sh)
      (fs_nonce ?sh) c mid), moved_shade ?sh target)"
    if "decrypt_app_request ctr f (fs_key ?sh) (fs_nonce ?sh) = Inr (c, mid, Shade_SET_POSITION, ?payload)"
    for f c mid
    using that p by (simp add: handle_app_def moved_shade_def Let_def)
  have "encode_position_request ctr (PyInt target) (s_pairing_key s) (fs_nonce ?sh) (s_counter s)
      (s_message_id s) (PyInt 100) = Inr f"
    if "encode_application_request ctr Shade_SET_POSITION ?payload (s_pairing_key s) (fs_nonce ?sh) (s_counter s)
      (s_message_id s) = Inr f" for f
    using that target by (simp add: encode_position_request_Inr)
  then show ?thesis
    using joined_request [where payload = ?payload, OF assms(1,2) _ app refl]
    by (simp add: RUNTIME_COMMANDS_iff) blast
qed

end

context shade_peer
begin

lemma set_position_joined:
  assumes "ctr_cipher ctr" and j: "joined s" and target: "0 \<le> target" "target \<le> 100"
  shows "\<exists>s'. set_position ctr send target s = (Inr (), s') \<and> joined s' \<and>
    shade_of (s_link s') = moved_shade (shade_of (s_link s)) target"
proof -
  let ?sh = "shade_of (s_link s)"
  have ready: "ready (s_link s)" and v: "valid_shade ?sh" using j by (simp_all add: joined_def)
  obtain f m r where h: "encode_position_request ctr (PyInt target) (s_pairing_key s) (fs_nonce ?sh)
      (s_counter s) (s_message_id s) (PyInt 100) = Inr f"
    "f \<noteq> []" "handle_request ctr ?sh f = (Inr m, moved_shade ?sh target)" "m \<noteq> []"
    "decode_application_response ctr m (s_pairing_key s) (fs_nonce ?sh) Shade_SET_POSITION
       (s_message_id s) (Some (s_counter s)) = Inr r"
    using position_request_joined [OF assms] by blast
  obtain l' where l': "send f False (s_link s) = (Inr m, l')" "ready l'" "shade_of l' = moved_shade ?sh target"
    using reply_unretried [OF ready h(2-4)] by blast
  obtain s1 where s1: "take_application_ids s = ((s_counter s, s_message_id s), s1)"
    "snd (take_application_ids s) = s1" "s_link s1 = s_link s" by (rule joined_ids)
  have "set_position ctr send target s = (Inr (), s1\<lparr>s_link := l'\<rparr>)"
    using h(1,5) l'(1) joined_nonce [OF j] s1
    by (simp add: set_position_def sbind_def session_send_def yields_def)
  then show ?thesis using joined_after [OF j l'(2)] l'(3) v s1(2) by simp
qed

lemma position_operation_joined:
  assumes "ctr_cipher ctr" and j: "joined s" and target: "0 \<le> target" "target \<le> 100"
    and sh: "sh = shade_of (s_link s)"
  shows "\<exists>s'. position_operation ctr send target s = (move_result sh target, s') \<and> joined s' \<and>
    shade_of (s_link s') = (if fs_position sh = target then sh else moved_shade sh target)"
proof -
  have v: "valid_shade sh" using j sh by (simp add: joined_def)
  obtain s1 where s1: "read_status ctr send s = (Inr (status_of sh), s1)" "joined s1" "shade_of (s_link s1) = sh"
    using read_status_joined [OF assms(1,2)] sh by auto
  note before = status_of_percent [OF v]
  show ?thesis
  proof (cases "fs_position sh = target")
    case True
    then show ?thesis using s1 before judged_move_there
      by (intro exI [of _ s1]) (simp add: position_operation_def sbind_def yields_def move_result_def)
  next
    case False
    let ?sh' = "moved_shade sh target"
    obtain s2 where s2: "set_position ctr send target s1 = (Inr (), s2)" "joined s2" "shade_of (s_link s2) = ?sh'"
      using set_position_joined [OF assms(1) s1(2) target] s1(3) by auto
    obtain s3 where s3: "read_status ctr send s2 = (Inr (status_of ?sh'), s3)" "joined s3"
      "shade_of (s_link s3) = ?sh'"
      using read_status_joined [OF assms(1) s2(2)] s2(3) by auto
    have "position_operation ctr send target s = (move_result sh target, s3)"
      using s1 s2 s3 before False verify_judged_move [OF v False]
      by (simp add: position_operation_def sbind_def yields_def after_write_def move_result_def)
    then show ?thesis using s3 False by auto
  qed
qed

end

text \<open>With the reply lost, the write is not repeated: the status read after it decides.\<close>

context losing_peer
begin

lemma set_position_lost:
  assumes "ctr_cipher ctr" and j: "joined s" and target: "0 \<le> target" "target \<le> 100"
  shows "\<exists>e s'. set_position ctr send target s = (Inl (TiltBleTimeout e), s') \<and> joined s' \<and>
    shade_of (s_link s') = moved_shade (shade_of (s_link s)) target"
proof -
  let ?sh = "shade_of (s_link s)"
  have ready: "ready (s_link s)" and v: "valid_shade ?sh" using j by (simp_all add: joined_def)
  obtain f m where h: "encode_position_request ctr (PyInt target) (s_pairing_key s) (fs_nonce ?sh)
      (s_counter s) (s_message_id s) (PyInt 100) = Inr f"
    "f \<noteq> []" "handle_request ctr ?sh f = (Inr m, moved_shade ?sh target)" "m \<noteq> []"
    using position_request_joined [OF assms] by blast
  obtain l' e where l': "send f False (s_link s) = (Inl (TiltBleTimeout e), l')" "ready l'"
    "shade_of l' = moved_shade ?sh target"
    using reply_lost [OF ready h(2-4)] by blast
  obtain s1 where s1: "take_application_ids s = ((s_counter s, s_message_id s), s1)"
    "snd (take_application_ids s) = s1" "s_link s1 = s_link s" by (rule joined_ids)
  have "set_position ctr send target s = (Inl (TiltBleTimeout e), s1\<lparr>s_link := l'\<rparr>)"
    using h(1) l'(1) joined_nonce [OF j] s1
    by (simp add: set_position_def sbind_def session_send_def)
  then show ?thesis using joined_after [OF j l'(2)] l'(3) v s1(2) by auto
qed

lemma position_operation_lost:
  assumes "ctr_cipher ctr" and j: "joined s" and target: "0 \<le> target" "target \<le> 100"
    and sh: "sh = shade_of (s_link s)"
  shows "\<exists>s'. position_operation ctr send target s = (lost_move_result sh target, s') \<and> joined s' \<and>
    shade_of (s_link s') = (if fs_position sh = target then sh else moved_shade sh target)"
proof -
  have v: "valid_shade sh" using j sh by (simp add: joined_def)
  obtain s1 where s1: "read_status ctr send s = (Inr (status_of sh), s1)" "joined s1" "shade_of (s_link s1) = sh"
    using read_status_joined [OF assms(1,2)] sh by auto
  note before = status_of_percent [OF v]
  show ?thesis
  proof (cases "fs_position sh = target")
    case True
    then show ?thesis using s1 before judged_move_there
      by (intro exI [of _ s1]) (simp add: position_operation_def sbind_def yields_def lost_move_result_def)
  next
    case False
    let ?sh' = "moved_shade sh target"
    obtain e s2 where s2: "set_position ctr send target s1 = (Inl (TiltBleTimeout e), s2)" "joined s2"
      "shade_of (s_link s2) = ?sh'"
      using set_position_lost [OF assms(1) s1(2) target] s1(3) by auto
    obtain s3 where s3: "read_status ctr send s2 = (Inr (status_of ?sh'), s3)" "joined s3"
      "shade_of (s_link s3) = ?sh'"
      using read_status_joined [OF assms(1) s2(2)] s2(3) by auto
    have "position_operation ctr send target s = (lost_move_result sh target, s3)"
      using s1 s2 s3 before False verify_judged_move [OF v False]
      by (simp add: position_operation_def sbind_def yields_def after_write_timeout_def lost_move_result_def
          isinstance_exc_def)
    then show ?thesis using s3 False by auto
  qed
qed

end

subsection \<open>The client against the fake shade\<close>

type_synonym world = peered

definition world_shade :: "world \<Rightarrow> fake_shade" where
  "world_shade w = dv_shade (snd w)"

definition w_connected :: "world \<Rightarrow> bool" where
  "w_connected w = dv_connected (snd w)"

text \<open>A shade in range of its clients: no request of an earlier session is still under way.\<close>

definition valid_world :: "world \<Rightarrow> bool" where
  "valid_world w \<longleftrightarrow> valid_shade (world_shade w) \<and> dv_tasks (snd w) = []"

text \<open>
  The environment of \<open>FakeShadeClient\<close>, where nothing but sending raises: with the device that answers
  everything, and with the one whose answers to position requests get lost.
\<close>

definition env_over :: "world sender_fun \<Rightarrow> world ble_env" where
  "env_over send =
     \<lparr>env_factory = (\<lambda>mac w. (Inr (), w)), env_is_connected = w_connected,
      env_connect = (\<lambda>(l, d). (Inr (), (l, device_connect d))),
      env_new_session = (\<lambda>(l, d). (link_new\<lparr>worker := Worker_stopped\<rparr>, d)),
      env_start_notify = (\<lambda>(l, d). (Inr (), (l, device_start_notify d))),
      env_start_worker = (\<lambda>(l, d). (l\<lparr>worker := Worker_waiting\<rparr>, d)),
      env_stop_worker = (\<lambda>(l, d). (l\<lparr>worker := Worker_stopped\<rparr>, d)),
      env_stop_notify = (\<lambda>(l, d). (Inr (), (l, device_stop_notify d))),
      env_disconnect = (\<lambda>(l, d). (Inr (), (l, device_disconnect d))),
      env_send = send, env_cancelled = (\<lambda>w. False)\<rparr>"

definition fake_env :: "scheduler \<Rightarrow> cipher \<Rightarrow> world ble_env" where
  "fake_env sched ctr = env_over (device_exchange sched ctr)"

definition lossy_env :: "scheduler \<Rightarrow> cipher \<Rightarrow> world ble_env" where
  "lossy_env sched ctr = env_over (lossy_exchange sched ctr)"

lemma env_sends [simp]:
  "env_send (env_over send) = send" "env_send (fake_env sched ctr) = device_exchange sched ctr"
  by (simp_all add: env_over_def fake_env_def)

text \<open>Connecting, and closing whatever state the session has left.\<close>

lemma connect_fake:
  "\<exists>d. connect_client (env_over send) client w = (Inr (), fst w, d) \<and> dv_shade d = world_shade w \<and>
     dv_tasks d = dv_tasks (snd w)"
  by (cases w) (auto simp: connect_client_def env_over_def w_connected_def world_shade_def device_connect_def)

lemma cleanup_fake:
  "\<exists>w'. cancellation_safe_cleanup (env_over send) True w = (Inr (), w') \<and> world_shade w' = world_shade w \<and>
     dv_tasks (snd w') = dv_tasks (snd w) \<and> \<not> w_connected w'"
  by (cases w) (simp add: cancellation_safe_cleanup_def close_ble_client_def stop_session_def disconnect_client_def
      env_over_def w_connected_def world_shade_def device_stop_notify_def device_disconnect_def)

lemma started_synced:
  "dv_tasks d = [] \<Longrightarrow> synced (link_new, device_start_notify d)"
  using quiet_new by (simp add: synced_def device_start_notify_def link_new_def)

text \<open>The client over such an environment, for any link that answers reads.\<close>

locale device_client = shade_reader ctr send "\<lambda>p. dv_shade (snd p)" synced
  for ctr and send :: "peered sender_fun"
begin

lemma session_body_fake:
  assumes "dv_tasks (snd w) = []"
  shows "\<exists>p. synced p \<and> world_shade p = world_shade w \<and>
    session_body (env_over send) client operate w =
      (let (r, s) = sbind (authenticate send) (\<lambda>_. operate) (session_new (cl_pairing_key client) p)
       in (r, True, s_link s))"
proof -
  obtain d where d: "connect_client (env_over send) client w = (Inr (), fst w, d)" "dv_shade d = world_shade w"
    "dv_tasks d = dv_tasks (snd w)" using connect_fake by blast
  let ?p = "(link_new, device_start_notify d)"
  have "synced ?p" "world_shade ?p = world_shade w"
    using started_synced [of d] assms d by (simp_all add: world_shade_def device_start_notify_def)
  moreover have "session_body (env_over send) client operate w =
      (let (r, s) = sbind (authenticate send) (\<lambda>_. operate) (session_new (cl_pairing_key client) ?p)
       in (r, True, s_link s))"
    using d(1) by (simp add: session_body_def start_session_def env_over_def link_new_def)
  ultimately show ?thesis by blast
qed

lemma run_session_ends:
  assumes body: "session_body (env_over send) client operate w = (r, True, w1)"
    and w1: "world_shade w1 = sh" "dv_tasks (snd w1) = []"
  shows "\<exists>w'. run_session (env_over send) client operate w = (r, w') \<and> world_shade w' = sh \<and>
    dv_tasks (snd w') = [] \<and> \<not> w_connected w'"
proof -
  obtain w' where "cancellation_safe_cleanup (env_over send) True w1 = (Inr (), w')" "world_shade w' = sh"
    "dv_tasks (snd w') = []" "\<not> w_connected w'"
    using cleanup_fake [of send w1] w1 by auto
  moreover have "env_factory (env_over send) mac w = (Inr (), w)" for mac by (simp add: env_over_def)
  ultimately show ?thesis using body by (simp add: run_session_def)
qed

text \<open>A session of the client with a shade whose key it has, for any operation.\<close>

lemma run_session_fake:
  assumes w: "valid_world w" "fs_proof_key (world_shade w) = fs_key (world_shade w)"
    and key: "cl_pairing_key client = fs_key (world_shade w)"
    and op: "\<And>s. joined s \<Longrightarrow> world_shade (s_link s) = world_shade w \<Longrightarrow>
      \<exists>s'. operate s = (r, s') \<and> joined s' \<and> world_shade (s_link s') = sh'"
  shows "\<exists>w'. run_session (env_over send) client operate w = (r, w') \<and> world_shade w' = sh' \<and>
    dv_tasks (snd w') = [] \<and> \<not> w_connected w'"
proof -
  obtain p where p: "synced p" "world_shade p = world_shade w"
    "session_body (env_over send) client operate w =
      (let (r, s) = sbind (authenticate send) (\<lambda>_. operate) (session_new (cl_pairing_key client) p)
       in (r, True, s_link s))"
    using session_body_fake w(1) by (metis valid_world_def)
  from authenticate_joins [where sh = "world_shade w", OF refl p(1)] w p(2)
  obtain s where s: "authenticate send (session_new (fs_key (world_shade w)) p) = (Inr (), s)"
    "joined s" "world_shade (s_link s) = world_shade w"
    by (auto simp: world_shade_def valid_world_def)
  obtain s' where s': "operate s = (r, s')" "joined s'" "world_shade (s_link s') = sh'"
    using op [OF s(2,3)] by blast
  have "dv_tasks (snd (s_link s')) = []"
    using s'(2) by (auto simp: joined_def synced_def split: prod.splits)
  with run_session_ends [of client operate w r "s_link s'"] p(3) s s' key show ?thesis
    by (simp add: sbind_def)
qed

text \<open>A session with a key whose proof differs from the shade's.\<close>

lemma run_session_refused:
  assumes w: "valid_world w" "length (fs_proof_key (world_shade w)) = 32"
    and key: "length (cl_pairing_key client) = 32"
      "hmac_sha256 (cl_pairing_key client) PAIRING_KEY_PROOF_MESSAGE \<noteq>
         hmac_sha256 (fs_proof_key (world_shade w)) PAIRING_KEY_PROOF_MESSAGE"
  shows "\<exists>w'. run_session (env_over send) client operate w =
      (Inl (AuthenticationError ''Configured pairing key did not authenticate this shade.''), w') \<and>
    world_shade w' = world_shade w \<and> dv_tasks (snd w') = [] \<and> \<not> w_connected w'"
proof -
  let ?e = "AuthenticationError ''Configured pairing key did not authenticate this shade.''"
  obtain p where p: "synced p" "world_shade p = world_shade w"
    "session_body (env_over send) client operate w =
      (let (r, s) = sbind (authenticate send) (\<lambda>_. operate) (session_new (cl_pairing_key client) p)
       in (r, True, s_link s))"
    using session_body_fake w(1) by (metis valid_world_def)
  from authenticate_answers [where sh = "world_shade w", OF refl key(1) p(1)] w p(2) key(2)
  obtain l' where l': "synced l'" "world_shade l' = world_shade w"
    "authenticate send (session_new (cl_pairing_key client) p) =
      (Inl ?e, (session_new (cl_pairing_key client) p)\<lparr>s_link := l'\<rparr>)"
    by (auto simp: world_shade_def valid_world_def)
  have "dv_tasks (snd l') = []" using l'(1) by (auto simp: synced_def split: prod.splits)
  with run_session_ends [of client operate w "Inl ?e" l'] p(3) l' show ?thesis
    by (simp add: sbind_def)
qed

end

interpretation answering: device_client ctr "device_exchange sched ctr"
  for sched ctr
  by unfold_locales

interpretation losing: device_client ctr "lossy_exchange sched ctr"
  for sched ctr
  by unfold_locales

lemmas run_session_fake = answering.run_session_fake [folded fake_env_def]
lemmas run_session_refused = answering.run_session_refused [folded fake_env_def]
lemmas run_session_lossy = losing.run_session_fake [folded lossy_env_def]

subsection \<open>A concrete shade\<close>

definition example_shade :: fake_shade where
  "example_shade =
     \<lparr>fs_key = replicate 32 7, fs_proof_key = replicate 32 7, fs_nonce = replicate 12 9,
      fs_versions = [2, 1], fs_travel = (1, 1), fs_position = 20, fs_battery = 80,
      fs_set_position_calls = 0\<rparr>"

definition example_world :: world where
  "example_world =
     (link_new, \<lparr>dv_shade = example_shade, dv_connected = False, dv_notify = True,
        dv_assembler = \<lparr>asm_expected_sequence = 1, asm_buffer = []\<rparr>, dv_tx_seq = 1,
        dv_ack_waiters = [], dv_futures = [], dv_tasks = []\<rparr>)"

lemma example_world_shade: "world_shade example_world = example_shade"
  by (simp add: example_world_def world_shade_def)

lemma example_world:
  "valid_world example_world" "fs_key (world_shade example_world) = replicate 32 7"
  "fs_proof_key (world_shade example_world) = replicate 32 7"
  by (simp_all add: valid_world_def valid_shade_def example_world_shade)
     (simp_all add: example_shade_def example_world_def)

lemma example_synced: "synced example_world"
  using quiet_new by (simp add: synced_def link_new_def example_world_def)

lemma example_joined:
  "\<exists>s. authenticate (device_exchange next_turn xor_cipher) (session_new (replicate 32 7) example_world) = (Inr (), s) \<and>
     device.joined s \<and> world_shade (s_link s) = example_shade"
  using device.authenticate_joins [where ctr = xor_cipher and sh = example_shade and l = example_world,
      OF refl example_synced] example_world example_world_shade
  by (simp add: valid_world_def world_shade_def)

text \<open>A position change through the whole stack.\<close>

lemma set_position_fake:
  assumes "ctr_cipher ctr" and "client_new mac key shade_id True = Inr client"
    and "valid_world w" and "fs_key (world_shade w) = key"
    and "fs_proof_key (world_shade w) = key" and "0 \<le> target" and "target \<le> 100"
  shows "\<exists>w'. set_position_and_read_status ctr (fake_env sched ctr) client (PyInt target) w =
      (move_result (world_shade w) target, w') \<and>
    world_shade w' = (if fs_position (world_shade w) = target then world_shade w
      else moved_shade (world_shade w) target) \<and>
    \<not> w_connected w'"
proof -
  have client: "cl_pairing_key client = key" "cl_allow_position_writes client"
    using assms(2) by (auto simp: client_new_def split: if_split_asm)
  have "\<exists>w'. run_session (fake_env sched ctr) client (position_operation ctr (device_exchange sched ctr) target) w =
      (move_result (world_shade w) target, w') \<and>
    world_shade w' = (if fs_position (world_shade w) = target then world_shade w
      else moved_shade (world_shade w) target) \<and> dv_tasks (snd w') = [] \<and> \<not> w_connected w'"
    using device.position_operation_joined [OF assms(1) _ assms(6,7) refl] assms client
    by (intro run_session_fake) (simp_all, metis world_shade_def)
  then show ?thesis using client assms(6,7) by (auto simp: set_position_and_read_status_def)
qed

subsection \<open>Properties\<close>

text \<open>C1: A position change against the fake shade, through handshake, encryption, chunking and
  acknowledgements, in whatever order the scheduler runs the tasks of client and device: when the
  shade is at the target nothing is written and its status returned;
  otherwise it receives the command exactly once, and the call returns its status if it reached or
  moved toward the target and raises \<open>PositionVerificationPending\<close> with that status if not. The
  connection is closed in every case.\<close>

theorem position_change_end_to_end:
  assumes "ctr_cipher ctr" and "client_new mac key shade_id True = Inr client"
    and "valid_world w" and "fs_key (world_shade w) = key"
    and "fs_proof_key (world_shade w) = key" and "0 \<le> target" and "target \<le> 100"
  shows "\<exists>w'. set_position_and_read_status ctr (fake_env sched ctr) client (PyInt target) w =
      (move_result (world_shade w) target, w') \<and>
    world_shade w' = (if fs_position (world_shade w) = target then world_shade w
      else moved_shade (world_shade w) target) \<and>
    \<not> w_connected w'"
  using assms by (rule set_position_fake)

theorem position_change_end_to_end_witness:
  "\<exists>client w'. client_new ''AA:BB'' (replicate 32 7) None True = Inr client \<and>
     set_position_and_read_status xor_cipher (fake_env (\<lambda>_. Device_task 0) xor_cipher) client (PyInt 60) example_world =
       (Inr (fake_status 600 80, True), w') \<and>
     fs_position (world_shade w') = 60 \<and> fs_set_position_calls (world_shade w') = 1"
proof -
  obtain client where client: "client_new ''AA:BB'' (replicate 32 7) None True = Inr client"
    by (simp add: client_new_def)
  have sh: "move_result (world_shade example_world) 60 = Inr (fake_status 600 80, True)"
    "moved_shade (world_shade example_world) 60 =
       example_shade\<lparr>fs_position := 60, fs_set_position_calls := 1\<rparr>"
    by (simp_all add: move_result_def judged_move_def example_world_def world_shade_def example_shade_def status_of_def
        moved_shade_def travelled_def round_div_def)
  from position_change_end_to_end [where sched = "\<lambda>_. Device_task 0", OF ctr_cipher_xor_cipher client example_world, of 60] client sh
  show ?thesis by (auto simp: example_world_def world_shade_def example_shade_def)
qed

text \<open>C4: A position change whose reply is lost, in whatever order the tasks run. The shade carries the request out and none of the chunks
  of its answer arrives: the client does not write again; it reads the status back in the same
  session and returns it if the shade reached or moved toward the target, and otherwise raises
  \<open>PositionVerificationPending\<close> with it. The shade has received the command exactly once and the
  connection is closed.\<close>

theorem lost_reply_not_repeated:
  assumes "ctr_cipher ctr" and "client_new mac key shade_id True = Inr client"
    and "valid_world w" and "fs_key (world_shade w) = key"
    and "fs_proof_key (world_shade w) = key" and "0 \<le> target" and "target \<le> 100"
  shows "\<exists>w'. set_position_and_read_status ctr (lossy_env sched ctr) client (PyInt target) w =
      (lost_move_result (world_shade w) target, w') \<and>
    world_shade w' = (if fs_position (world_shade w) = target then world_shade w
      else moved_shade (world_shade w) target) \<and>
    \<not> w_connected w'"
proof -
  have client: "cl_pairing_key client = key" "cl_allow_position_writes client"
    using assms(2) by (auto simp: client_new_def split: if_split_asm)
  have "\<exists>w'. run_session (lossy_env sched ctr) client (position_operation ctr (lossy_exchange sched ctr) target) w =
      (lost_move_result (world_shade w) target, w') \<and>
    world_shade w' = (if fs_position (world_shade w) = target then world_shade w
      else moved_shade (world_shade w) target) \<and> dv_tasks (snd w') = [] \<and> \<not> w_connected w'"
    using lossy.position_operation_lost [OF assms(1) _ assms(6,7) refl] assms client
    by (intro run_session_lossy) (simp_all, metis world_shade_def)
  then show ?thesis using client assms(6,7)
    by (auto simp: set_position_and_read_status_def lossy_env_def)
qed

theorem lost_reply_not_repeated_witness:
  "\<exists>client w'. client_new ''AA:BB'' (replicate 32 7) None True = Inr client \<and>
     set_position_and_read_status xor_cipher (lossy_env next_turn xor_cipher) client (PyInt 60) example_world =
       (Inr (fake_status 600 80, True), w') \<and>
     fs_position (world_shade w') = 60 \<and> fs_set_position_calls (world_shade w') = 1"
proof -
  obtain client where client: "client_new ''AA:BB'' (replicate 32 7) None True = Inr client"
    by (simp add: client_new_def)
  have sh: "lost_move_result (world_shade example_world) 60 = Inr (fake_status 600 80, True)"
    "moved_shade (world_shade example_world) 60 =
       example_shade\<lparr>fs_position := 60, fs_set_position_calls := 1\<rparr>"
    by (simp_all add: lost_move_result_def judged_move_def example_world_shade example_shade_def status_of_def
        moved_shade_def travelled_def round_div_def)
  from lost_reply_not_repeated [where sched = next_turn, OF ctr_cipher_xor_cipher client example_world, of 60] client sh
  show ?thesis by (auto simp: example_world_shade example_shade_def)
qed

text \<open>C8: The client's link and the fake device answer every request whatever the order in which the
  client's sender, its worker and the device's task run, as long as no timer fires: every run of
  their turns is at most \<open>n\<close> turns long, where \<open>n\<close> counts two for each chunk of request and reply and
  two more; a shorter one can go on; \<open>_send_frame\<close> never returns anything but the shade's reply; and
  after \<open>n\<close> turns it has returned it, the shade has handled the request exactly once, and both sides
  are ready for the next request.\<close>

theorem every_interleaving_answers:
  assumes "synced (l, d)" and "f \<noteq> []" and "m \<noteq> []"
    and "handle_request ctr (dv_shade d) f = (Inr m, shade)"
  shows "\<exists>p. peered_send f r (l, d) = Some p \<and>
    (\<forall>ts l' d'. peered_run ctr ts p = Some (l', d') \<longrightarrow>
       (let n = 2 * ((length f + 17) div 18) + 2 * ((length m + 17) div 18) + 2
        in length ts \<le> n \<and>
           (\<forall>res. sender l' = Sender_done res \<longrightarrow> res = Inr m) \<and>
           (if length ts < n then \<exists>t. peered_step ctr t (l', d') \<noteq> None
            else sender l' = Sender_done (Inr m) \<and> dv_shade d' = shade \<and>
              synced (l'\<lparr>sender := Sender_idle\<rparr>, d'))))"
proof -
  obtain p where p: "peered_send f r (l, d) = Some p"
    using peered_send_exchanging [OF assms(1,2,4)] by blast
  have n: "2 * number_of_chunks f + 2 * number_of_chunks m + 2 =
      2 * ((length f + 17) div 18) + 2 * ((length m + 17) div 18) + 2"
    by (simp add: number_of_chunks_def MAX_BLE_PAYLOAD_def add.commute)
  show ?thesis
  proof (intro exI [of _ p] conjI allI impI p)
    fix ts l' d'
    assume "peered_run ctr ts p = Some (l', d')"
    note run = peered_run_outcome [OF assms(1-4) p this, unfolded n]
    show "let n = 2 * ((length f + 17) div 18) + 2 * ((length m + 17) div 18) + 2
        in length ts \<le> n \<and> (\<forall>res. sender l' = Sender_done res \<longrightarrow> res = Inr m) \<and>
           (if length ts < n then \<exists>t. peered_step ctr t (l', d') \<noteq> None
            else sender l' = Sender_done (Inr m) \<and> dv_shade d' = shade \<and>
              synced (l'\<lparr>sender := Sender_idle\<rparr>, d'))"
      unfolding Let_def using run(1,2,3) run(4) [OF le_antisym [OF run(1)]]
      by (simp only: if_bool_eq_conj not_less) blast
  qed
qed

theorem every_interleaving_answers_witness:
  "\<exists>p t. peered_send (crypto_frame Crypto_REQUEST_PROTOCOL_VERSIONS []) True example_world = Some p \<and>
     peered_step xor_cipher t p \<noteq> None"
proof -
  let ?f = "crypto_frame Crypto_REQUEST_PROTOCOL_VERSIONS []"
  obtain l d where w: "example_world = (l, d)" by (metis surj_pair)
  then have "dv_shade d = example_shade" using example_world_shade by (metis world_shade_def snd_conv)
  then have h: "handle_request xor_cipher (dv_shade d) ?f = (Inr (versions_response [2, 1]), dv_shade d)"
    by (simp add: handle_crypto_request handle_crypto_def parse_crypto_frame example_shade_def)
  have "synced (l, d)" using example_synced w by simp
  from every_interleaving_answers [OF this _ _ h, of True] obtain p where
    p: "peered_send ?f True (l, d) = Some p" and run: "\<And>ts l' d'. peered_run xor_cipher ts p = Some (l', d') \<Longrightarrow>
      ts = [] \<Longrightarrow> \<exists>t. peered_step xor_cipher t (l', d') \<noteq> None"
    unfolding Let_def by (force simp: versions_response_def simp del: peered_step.simps peered_run.simps)
  then show ?thesis using run [of "[]" "fst p" "snd p"] w by auto
qed

text \<open>Reading the status of the fake shade through the same stack returns exactly its position
  and battery, changes nothing in the shade and leaves the client disconnected.\<close>

lemma read_status_end_to_end:
  assumes "ctr_cipher ctr" and "client_new mac key shade_id allow = Inr client"
    and "valid_world w" and "fs_key (world_shade w) = key"
    and "fs_proof_key (world_shade w) = key"
  shows "\<exists>w'. client_read_status ctr (fake_env sched ctr) client w =
      (Inr (fake_status (10 * fs_position (world_shade w)) (fs_battery (world_shade w))), w') \<and>
    world_shade w' = world_shade w \<and> \<not> w_connected w'"
proof -
  have client: "cl_pairing_key client = key"
    using assms(2) by (auto simp: client_new_def split: if_split_asm)
  have "\<exists>w'. run_session (fake_env sched ctr) client (read_status ctr (device_exchange sched ctr)) w =
      (Inr (status_of (world_shade w)), w') \<and> world_shade w' = world_shade w \<and> dv_tasks (snd w') = [] \<and>
      \<not> w_connected w'"
    using device.read_status_joined [OF assms(1)] assms client
    by (intro run_session_fake) (simp_all, metis world_shade_def)
  then show ?thesis
    by (auto simp: client_read_status_def status_of_def mult.commute)
qed

text \<open>C9: A session is only authenticated when the shade confirmed one of the two allowlisted
  protocols and answered the nonce request with a proof that is the HMAC of the fixed message
  under the configured pairing key; the 12-byte nonce of that answer becomes the session's.\<close>

theorem authenticated_by_proof:
  assumes "authenticate send s = (Inr u, s')"
  shows "\<exists>v nonce f l1 l2 l3. v \<in> {1, 2} \<and>
    send (crypto_frame Crypto_SELECT_PROTOCOL_VERSION [word_of_int v]) True l1 = (Inr f, l2) \<and>
    (f = crypto_frame Crypto_SELECT_PROTOCOL_VERSION [word_of_int v] \<or> f = crypto_frame Crypto_ACK [0x03]) \<and>
    send (crypto_frame Crypto_REQUEST_NONCE []) True l2 =
      (Inr (crypto_frame Crypto_REQUEST_NONCE
        (nonce @ hmac_sha256 (s_pairing_key s) PAIRING_KEY_PROOF_MESSAGE)), l3) \<and>
    s' = s\<lparr>s_link := l3, s_nonce := Some nonce\<rparr> \<and> length nonce = 12 \<and> length (s_pairing_key s) = 32"
  using assms by (rule authenticate_Inr)

theorem authenticated_by_proof_witness:
  "\<exists>s nonce. authenticate (device_exchange next_turn xor_cipher) (session_new (replicate 32 7) example_world) = (Inr (), s) \<and>
     s_nonce s = Some nonce \<and> length nonce = 12"
proof -
  obtain s where s: "authenticate (device_exchange next_turn xor_cipher) (session_new (replicate 32 7) example_world) = (Inr (), s)"
    using example_joined by blast
  from authenticated_by_proof [OF s] s show ?thesis by auto
qed

end
