(* ===== verification/Ble_Lock.thy ===== *)
theory Ble_Lock
  imports Main
begin

text \<open>
  The process-wide lock of \<open>tilt/ble.py\<close> under which every session runs: \<open>_global_ble_lock\<close> and the
  \<open>async with\<close> of \<open>TiltShadeClient._run_session\<close>, with \<open>asyncio.Lock\<close>'s \<open>acquire\<close> and \<open>release\<close>.

  A step is what a task does between two suspensions: a call of \<open>acquire\<close>, the resumption of a
  waiting task, the end of a session, or a cancellation of a waiting task. That the sessions of
  one event loop can therefore be functions run one after the other is shown in \<open>Concurrent_Clients\<close>.
\<close>

subsection \<open>asyncio.Lock\<close>

text \<open>
  \<open>lk_phase\<close> records where the tasks of the loop are: outside the \<open>async with\<close>, waiting at its
  entry, or running a session inside it. A new lock (\<open>lock_new\<close>) is free and knows no waiter,
  wherever the tasks are. The future of a waiting task: pending, completed by \<open>_wake_up_first\<close>, cancelled while pending, or
  completed with the task cancelled before it resumed.
\<close>

datatype wait = Wait_pending | Wait_woken | Wait_cancelled | Wait_woken_cancelled

datatype phase = Outside | Queued | Inside

record lock =
  lk_locked :: bool
  lk_waiters :: "(nat \<times> wait) list"
  lk_phase :: "nat \<Rightarrow> phase"

definition lock_new :: "lock \<Rightarrow> lock" where
  "lock_new l = l\<lparr>lk_locked := False, lk_waiters := []\<rparr>"

fun wake_up_first :: "(nat \<times> wait) list \<Rightarrow> (nat \<times> wait) list" where
  "wake_up_first [] = []"
| "wake_up_first ((t, w) # ws) = (t, if w = Wait_pending then Wait_woken else w) # ws"

definition lock_acquire :: "nat \<Rightarrow> lock \<Rightarrow> lock option" where
  "lock_acquire t l =
     (if lk_phase l t \<noteq> Outside then None
      else if \<not> lk_locked l \<and> list_all (\<lambda>x. snd x = Wait_cancelled) (lk_waiters l)
      then Some (l\<lparr>lk_locked := True, lk_phase := (lk_phase l)(t := Inside)\<rparr>)
      else Some (l\<lparr>lk_waiters := lk_waiters l @ [(t, Wait_pending)], lk_phase := (lk_phase l)(t := Queued)\<rparr>))"

definition lock_resume :: "nat \<Rightarrow> lock \<Rightarrow> lock option" where
  "lock_resume t l =
     (let rest = filter (\<lambda>x. fst x \<noteq> t) (lk_waiters l)
      in case map_of (lk_waiters l) t of
           Some Wait_woken \<Rightarrow>
             Some (l\<lparr>lk_locked := True, lk_waiters := rest, lk_phase := (lk_phase l)(t := Inside)\<rparr>)
         | Some Wait_pending \<Rightarrow> None
         | None \<Rightarrow> None
         | Some _ \<Rightarrow>
             Some (l\<lparr>lk_waiters := (if lk_locked l then rest else wake_up_first rest),
                     lk_phase := (lk_phase l)(t := Outside)\<rparr>))"

definition cancel_wait :: "wait \<Rightarrow> wait" where
  "cancel_wait w =
     (case w of Wait_pending \<Rightarrow> Wait_cancelled | Wait_woken \<Rightarrow> Wait_woken_cancelled | _ \<Rightarrow> w)"

definition lock_cancel :: "nat \<Rightarrow> lock \<Rightarrow> lock option" where
  "lock_cancel t l =
     (if lk_phase l t \<noteq> Queued then None
      else Some (l\<lparr>lk_waiters := map (\<lambda>x. if fst x = t then (t, cancel_wait (snd x)) else x) (lk_waiters l)\<rparr>))"

definition lock_release :: "nat \<Rightarrow> lock \<Rightarrow> lock option" where
  "lock_release t l =
     (if lk_phase l t \<noteq> Inside then None
      else Some (l\<lparr>lk_locked := False, lk_waiters := wake_up_first (lk_waiters l),
                   lk_phase := (lk_phase l)(t := Outside)\<rparr>))"

subsection \<open>One lock per event loop\<close>

datatype lock_event = Acquire nat | Resume nat | Cancel nat | Release nat

fun lock_step :: "lock_event \<Rightarrow> lock \<Rightarrow> lock option" where
  "lock_step (Acquire t) l = lock_acquire t l"
| "lock_step (Resume t) l = lock_resume t l"
| "lock_step (Cancel t) l = lock_cancel t l"
| "lock_step (Release t) l = lock_release t l"

text \<open>
  \<open>bl_known\<close> is the set of keys of \<open>_BLE_LOCKS\<close>, the event loops that have a lock. Entering the
  \<open>async with\<close> calls \<open>_global_ble_lock\<close>; the later steps of a task use the lock it has been given.
\<close>

record ble_locks =
  bl_known :: "nat \<Rightarrow> bool"
  bl_lock :: "nat \<Rightarrow> lock"

definition no_locks :: ble_locks where
  "no_locks = \<lparr>bl_known = (\<lambda>_. False),
               bl_lock = (\<lambda>_. \<lparr>lk_locked = False, lk_waiters = [], lk_phase = (\<lambda>_. Outside)\<rparr>)\<rparr>"

definition global_ble_lock :: "nat \<Rightarrow> ble_locks \<Rightarrow> lock \<times> ble_locks" where
  "global_ble_lock loop s =
     (if bl_known s loop then (bl_lock s loop, s)
      else let lock = lock_new (bl_lock s loop)
           in (lock, s\<lparr>bl_known := (bl_known s)(loop := True), bl_lock := (bl_lock s)(loop := lock)\<rparr>))"

definition ble_lock_step :: "nat \<Rightarrow> lock_event \<Rightarrow> ble_locks \<Rightarrow> ble_locks option" where
  "ble_lock_step loop e s =
     (let (lock, s1) = (case e of Acquire _ \<Rightarrow> global_ble_lock loop s | _ \<Rightarrow> (bl_lock s loop, s))
      in map_option (\<lambda>lock1. s1\<lparr>bl_lock := (bl_lock s1)(loop := lock1)\<rparr>) (lock_step e lock))"

inductive lock_run :: "ble_locks \<Rightarrow> bool" where
  start: "lock_run no_locks"
| step: "lock_run s \<Longrightarrow> ble_lock_step loop e s = Some s' \<Longrightarrow> lock_run s'"

subsection \<open>The invariant\<close>

text \<open>
  The lock is taken exactly when one task is inside; the waiters are the queued tasks; a completed
  future is only ever the first and only while the lock is free; and while the lock is free the
  first waiter is about to resume.
\<close>

definition held_by :: "bool \<Rightarrow> (nat \<Rightarrow> phase) \<Rightarrow> bool" where
  "held_by locked ph \<longleftrightarrow>
     (if locked then \<exists>t. \<forall>u. ph u = Inside \<longleftrightarrow> u = t else \<forall>u. ph u \<noteq> Inside)"

lemma held_by_unlocked [simp]: "held_by False ph \<longleftrightarrow> (\<forall>u. ph u \<noteq> Inside)"
  by (simp add: held_by_def)

lemma held_by_enter: "held_by False ph \<Longrightarrow> held_by True (ph(t := Inside))"
  by (auto simp: held_by_def)

lemma held_by_other: "held_by k ph \<Longrightarrow> ph t \<noteq> Inside \<Longrightarrow> p \<noteq> Inside \<Longrightarrow> held_by k (ph(t := p))"
  by (auto simp: held_by_def split: if_split_asm)

lemma held_by_inside: "held_by k ph \<Longrightarrow> ph t = Inside \<Longrightarrow> k \<and> (\<forall>u. ph u = Inside \<longleftrightarrow> u = t)"
  by (auto simp: held_by_def split: if_split_asm)

definition lock_inv :: "lock \<Rightarrow> bool" where
  "lock_inv l \<longleftrightarrow>
     held_by (lk_locked l) (lk_phase l) \<and>
     distinct (map fst (lk_waiters l)) \<and> (\<forall>u. lk_phase l u = Queued \<longleftrightarrow> u \<in> fst ` set (lk_waiters l)) \<and>
     (\<forall>x \<in> set (if lk_locked l then lk_waiters l else tl (lk_waiters l)).
        snd x = Wait_pending \<or> snd x = Wait_cancelled) \<and>
     (\<not> lk_locked l \<and> lk_waiters l \<noteq> [] \<longrightarrow> snd (hd (lk_waiters l)) \<noteq> Wait_pending)"

lemma lock_inv_new: "\<forall>t. lk_phase l t = Outside \<Longrightarrow> lock_inv (lock_new l)"
  by (simp add: lock_inv_def lock_new_def)

lemma wake_up_first_simps [simp]:
  "map fst (wake_up_first ws) = map fst ws" "tl (wake_up_first ws) = tl ws" "wake_up_first ws = [] \<longleftrightarrow> ws = []"
  by (cases ws rule: wake_up_first.cases; simp)+

lemma fst_wake_up_first [simp]: "fst ` set (wake_up_first ws) = fst ` set ws"
  by (metis list.set_map wake_up_first_simps(1))

lemma in_set_tl: "x \<in> set (tl xs) \<Longrightarrow> x \<in> set xs"
  by (cases xs) simp_all

lemma hd_wake_up_first: "ws \<noteq> [] \<Longrightarrow> snd (hd (wake_up_first ws)) \<noteq> Wait_pending"
  by (cases ws rule: wake_up_first.cases) simp_all

lemma lock_inv_acquire: "lock_inv l \<Longrightarrow> lock_acquire t l = Some l' \<Longrightarrow> lock_inv l'"
proof -
  assume inv: "lock_inv l" and l': "lock_acquire t l = Some l'"
  then have out: "lk_phase l t = Outside" by (auto simp: lock_acquire_def split: if_split_asm)
  then have new: "t \<notin> fst ` set (lk_waiters l)" using inv by (metis lock_inv_def phase.distinct(1))
  show "lock_inv l'"
  proof (cases "\<not> lk_locked l \<and> list_all (\<lambda>x. snd x = Wait_cancelled) (lk_waiters l)")
    case True
    then have "l' = l\<lparr>lk_locked := True, lk_phase := (lk_phase l)(t := Inside)\<rparr>"
      using l' out by (simp add: lock_acquire_def)
    then show ?thesis using inv True new held_by_enter [of "lk_phase l" t]
      by (auto simp: lock_inv_def list_all_iff simp del: held_by_unlocked)
  next
    case False
    then have eq: "l' = l\<lparr>lk_waiters := lk_waiters l @ [(t, Wait_pending)], lk_phase := (lk_phase l)(t := Queued)\<rparr>"
      using l' out by (auto simp: lock_acquire_def)
    have "lk_locked l \<or> lk_waiters l \<noteq> []" using False by auto
    moreover have "held_by (lk_locked l) ((lk_phase l)(t := Queued))"
      using inv out by (intro held_by_other) (simp_all add: lock_inv_def)
    ultimately show ?thesis using inv new unfolding eq
      by (auto simp: lock_inv_def simp del: held_by_unlocked)
  qed
qed

lemma lock_inv_cancel: "lock_inv l \<Longrightarrow> lock_cancel t l = Some l' \<Longrightarrow> lock_inv l'"
proof -
  assume inv: "lock_inv l" and l': "lock_cancel t l = Some l'"
  let ?f = "\<lambda>x. if fst x = t then (t, cancel_wait (snd x)) else x"
  have eq: "l' = l\<lparr>lk_waiters := map ?f (lk_waiters l)\<rparr>"
    using l' by (auto simp: lock_cancel_def split: if_split_asm)
  have fst: "fst \<circ> ?f = fst" by auto
  have set: "fst ` set (map ?f ws) = fst ` set ws" for ws by (simp only: set_map [symmetric] map_map fst)
  have hd: "snd x \<noteq> Wait_pending \<Longrightarrow> snd (?f x) \<noteq> Wait_pending" for x
    by (auto simp: cancel_wait_def split: wait.splits)
  have "\<forall>x \<in> set (if lk_locked l then map ?f (lk_waiters l) else tl (map ?f (lk_waiters l))).
      snd x = Wait_pending \<or> snd x = Wait_cancelled"
    using inv unfolding lock_inv_def map_tl [symmetric]
    by (auto simp: cancel_wait_def split: if_split_asm)
  moreover have "\<not> lk_locked l \<and> lk_waiters l \<noteq> [] \<longrightarrow> snd (hd (map ?f (lk_waiters l))) \<noteq> Wait_pending"
    using inv hd by (auto simp: lock_inv_def hd_map)
  ultimately show "lock_inv l'"
    using inv set [of "lk_waiters l"] unfolding eq lock_inv_def by (simp add: fst)
qed

lemma lock_inv_release: "lock_inv l \<Longrightarrow> lock_release t l = Some l' \<Longrightarrow> lock_inv l'"
proof -
  assume inv: "lock_inv l" and l': "lock_release t l = Some l'"
  then have t: "lk_phase l t = Inside"
    and eq: "l' = l\<lparr>lk_locked := False, lk_waiters := wake_up_first (lk_waiters l), lk_phase := (lk_phase l)(t := Outside)\<rparr>"
    by (auto simp: lock_release_def split: if_split_asm)
  have h: "lk_locked l" "\<forall>u. lk_phase l u = Inside \<longleftrightarrow> u = t"
    using inv t held_by_inside [of "lk_locked l" "lk_phase l" t] by (simp_all add: lock_inv_def)
  then have "\<forall>u. ((lk_phase l)(t := Outside)) u \<noteq> Inside" "\<forall>x \<in> set (lk_waiters l). snd x = Wait_pending \<or> snd x = Wait_cancelled"
    using inv t by (simp_all add: lock_inv_def)
  moreover have "t \<notin> fst ` set (lk_waiters l)" using inv t by (metis lock_inv_def phase.distinct(5))
  then have "\<forall>u. ((lk_phase l)(t := Outside)) u = Queued \<longleftrightarrow> u \<in> fst ` set (lk_waiters l)"
    using inv by (simp add: lock_inv_def)
  ultimately show "lock_inv l'"
    using inv hd_wake_up_first unfolding eq lock_inv_def by (simp add: in_set_tl)
qed

lemma filter_out:
  "ws = x # ys \<Longrightarrow> distinct (map fst ws) \<Longrightarrow>
   filter (\<lambda>z. fst z \<noteq> t) ws = (if fst x = t then ys else x # filter (\<lambda>z. fst z \<noteq> t) ys)"
  by (auto simp: filter_id_conv rev_image_eqI)

text \<open>A waiter that resumes: completed, it is the first; cancelled, it passes the turn on.\<close>

lemma lock_inv_resume: "lock_inv l \<Longrightarrow> lock_resume t l = Some l' \<Longrightarrow> lock_inv l'"
proof -
  assume inv: "lock_inv l" and l': "lock_resume t l = Some l'"
  let ?rest = "filter (\<lambda>x. fst x \<noteq> t) (lk_waiters l)"
  obtain w where w: "map_of (lk_waiters l) t = Some w" "w \<noteq> Wait_pending"
    using l' by (cases "map_of (lk_waiters l) t") (auto simp: lock_resume_def Let_def split: wait.splits)
  then have mem: "(t, w) \<in> set (lk_waiters l)" by (simp add: map_of_SomeD)
  then obtain x ys where ws: "lk_waiters l = x # ys" by (cases "lk_waiters l") auto
  have dist: "distinct (map fst (lk_waiters l))" and held: "held_by (lk_locked l) (lk_phase l)"
    and q: "\<forall>u. lk_phase l u = Queued \<longleftrightarrow> u \<in> fst ` set (lk_waiters l)"
    and ok: "\<forall>z \<in> set (if lk_locked l then lk_waiters l else ys). snd z = Wait_pending \<or> snd z = Wait_cancelled"
    using inv ws by (simp_all add: lock_inv_def)
  have rest: "?rest = (if fst x = t then ys else x # filter (\<lambda>z. fst z \<noteq> t) ys)"
    using filter_out [OF ws dist] .
  have drest: "distinct (map fst ?rest)" using dist by (simp add: distinct_map_filter)
  have frest: "fst ` set ?rest = fst ` set (lk_waiters l) - {t}" by auto
  have qt: "lk_phase l t = Queued" using q mem by force
  show "lock_inv l'"
  proof (cases "w = Wait_woken")
    case True
    then have eq: "l' = l\<lparr>lk_locked := True, lk_waiters := ?rest, lk_phase := (lk_phase l)(t := Inside)\<rparr>"
      using l' w by (simp add: lock_resume_def)
    have unlocked: "\<not> lk_locked l" using ok mem True by force
    moreover have "fst x = t"
    proof (rule ccontr)
      assume "fst x \<noteq> t"
      then have "(t, w) \<in> set ys" using mem ws by auto
      then show False using ok unlocked True by force
    qed
    ultimately show ?thesis
      using held_by_enter [of "lk_phase l" t] held ok q drest frest rest unfolding eq lock_inv_def
      by (simp del: held_by_unlocked)
  next
    case False
    then have eq: "l' = l\<lparr>lk_waiters := (if lk_locked l then ?rest else wake_up_first ?rest),
        lk_phase := (lk_phase l)(t := Outside)\<rparr>"
      using l' w by (cases w) (auto simp: lock_resume_def Let_def)
    have h: "held_by (lk_locked l) ((lk_phase l)(t := Outside))"
      using held qt by (intro held_by_other) simp_all
    have q': "\<forall>u. ((lk_phase l)(t := Outside)) u = Queued \<longleftrightarrow> u \<in> fst ` set ?rest"
      using q unfolding frest by auto
    have tl: "set (tl ?rest) \<subseteq> set ys" unfolding rest by (auto dest: in_set_tl)
    show ?thesis
    proof (cases "lk_locked l")
      case True
      then have "\<forall>z \<in> set ?rest. snd z = Wait_pending \<or> snd z = Wait_cancelled" using ok by (simp split: if_split_asm)
      then show ?thesis using True h q' drest unfolding eq lock_inv_def by simp
    next
      case False
      then have "\<forall>z \<in> set (tl ?rest). snd z = Wait_pending \<or> snd z = Wait_cancelled" using ok tl by auto
      then show ?thesis using False h q' drest hd_wake_up_first [of ?rest] unfolding eq lock_inv_def by simp
    qed
  qed
qed

lemma lock_inv_step: "lock_inv l \<Longrightarrow> lock_step e l = Some l' \<Longrightarrow> lock_inv l'"
  by (cases e) (auto intro: lock_inv_acquire lock_inv_resume lock_inv_cancel lock_inv_release)

definition locks_inv :: "ble_locks \<Rightarrow> bool" where
  "locks_inv s \<longleftrightarrow>
     (\<forall>loop. lock_inv (bl_lock s loop) \<and> (bl_known s loop \<or> (\<forall>t. lk_phase (bl_lock s loop) t = Outside)))"

lemma locks_inv_global:
  "locks_inv s \<Longrightarrow> global_ble_lock loop s = (lock, s1) \<Longrightarrow>
   locks_inv s1 \<and> lock = bl_lock s1 loop \<and> bl_known s1 loop"
  by (auto simp: global_ble_lock_def locks_inv_def Let_def split: if_split_asm intro!: lock_inv_new)

lemma lock_step_known:
  assumes "lock_step e l = Some l'" "\<forall>t. e \<noteq> Acquire t" "lock_inv l"
  shows "\<exists>t. lk_phase l t \<noteq> Outside"
proof (cases e)
  case (Resume t)
  then obtain w where "map_of (lk_waiters l) t = Some w"
    using assms(1) by (auto simp: lock_resume_def Let_def split: option.splits)
  then have "t \<in> fst ` set (lk_waiters l)" by (force dest: map_of_SomeD)
  then have "lk_phase l t = Queued" using assms(3) by (simp add: lock_inv_def)
  then show ?thesis by (metis phase.distinct(1))
qed (use assms in \<open>auto simp: lock_cancel_def lock_release_def split: if_split_asm;
      metis phase.distinct\<close>)+

lemma locks_inv_step:
  assumes inv: "locks_inv s" and step: "ble_lock_step loop e s = Some s'"
  shows "locks_inv s'"
proof -
  obtain lock s1 where s1: "(case e of Acquire _ \<Rightarrow> global_ble_lock loop s | _ \<Rightarrow> (bl_lock s loop, s)) = (lock, s1)"
    by (metis surj_pair)
  then obtain lock1 where lock1: "lock_step e lock = Some lock1"
    and s': "s' = s1\<lparr>bl_lock := (bl_lock s1)(loop := lock1)\<rparr>"
    using step by (auto simp: ble_lock_step_def)
  have "locks_inv s1 \<and> lock = bl_lock s1 loop \<and> bl_known s1 loop"
  proof (cases "\<exists>t. e = Acquire t")
    case True
    then show ?thesis using s1 locks_inv_global [OF inv] by auto
  next
    case False
    then have "lock = bl_lock s loop" "s1 = s" using s1 by (cases e; simp)+
    moreover have "\<exists>t. lk_phase lock t \<noteq> Outside"
      using lock_step_known [OF lock1] False inv \<open>lock = bl_lock s loop\<close> by (auto simp: locks_inv_def)
    ultimately show ?thesis using inv by (auto simp: locks_inv_def)
  qed
  then show ?thesis using lock_inv_step [OF _ lock1] by (simp add: locks_inv_def s')
qed

lemma lock_run_inv: "lock_run s \<Longrightarrow> locks_inv s"
proof (induction rule: lock_run.induct)
  case start
  show ?case by (simp add: no_locks_def locks_inv_def lock_inv_def)
qed (rule locks_inv_step)

text \<open>While the lock is free the first waiter has been completed, so its resumption is a step.\<close>

lemma first_waiter_resumes:
  assumes "lock_inv l" "\<not> lk_locked l" "lk_waiters l = (t, w) # ws"
  shows "lk_phase l t = Queued \<and> lock_resume t l \<noteq> None"
  using assms by (cases w) (auto simp: lock_inv_def lock_resume_def Let_def)

lemma lock_inv_exclusive:
  assumes "lock_inv l" "lk_phase l t = Inside" "lk_phase l u = Inside"
  shows "t = u"
  using assms held_by_inside [of "lk_locked l" "lk_phase l" t] by (simp add: lock_inv_def)

lemma lock_inv_free: "lock_inv l \<Longrightarrow> \<forall>t. lk_phase l t \<noteq> Inside \<Longrightarrow> \<not> lk_locked l"
  by (auto simp: lock_inv_def held_by_def split: if_split_asm)

lemma lock_inv_queued: "lock_inv l \<Longrightarrow> lk_phase l u = Queued \<Longrightarrow> lk_waiters l \<noteq> []"
  by (auto simp: lock_inv_def)

text \<open>C28: Sessions on one event loop exclude each other and the lock never idles. After any sequence of
  acquisitions, resumptions, cancellations and ends of sessions, on any loops, at most one task of a
  loop is inside \<open>async with _global_ble_lock()\<close>; and when no task is inside while some task is queued,
  a queued task has been woken and its resumption is the next step, cancelled waiters included.\<close>

theorem sessions_exclude_each_other:
  assumes "lock_run s" and "l = bl_lock s loop"
  shows "(lk_phase l t = Inside \<and> lk_phase l u = Inside \<longrightarrow> t = u) \<and>
         ((\<forall>v. lk_phase l v \<noteq> Inside) \<and> lk_phase l u = Queued \<longrightarrow>
            (\<exists>v. lk_phase l v = Queued \<and> lock_resume v l \<noteq> None))"
proof -
  have inv: "lock_inv l" using lock_run_inv [OF assms(1)] assms(2) by (simp add: locks_inv_def)
  have "\<exists>v. lk_phase l v = Queued \<and> lock_resume v l \<noteq> None"
    if free: "\<forall>v. lk_phase l v \<noteq> Inside" and queued: "lk_phase l u = Queued"
  proof -
    obtain v w ws where "lk_waiters l = (v, w) # ws"
      using lock_inv_queued [OF inv queued] by (cases "lk_waiters l") auto
    then show ?thesis using first_waiter_resumes [OF inv lock_inv_free [OF inv free]] by blast
  qed
  then show ?thesis using lock_inv_exclusive [OF inv] by blast
qed

text \<open>
  The run of the witness: task 1 is inside, tasks 2 and 3 wait, task 2 is cancelled while it waits,
  and the session of task 1 ends; the resumption of task 2 wakes task 3.
\<close>

fun run_events :: "(nat \<times> lock_event) list \<Rightarrow> ble_locks \<Rightarrow> ble_locks option" where
  "run_events [] s = Some s"
| "run_events ((loop, e) # es) s = Option.bind (ble_lock_step loop e s) (run_events es)"

lemma lock_run_events: "lock_run s \<Longrightarrow> run_events es s = Some s' \<Longrightarrow> lock_run s'"
  by (induction es s rule: run_events.induct) (auto intro: lock_run.step simp: Option.bind_eq_Some_conv)

lemmas lock_eval = ble_lock_step_def global_ble_lock_def no_locks_def lock_new_def lock_acquire_def
  lock_cancel_def lock_release_def lock_resume_def cancel_wait_def

lemma contended_run:
  "run_events [(0, Acquire 1), (0, Acquire 2), (0, Acquire 3), (0, Cancel 2), (0, Release 1)] no_locks =
     Some \<lparr>bl_known = (\<lambda>_. False)(0 := True),
           bl_lock = (bl_lock no_locks)(0 := \<lparr>lk_locked = False, lk_waiters = [(2, Wait_cancelled), (3, Wait_pending)],
                                              lk_phase = (\<lambda>_. Outside)(2 := Queued, 3 := Queued)\<rparr>)\<rparr>"
  by (auto simp: lock_eval Let_def split_def fun_eq_iff)

theorem sessions_exclude_each_other_witness:
  "\<exists>v. ((\<lambda>_. Outside)(2 := Queued, 3 := Queued)) v = Queued \<and>
       lock_resume v \<lparr>lk_locked = False, lk_waiters = [(2, Wait_cancelled), (3, Wait_pending)],
                      lk_phase = (\<lambda>_. Outside)(2 := Queued, 3 := Queued)\<rparr> \<noteq> None"
  using sessions_exclude_each_other [OF lock_run_events [OF lock_run.start contended_run] refl, of 0 _ 2]
  by simp

end
