(* ===== verification/Concurrent_Clients.thy ===== *)
theory Concurrent_Clients
  imports Ble_Lock Shade_Client
begin

text \<open>
  Clients that share an event loop (\<open>TiltShadeClient._run_session\<close>). Each call enters
  \<open>async with _global_ble_lock()\<close> and runs its session in turns, suspended in between; the other
  tasks of the loop run meanwhile. The property shows that the outside world and every result are
  those of the sessions run one after the other, as \<open>Shade_Client\<close> has them.
\<close>

subsection \<open>Tasks\<close>

text \<open>What is left of a session: its result, or a turn that ends at an \<open>await\<close>.\<close>

datatype ('w, 'r) task = Done 'r | Turn "'w \<Rightarrow> 'w" "'w \<Rightarrow> ('w, 'r) task"

text \<open>The turn an operation is, and what the task goes on with after its result.\<close>

definition await :: "('w \<Rightarrow> 'a \<times> 'w) \<Rightarrow> ('a \<Rightarrow> ('w, 'r) task) \<Rightarrow> ('w, 'r) task" where
  "await m k = Turn (\<lambda>w. snd (m w)) (\<lambda>w. k (fst (m w)))"

primrec outcome :: "('w, 'r) task \<Rightarrow> 'w \<Rightarrow> 'r \<times> 'w" where
  "outcome (Done r) w = (r, w)"
| "outcome (Turn f k) w = outcome (k w) (f w)"

lemma outcome_await [simp]: "outcome (await m k) w = (let (r, w1) = m w in outcome (k r) w1)"
  by (simp add: await_def split_def Let_def)

type_synonym ('w, 'r) call = "shade_client \<times> ('w session, 'r) operation"

text \<open>\<open>_run_session\<close> inside the lock, with the suspensions between its phases.\<close>

definition cleanup_task :: "'w ble_env \<Rightarrow> bool \<Rightarrow> exc + 'r \<Rightarrow> ('w, exc + 'r) task" where
  "cleanup_task env has_session r =
     await (cancellation_safe_cleanup env has_session)
       (\<lambda>cleaned. Done (case cleaned of Inl e \<Rightarrow> Inl e | Inr _ \<Rightarrow> r))"

definition session_task :: "'w ble_env \<Rightarrow> ('w, 'r) call \<Rightarrow> ('w, exc + 'r) task" where
  "session_task env c =
     await (env_factory env (cl_mac (fst c))) (\<lambda>made.
       case made of
         Inl e \<Rightarrow> Done (Inl e)
       | Inr _ \<Rightarrow> await (connect_client env (fst c)) (\<lambda>connected.
           case connected of
             Inl e \<Rightarrow> cleanup_task env False (Inl e)
           | Inr _ \<Rightarrow> await (\<lambda>w. start_session env (env_new_session env w)) (\<lambda>started.
               case started of
                 Inl e \<Rightarrow> cleanup_task env True (Inl e)
               | Inr _ \<Rightarrow> await (\<lambda>w. let (r, s) = sbind (authenticate (env_send env)) (\<lambda>_. snd c)
                                      (session_new (cl_pairing_key (fst c)) w) in (r, s_link s))
                   (cleanup_task env True))))"

lemma outcome_session_task: "outcome (session_task env c) w = run_session env (fst c) (snd c) w"
  by (simp add: session_task_def cleanup_task_def run_session_def session_body_def Let_def split_def
      split: sum.split)

subsection \<open>The event loop\<close>

record ('w, 'r) event_loop =
  el_lock :: lock
  el_world :: 'w
  el_call :: "nat \<Rightarrow> ('w, 'r) call"
  el_task :: "nat \<Rightarrow> ('w, exc + 'r) task"
  el_done :: "(nat \<times> ('w, 'r) call \<times> (exc + 'r)) list"

text \<open>
  A task reaches the lock with a call, is woken or cancelled while it waits, runs a turn of its
  session, or leaves with the result. \<open>el_done\<close> lists the sessions that ran, in the order of their ends.
\<close>

datatype ('w, 'r) loop_event =
  Ask nat "('w, 'r) call" | Wake nat | Interrupt nat | Go nat | Leave nat

fun loop_step :: "'w ble_env \<Rightarrow> ('w, 'r) loop_event \<Rightarrow> ('w, 'r) event_loop \<Rightarrow> ('w, 'r) event_loop option" where
  "loop_step env (Ask t c) s =
     map_option (\<lambda>l. s\<lparr>el_lock := l, el_call := (el_call s)(t := c),
                       el_task := (el_task s)(t := session_task env c)\<rparr>)
       (lock_acquire t (el_lock s))"
| "loop_step env (Wake t) s = map_option (\<lambda>l. s\<lparr>el_lock := l\<rparr>) (lock_resume t (el_lock s))"
| "loop_step env (Interrupt t) s = map_option (\<lambda>l. s\<lparr>el_lock := l\<rparr>) (lock_cancel t (el_lock s))"
| "loop_step env (Go t) s =
     (if lk_phase (el_lock s) t \<noteq> Inside then None
      else case el_task s t of
          Done r \<Rightarrow> None
        | Turn f k \<Rightarrow> Some (s\<lparr>el_world := f (el_world s), el_task := (el_task s)(t := k (el_world s))\<rparr>))"
| "loop_step env (Leave t) s =
     (case el_task s t of
        Done r \<Rightarrow> map_option (\<lambda>l. s\<lparr>el_lock := l, el_done := el_done s @ [(t, el_call s t, r)]\<rparr>)
                    (lock_release t (el_lock s))
      | Turn f k \<Rightarrow> None)"

fun loop_run :: "'w ble_env \<Rightarrow> ('w, 'r) loop_event list \<Rightarrow> ('w, 'r) event_loop \<Rightarrow> ('w, 'r) event_loop option" where
  "loop_run env [] s = Some s"
| "loop_run env (e # es) s = Option.bind (loop_step env e s) (loop_run env es)"

lemma loop_run_append: "loop_run env (es @ fs) s = Option.bind (loop_run env es s) (loop_run env fs)"
  by (induction es arbitrary: s) (simp_all split: Option.bind_split)

text \<open>A loop in which nothing runs and whose lock is new.\<close>

definition idle_loop :: "'w \<Rightarrow> ('w, 'r) event_loop \<Rightarrow> bool" where
  "idle_loop w s \<longleftrightarrow>
     el_lock s = bl_lock no_locks 0 \<and> el_world s = w \<and> el_done s = []"

text \<open>The sessions of a list of calls, one after the other.\<close>

fun one_by_one :: "'w ble_env \<Rightarrow> ('w, 'r) call list \<Rightarrow> 'w \<Rightarrow> (exc + 'r) list \<times> 'w" where
  "one_by_one env [] w = ([], w)"
| "one_by_one env (c # cs) w =
     (let (r, w1) = run_session env (fst c) (snd c) w; (rs, w2) = one_by_one env cs w1 in (r # rs, w2))"

lemma one_by_one_append:
  "one_by_one env (cs @ [c]) w =
     (let (rs, w1) = one_by_one env cs w; (r, w2) = run_session env (fst c) (snd c) w1 in (rs @ [r], w2))"
  by (induction cs arbitrary: w) (simp_all add: split_def Let_def)

subsection \<open>The invariant\<close>

text \<open>The session inside still has to do what it would have done from where the others left the world.\<close>

definition serial :: "'w ble_env \<Rightarrow> 'w \<Rightarrow> ('w, 'r) event_loop \<Rightarrow> bool" where
  "serial env w0 s \<longleftrightarrow>
     lock_inv (el_lock s) \<and>
     (\<forall>t. lk_phase (el_lock s) t = Queued \<longrightarrow> el_task s t = session_task env (el_call s t)) \<and>
     (\<exists>w. one_by_one env (map (\<lambda>(t, c, r). c) (el_done s)) w0 = (map (\<lambda>(t, c, r). r) (el_done s), w) \<and>
        (\<forall>t. lk_phase (el_lock s) t = Inside \<longrightarrow>
           outcome (el_task s t) (el_world s) = run_session env (fst (el_call s t)) (snd (el_call s t)) w) \<and>
        ((\<forall>t. lk_phase (el_lock s) t \<noteq> Inside) \<longrightarrow> el_world s = w))"

text \<open>How a step of the lock moves the tasks: only its own, and it enters only an empty room.\<close>

lemma lock_inv_empty: "lock_inv l \<Longrightarrow> \<not> lk_locked l \<Longrightarrow> lk_phase l u \<noteq> Inside"
  by (simp add: lock_inv_def)

lemma acquire_phase:
  assumes "lock_inv l" and "lock_acquire t l = Some l'"
  obtains p where "lk_phase l' = (lk_phase l)(t := p)" "lk_phase l t = Outside"
    "p = Queued \<or> p = Inside \<and> (\<forall>u. lk_phase l u \<noteq> Inside)"
  using assms lock_inv_empty [OF assms(1)] by (auto simp: lock_acquire_def split: if_split_asm)

lemma resume_phase:
  assumes inv: "lock_inv l" and l': "lock_resume t l = Some l'"
  obtains p where "lk_phase l' = (lk_phase l)(t := p)" "lk_phase l t = Queued"
    "p = Outside \<or> p = Inside \<and> (\<forall>u. lk_phase l u \<noteq> Inside)"
proof -
  obtain w where w: "map_of (lk_waiters l) t = Some w"
    using l' by (cases "map_of (lk_waiters l) t") (auto simp: lock_resume_def Let_def)
  then have mem: "(t, w) \<in> set (lk_waiters l)" by (simp add: map_of_SomeD)
  then have queued: "lk_phase l t = Queued" using inv by (force simp: lock_inv_def)
  have "\<not> lk_locked l" if "w = Wait_woken" using inv mem that by (fastforce simp: lock_inv_def)
  then show ?thesis using that l' w queued lock_inv_empty [OF inv]
    by (cases w) (auto simp: lock_resume_def Let_def)
qed

lemma cancel_phase: "lock_cancel t l = Some l' \<Longrightarrow> lk_phase l' = lk_phase l"
  by (auto simp: lock_cancel_def split: if_split_asm)

lemma release_phase:
  "lock_release t l = Some l' \<Longrightarrow> lk_phase l' = (lk_phase l)(t := Outside) \<and> lk_phase l t = Inside"
  by (auto simp: lock_release_def split: if_split_asm)

text \<open>
  A step that leaves world and finished sessions alone keeps the invariant when the tasks that wait
  have not begun and whoever is inside was so before, or begins in an empty room.
\<close>

lemma serial_admits:
  assumes serial: "serial env w0 s" and inv: "lock_inv l'"
    and same: "el_world s' = el_world s" "el_done s' = el_done s" "el_lock s' = l'"
    and queued: "\<And>u. lk_phase l' u = Queued \<Longrightarrow> el_task s' u = session_task env (el_call s' u)"
    and inside: "\<And>u. lk_phase l' u = Inside \<Longrightarrow>
      lk_phase (el_lock s) u = Inside \<and> el_task s' u = el_task s u \<and> el_call s' u = el_call s u \<or>
      (\<forall>v. lk_phase (el_lock s) v \<noteq> Inside) \<and> el_task s' u = session_task env (el_call s' u)"
    and empty: "\<forall>u. lk_phase l' u \<noteq> Inside \<Longrightarrow> \<forall>u. lk_phase (el_lock s) u \<noteq> Inside"
  shows "serial env w0 s'"
proof -
  obtain w where w: "one_by_one env (map (\<lambda>(t, c, r). c) (el_done s)) w0 = (map (\<lambda>(t, c, r). r) (el_done s), w)"
    and ins: "\<And>t. lk_phase (el_lock s) t = Inside \<Longrightarrow>
      outcome (el_task s t) (el_world s) = run_session env (fst (el_call s t)) (snd (el_call s t)) w"
    and out: "\<forall>t. lk_phase (el_lock s) t \<noteq> Inside \<Longrightarrow> el_world s = w"
    using serial unfolding serial_def by blast
  have "outcome (el_task s' u) (el_world s') = run_session env (fst (el_call s' u)) (snd (el_call s' u)) w"
    if "lk_phase l' u = Inside" for u
    using inside [OF that] ins [of u] out same(1) by (auto simp: outcome_session_task)
  then show ?thesis using w inv queued out empty same unfolding serial_def by auto
qed

lemma serial_ask:
  assumes "serial env w0 s" and "loop_step env (Ask t c) s = Some s'"
  shows "serial env w0 s'"
proof -
  obtain l' where l': "lock_acquire t (el_lock s) = Some l'"
    and s': "s' = s\<lparr>el_lock := l', el_call := (el_call s)(t := c), el_task := (el_task s)(t := session_task env c)\<rparr>"
    using assms(2) by auto
  have inv: "lock_inv (el_lock s)" using assms(1) by (simp add: serial_def)
  then obtain p where p: "lk_phase l' = (lk_phase (el_lock s))(t := p)" "lk_phase (el_lock s) t = Outside"
    "p = Queued \<or> p = Inside \<and> (\<forall>u. lk_phase (el_lock s) u \<noteq> Inside)"
    using acquire_phase l' by metis
  show ?thesis
  proof (rule serial_admits [OF assms(1) lock_inv_acquire [OF inv l']])
    show "el_task s' u = session_task env (el_call s' u)" if "lk_phase l' u = Queued" for u
      using that p assms(1) by (auto simp: s' serial_def split: if_split_asm)
    show "\<forall>u. lk_phase (el_lock s) u \<noteq> Inside" if "\<forall>u. lk_phase l' u \<noteq> Inside"
      using that p(1,2) by (metis fun_upd_other phase.distinct(3))
  qed (use p s' in \<open>auto split: if_split_asm\<close>)
qed

lemma serial_wake:
  assumes "serial env w0 s" and "loop_step env (Wake t) s = Some s'"
  shows "serial env w0 s'"
proof -
  obtain l' where l': "lock_resume t (el_lock s) = Some l'" and s': "s' = s\<lparr>el_lock := l'\<rparr>"
    using assms(2) by auto
  have inv: "lock_inv (el_lock s)"
    and wait: "\<And>u. lk_phase (el_lock s) u = Queued \<Longrightarrow> el_task s u = session_task env (el_call s u)"
    using assms(1) by (simp_all add: serial_def)
  obtain p where p: "lk_phase l' = (lk_phase (el_lock s))(t := p)" "lk_phase (el_lock s) t = Queued"
    "p = Outside \<or> p = Inside \<and> (\<forall>u. lk_phase (el_lock s) u \<noteq> Inside)"
    using resume_phase [OF inv l'] by metis
  show ?thesis
  proof (rule serial_admits [OF assms(1) lock_inv_resume [OF inv l']])
    show "\<forall>u. lk_phase (el_lock s) u \<noteq> Inside" if "\<forall>u. lk_phase l' u \<noteq> Inside"
      using that p(1,2) by (metis fun_upd_other phase.distinct(5))
  qed (use p wait s' in \<open>auto split: if_split_asm\<close>)
qed

lemma serial_interrupt:
  assumes "serial env w0 s" and "loop_step env (Interrupt t) s = Some s'"
  shows "serial env w0 s'"
proof -
  obtain l' where l': "lock_cancel t (el_lock s) = Some l'" and s': "s' = s\<lparr>el_lock := l'\<rparr>"
    using assms(2) by auto
  have "lock_inv (el_lock s)" using assms(1) by (simp add: serial_def)
  from serial_admits [OF assms(1) lock_inv_cancel [OF this l'], of s'] show ?thesis
    using cancel_phase [OF l'] assms(1) by (simp add: s' serial_def)
qed

lemma serial_go:
  assumes "serial env w0 s" and "loop_step env (Go t) s = Some s'"
  shows "serial env w0 s'"
proof -
  obtain f k where fk: "el_task s t = Turn f k" "lk_phase (el_lock s) t = Inside"
    and s': "s' = s\<lparr>el_world := f (el_world s), el_task := (el_task s)(t := k (el_world s))\<rparr>"
    using assms(2) by (auto split: if_split_asm task.splits)
  have inv: "lock_inv (el_lock s)" using assms(1) by (simp add: serial_def)
  have only: "u = t" if "lk_phase (el_lock s) u = Inside" for u by (rule lock_inv_exclusive [OF inv that fk(2)])
  obtain w where w: "one_by_one env (map (\<lambda>(t, c, r). c) (el_done s)) w0 = (map (\<lambda>(t, c, r). r) (el_done s), w)"
    and run: "outcome (el_task s t) (el_world s) = run_session env (fst (el_call s t)) (snd (el_call s t)) w"
    using assms(1) fk(2) unfolding serial_def by blast
  have "outcome (el_task s' u) (el_world s') = run_session env (fst (el_call s' u)) (snd (el_call s' u)) w"
    if "lk_phase (el_lock s') u = Inside" for u
    using only [of u] that run by (simp add: s' fk(1))
  moreover have "el_task s' u = session_task env (el_call s' u)" if "lk_phase (el_lock s') u = Queued" for u
    using that assms(1) fk(2) by (auto simp: s' serial_def)
  moreover have "lk_phase (el_lock s') t = Inside" using fk(2) by (simp add: s')
  ultimately show ?thesis using inv w by (auto simp: serial_def s' simp del: fun_upd_apply)
qed

lemma serial_leave:
  assumes "serial env w0 s" and "loop_step env (Leave t) s = Some s'"
  shows "serial env w0 s'"
proof -
  obtain r l' where r: "el_task s t = Done r" and l': "lock_release t (el_lock s) = Some l'"
    and s': "s' = s\<lparr>el_lock := l', el_done := el_done s @ [(t, el_call s t, r)]\<rparr>"
    using assms(2) by (auto split: task.splits)
  have inv: "lock_inv (el_lock s)" using assms(1) by (simp add: serial_def)
  note ph = release_phase [OF l']
  have empty: "lk_phase l' u \<noteq> Inside" for u using lock_inv_exclusive [OF inv] ph by auto
  obtain w where w: "one_by_one env (map (\<lambda>(t, c, r). c) (el_done s)) w0 = (map (\<lambda>(t, c, r). r) (el_done s), w)"
    and run: "outcome (el_task s t) (el_world s) = run_session env (fst (el_call s t)) (snd (el_call s t)) w"
    using assms(1) ph unfolding serial_def by blast
  have "run_session env (fst (el_call s t)) (snd (el_call s t)) w = (r, el_world s)" using run r by simp
  then have "one_by_one env (map (\<lambda>(t, c, r). c) (el_done s')) w0 = (map (\<lambda>(t, c, r). r) (el_done s'), el_world s')"
    using w by (simp add: s' one_by_one_append)
  moreover have "el_task s' u = session_task env (el_call s' u)" if "lk_phase l' u = Queued" for u
    using that ph assms(1) by (auto simp: s' serial_def split: if_split_asm)
  ultimately show ?thesis using lock_inv_release [OF inv l'] empty by (simp add: serial_def s')
qed

lemma serial_run: "serial env w0 s \<Longrightarrow> loop_run env es s = Some s' \<Longrightarrow> serial env w0 s'"
proof (induction env es s rule: loop_run.induct)
  case (2 env e es s)
  obtain s1 where s1: "loop_step env e s = Some s1" "loop_run env es s1 = Some s'"
    using "2.prems"(2) by (auto simp: bind_eq_Some_conv)
  have "serial env w0 s1"
    using s1(1) "2.prems"(1) by (cases e) (metis serial_ask serial_wake serial_interrupt serial_go serial_leave)+
  then show ?case using "2.IH" s1 by blast
qed simp

lemma serial_idle: "idle_loop w s \<Longrightarrow> serial env w s"
  using lock_run_inv [OF lock_run.start]
  by (simp add: idle_loop_def serial_def locks_inv_def) (simp add: no_locks_def)

lemma loop_one_by_one:
  assumes "idle_loop w0 s0" and "loop_run env es s0 = Some s"
  shows "\<exists>w. one_by_one env (map (\<lambda>(t, c, r). c) (el_done s)) w0 = (map (\<lambda>(t, c, r). r) (el_done s), w) \<and>
    ((\<forall>t. lk_phase (el_lock s) t \<noteq> Inside) \<longrightarrow> el_world s = w) \<and>
    (\<forall>t. lk_phase (el_lock s) t = Inside \<longrightarrow>
       (\<forall>u. lk_phase (el_lock s) u = Inside \<longrightarrow> u = t) \<and>
       outcome (el_task s t) (el_world s) = run_session env (fst (el_call s t)) (snd (el_call s t)) w)"
proof -
  have serial: "serial env w0 s" by (rule serial_run [OF serial_idle [OF assms(1)] assms(2)])
  then have "lock_inv (el_lock s)" by (simp add: serial_def)
  note only = lock_inv_exclusive [OF this]
  from serial obtain w where
    "one_by_one env (map (\<lambda>(t, c, r). c) (el_done s)) w0 = (map (\<lambda>(t, c, r). r) (el_done s), w)"
    "\<forall>t. lk_phase (el_lock s) t = Inside \<longrightarrow>
      outcome (el_task s t) (el_world s) = run_session env (fst (el_call s t)) (snd (el_call s t)) w"
    "(\<forall>t. lk_phase (el_lock s) t \<noteq> Inside) \<longrightarrow> el_world s = w"
    unfolding serial_def by blast
  then show ?thesis using only by blast
qed

subsection \<open>Property\<close>

text \<open>C5: Clients that share an event loop behave as if their sessions ran one after the other. After any
  interleaving of the tasks' turns, with any cancellations of waiting tasks, the sessions that have
  ended returned what \<open>run_session\<close> returns when they run one by one in that order, and the outside
  world is the one this leaves; while a session is under way, it is the only one and what is left of
  it ends as its \<open>run_session\<close> from there.\<close>

theorem clients_run_one_by_one:
  assumes "idle_loop w0 s0" and "loop_run env es s0 = Some s"
  shows "\<exists>w. one_by_one env (map (\<lambda>(t, c, r). c) (el_done s)) w0 = (map (\<lambda>(t, c, r). r) (el_done s), w) \<and>
    ((\<forall>t. lk_phase (el_lock s) t \<noteq> Inside) \<longrightarrow> el_world s = w) \<and>
    (\<forall>t. lk_phase (el_lock s) t = Inside \<longrightarrow>
       (\<forall>u. lk_phase (el_lock s) u = Inside \<longrightarrow> u = t) \<and>
       outcome (el_task s t) (el_world s) = run_session env (fst (el_call s t)) (snd (el_call s t)) w)"
  by (rule loop_one_by_one [OF assms])

text \<open>A world that counts the clients made for it, none of which can be used.\<close>

definition busy_env :: "nat ble_env" where
  "busy_env =
     \<lparr>env_factory = (\<lambda>mac w. (Inl (BleakError mac), Suc w)), env_is_connected = (\<lambda>w. False),
      env_connect = (\<lambda>w. (Inr (), w)), env_new_session = (\<lambda>w. w), env_start_notify = (\<lambda>w. (Inr (), w)),
      env_start_worker = (\<lambda>w. w), env_stop_worker = (\<lambda>w. w), env_stop_notify = (\<lambda>w. (Inr (), w)),
      env_disconnect = (\<lambda>w. (Inr (), w)), env_send = (\<lambda>f r w. (Inl TimeoutError, w)), env_cancelled = (\<lambda>w. False)\<rparr>"

definition busy_call :: "string \<Rightarrow> (nat, unit) call" where
  "busy_call mac = (\<lparr>cl_mac = mac, cl_shade_id = mac, cl_pairing_key = [], cl_allow_position_writes = False\<rparr>,
     yields (Inr ()))"

definition busy_loop :: "(nat, unit) event_loop" where
  "busy_loop = \<lparr>el_lock = bl_lock no_locks 0, el_world = 0, el_call = (\<lambda>_. busy_call []),
     el_task = (\<lambda>_. Done (Inr ())), el_done = []\<rparr>"

theorem clients_run_one_by_one_witness:
  "\<exists>s. loop_run busy_env [Ask 1 (busy_call ''A''), Ask 2 (busy_call ''B''), Go 1, Leave 1, Wake 2, Go 2, Leave 2]
      busy_loop = Some s \<and>
     one_by_one busy_env [busy_call ''A'', busy_call ''B''] 0 =
       ([Inl (BleakError ''A''), Inl (BleakError ''B'')], el_world s) \<and> el_world s = 2"
proof -
  let ?es = "[Ask 1 (busy_call ''A''), Ask 2 (busy_call ''B''), Go 1, Leave 1, Wake 2, Go 2, Leave 2]"
  have "\<exists>s. loop_run busy_env ?es busy_loop = Some s \<and> el_world s = 2 \<and> (\<forall>t. lk_phase (el_lock s) t = Outside) \<and>
      el_done s = [(1, busy_call ''A'', Inl (BleakError ''A'')), (2, busy_call ''B'', Inl (BleakError ''B''))]"
    by (simp add: lock_eval busy_loop_def busy_env_def session_task_def await_def busy_call_def)
  then obtain s where s: "loop_run busy_env ?es busy_loop = Some s" "el_world s = 2"
    "\<forall>t. lk_phase (el_lock s) t = Outside"
    "el_done s = [(1, busy_call ''A'', Inl (BleakError ''A'')), (2, busy_call ''B'', Inl (BleakError ''B''))]" by blast
  have "idle_loop 0 busy_loop" by (simp add: idle_loop_def busy_loop_def)
  from clients_run_one_by_one [OF this s(1)] s show ?thesis by auto
qed

end
