(* ===== verification/Concurrent_Moves.thy ===== *)
theory Concurrent_Moves
  imports End_To_End Concurrent_Clients
begin

text \<open>
  Several clients of one fake shade on one event loop: what \<open>Concurrent_Clients\<close> says of their
  sessions, together with what \<open>End_To_End\<close> says of a position change.
\<close>

type_synonym change = "shade_client \<times> int"

definition change_call :: "scheduler \<Rightarrow> cipher \<Rightarrow> change \<Rightarrow> (world, shade_status \<times> bool) call" where
  "change_call sched ctr c = (fst c, position_operation ctr (device_exchange sched ctr) (snd c))"

text \<open>The shade after a position change, and the results of a sequence of them.\<close>

definition shade_after :: "int \<Rightarrow> fake_shade \<Rightarrow> fake_shade" where
  "shade_after target sh = (if fs_position sh = target then sh else moved_shade sh target)"

fun move_results :: "int list \<Rightarrow> fake_shade \<Rightarrow> (exc + shade_status \<times> bool) list" where
  "move_results [] sh = []"
| "move_results (target # ts) sh = move_result sh target # move_results ts (shade_after target sh)"

lemma shade_after_simps [simp]:
  "valid_shade sh \<Longrightarrow> valid_shade (shade_after target sh)"
  "fs_key (shade_after target sh) = fs_key sh" "fs_proof_key (shade_after target sh) = fs_proof_key sh"
  by (simp_all add: shade_after_def) (simp add: moved_shade_def)

lemma run_change:
  assumes "ctr_cipher ctr" and "valid_world w" and "fs_proof_key (world_shade w) = fs_key (world_shade w)"
    and "cl_pairing_key (fst c) = fs_key (world_shade w)" and "0 \<le> snd c" and "snd c \<le> 100"
  shows "\<exists>w'. run_session (fake_env sched ctr) (fst (change_call sched ctr c)) (snd (change_call sched ctr c)) w =
      (move_result (world_shade w) (snd c), w') \<and>
    world_shade w' = shade_after (snd c) (world_shade w) \<and> valid_world w'"
proof -
  have "\<exists>w'. run_session (fake_env sched ctr) (fst c) (position_operation ctr (device_exchange sched ctr) (snd c)) w =
      (move_result (world_shade w) (snd c), w') \<and>
    world_shade w' = shade_after (snd c) (world_shade w) \<and> dv_tasks (snd w') = [] \<and> \<not> w_connected w'"
    using device.position_operation_joined [OF assms(1) _ assms(5,6) refl] assms(2-4)
    by (intro run_session_fake) (simp_all add: shade_after_def, metis world_shade_def)
  then show ?thesis using assms(2) by (auto simp: change_call_def valid_world_def)
qed

lemma changes_one_by_one:
  assumes "ctr_cipher ctr"
  shows "valid_world w \<Longrightarrow> fs_proof_key (world_shade w) = fs_key (world_shade w) \<Longrightarrow>
    (\<And>c. c \<in> set cs \<Longrightarrow> cl_pairing_key (fst c) = fs_key (world_shade w) \<and> 0 \<le> snd c \<and> snd c \<le> 100) \<Longrightarrow>
    \<exists>w'. one_by_one (fake_env sched ctr) (map (change_call sched ctr) cs) w =
        (move_results (map snd cs) (world_shade w), w') \<and>
      world_shade w' = fold shade_after (map snd cs) (world_shade w)"
proof (induction cs arbitrary: w)
  case (Cons c cs)
  obtain w1 where w1: "run_session (fake_env sched ctr) (fst (change_call sched ctr c)) (snd (change_call sched ctr c)) w =
      (move_result (world_shade w) (snd c), w1)"
    "world_shade w1 = shade_after (snd c) (world_shade w)" "valid_world w1"
    using run_change [OF assms Cons.prems(1,2), of c sched] Cons.prems(3) [of c] by auto
  moreover have "\<exists>w'. one_by_one (fake_env sched ctr) (map (change_call sched ctr) cs) w1 =
      (move_results (map snd cs) (world_shade w1), w') \<and>
      world_shade w' = fold shade_after (map snd cs) (world_shade w1)"
    using w1 Cons.prems by (intro Cons.IH) simp_all
  ultimately show ?case by auto
qed simp

text \<open>C6: Clients of one shade that change its position at the same time, on one event loop, whatever
  the order in which the loop runs their sessions' turns and whichever waiting tasks are cancelled:
  the calls that have ended got the results of the changes made one after the other, in the order
  in which they ended, and when no session is under way the shade is where they lead, each target
  that was not already reached having been requested exactly once.\<close>

theorem concurrent_changes_in_order:
  assumes "ctr_cipher ctr" and "idle_loop w0 s0" and "valid_world w0"
    and "fs_proof_key (world_shade w0) = fs_key (world_shade w0)"
    and "loop_run (fake_env sched ctr) es s0 = Some s"
    and "map (\<lambda>(t, c, r). c) (el_done s) = map (change_call sched ctr) changes"
    and "\<forall>c \<in> set changes.
      cl_pairing_key (fst c) = fs_key (world_shade w0) \<and> 0 \<le> snd c \<and> snd c \<le> 100"
  shows "map (\<lambda>(t, c, r). r) (el_done s) = move_results (map snd changes) (world_shade w0) \<and>
    ((\<forall>t. lk_phase (el_lock s) t \<noteq> Inside) \<longrightarrow>
       world_shade (el_world s) = fold shade_after (map snd changes) (world_shade w0))"
proof -
  obtain w where "one_by_one (fake_env sched ctr) (map (\<lambda>(t, c, r). c) (el_done s)) w0 =
      (map (\<lambda>(t, c, r). r) (el_done s), w)"
    and "(\<forall>t. lk_phase (el_lock s) t \<noteq> Inside) \<longrightarrow> el_world s = w"
    using loop_one_by_one [OF assms(2,5)] by blast
  with changes_one_by_one [OF assms(1,3,4), of changes sched] assms(6,7) show ?thesis by auto
qed

text \<open>A session with the fake shade takes five turns.\<close>

lemma five_turns:
  assumes "lk_phase (el_lock s) t = Inside" and "el_task s t = session_task (fake_env sched ctr) c"
  shows "\<exists>s' r. loop_run (fake_env sched ctr) (replicate 5 (Go t)) s = Some s' \<and>
    el_lock s' = el_lock s \<and> el_call s' = el_call s \<and> el_done s' = el_done s \<and>
    el_task s' t = Done r \<and> (\<forall>u. u \<noteq> t \<longrightarrow> el_task s' u = el_task s u)"
proof -
  have c: "fst (connect_client (fake_env sched ctr) client w) = Inr ()" for client w
    using connect_fake [of "device_exchange sched ctr" client w] by (auto simp: fake_env_def)
  have f: "fst (env_factory (fake_env sched ctr) mac w) = Inr ()"
    "fst (start_session (fake_env sched ctr) w) = Inr ()" for mac w
    by (simp_all add: fake_env_def env_over_def start_session_def split_def)
  have five: "replicate 5 (Go t) = [Go t, Go t, Go t, Go t, Go t]" by (simp add: eval_nat_numeral)
  show ?thesis using assms
    by (simp add: five session_task_def cleanup_task_def await_def c f)
qed

theorem concurrent_changes_in_order_witness:
  "\<exists>(client :: shade_client) (s :: (world, shade_status \<times> bool) event_loop).
     cl_pairing_key client = replicate 32 7 \<and>
     map (\<lambda>(t, c, r). c) (el_done s) = map (change_call next_turn xor_cipher) [(client, 60), (client, 30)] \<and>
     map (\<lambda>(t, c, r). r) (el_done s) = move_results [60, 30] example_shade \<and>
     world_shade (el_world s) = example_shade\<lparr>fs_position := 30, fs_set_position_calls := 2\<rparr>"
proof -
  let ?env = "fake_env next_turn xor_cipher"
  let ?c = "change_call next_turn xor_cipher"
  define client where "client = \<lparr>cl_mac = ''AA'', cl_shade_id = ''AA'', cl_pairing_key = replicate 32 (7 :: byte),
    cl_allow_position_writes = True\<rparr>"
  let ?s0 = "\<lparr>el_lock = bl_lock no_locks 0, el_world = example_world, el_call = (\<lambda>_. ?c (client, 60)),
    el_task = (\<lambda>_. Done (Inl TimeoutError)), el_done = []\<rparr>"
  let ?two = "[Ask 1 (?c (client, 60)), Ask 2 (?c (client, 30))]"
  obtain s1 where s1: "loop_run ?env ?two ?s0 = Some s1"
    "lk_phase (el_lock s1) 1 = Inside" "el_task s1 1 = session_task ?env (?c (client, 60))"
    "el_task s1 2 = session_task ?env (?c (client, 30))" "el_done s1 = []"
    "el_call s1 1 = ?c (client, 60)" "el_call s1 2 = ?c (client, 30)"
    "el_lock s1 = \<lparr>lk_locked = True, lk_waiters = [(2, Wait_pending)], lk_phase = (\<lambda>_. Outside)(1 := Inside, 2 := Queued)\<rparr>"
    by (simp add: lock_eval)
  from five_turns [OF s1(2,3)] obtain s2 r2 where
    s2: "loop_run ?env (replicate 5 (Go 1)) s1 = Some s2" "el_lock s2 = el_lock s1" "el_call s2 = el_call s1"
    "el_done s2 = []" "el_task s2 1 = Done r2" "el_task s2 2 = session_task ?env (?c (client, 30))"
    using s1(4,5) by auto
  obtain s3 where s3: "loop_run ?env [Leave 1, Wake 2] s2 = Some s3"
    "lk_phase (el_lock s3) 2 = Inside" "el_task s3 2 = session_task ?env (?c (client, 30))"
    "el_done s3 = [(1, ?c (client, 60), r2)]" "el_call s3 2 = ?c (client, 30)"
    "lk_phase (el_lock s3) = (\<lambda>_. Outside)(2 := Inside)"
    using s1 s2 by (simp add: lock_eval fun_eq_iff)
  from five_turns [OF s3(2,3)] obtain s4 r4 where
    s4: "loop_run ?env (replicate 5 (Go 2)) s3 = Some s4" "el_lock s4 = el_lock s3" "el_call s4 = el_call s3"
    "el_done s4 = el_done s3" "el_task s4 2 = Done r4" by auto
  obtain s5 where s5: "loop_run ?env [Leave 2] s4 = Some s5"
    "\<forall>t. lk_phase (el_lock s5) t \<noteq> Inside" "el_done s5 = [(1, ?c (client, 60), r2), (2, ?c (client, 30), r4)]"
    using s3 s4 by (simp add: lock_eval)
  have run: "loop_run ?env (?two @ replicate 5 (Go 1) @ [Leave 1, Wake 2] @ replicate 5 (Go 2) @ [Leave 2]) ?s0 = Some s5"
    by (simp only: loop_run_append s1(1) s2(1) s3(1) s4(1) s5(1) bind.bind_lunit)
  have idle: "idle_loop example_world ?s0" by (simp add: idle_loop_def)
  have calls: "map (\<lambda>(t, c, r). c) (el_done s5) = map ?c [(client, 60), (client, 30)]" by (simp add: s5(3))
  have own: "\<forall>c \<in> set [(client, 60 :: int), (client, 30)].
      cl_pairing_key (fst c) = fs_key (world_shade example_world) \<and> 0 \<le> snd c \<and> snd c \<le> 100"
    by (simp add: client_def example_world(2))
  have proof_key: "fs_proof_key (world_shade example_world) = fs_key (world_shade example_world)"
    by (simp add: example_world(2,3))
  have "map (\<lambda>(t, c, r). r) (el_done s5) = move_results [60, 30] example_shade \<and>
      world_shade (el_world s5) = fold shade_after [60, 30] example_shade"
    using concurrent_changes_in_order [OF ctr_cipher_xor_cipher idle example_world(1) proof_key run calls own] s5(2)
    by (simp only: list.map snd_conv example_world_shade) simp
  moreover have "fold shade_after [60, 30] example_shade =
      example_shade\<lparr>fs_position := 30, fs_set_position_calls := 2\<rparr>"
    by (simp add: shade_after_def moved_shade_def travelled_def round_div_def example_shade_def)
  moreover have "cl_pairing_key client = replicate 32 7" by (simp add: client_def)
  ultimately show ?thesis using calls by (intro exI [of _ client] exI [of _ s5]) simp
qed

end
