(* ===== verification/Radio.thy ===== *)
theory Radio
  imports End_To_End
begin

text \<open>
  The link and a shade with an unreliable radio between them: a write of the client may reach the
  shade, late, or be lost, any bytes may be notified to the client at any time, every timer may fire,
  writes may fail and tasks be cancelled (all of \<open>link_step\<close>), in any order. Nothing but the client's
  writes reaches the shade, each at most once and in order.

  The shade is any automaton that \<open>moving_shade\<close> holds of: it need not notice that a chunk is one it
  has seen, so that it is the client that must not send a position request twice. The fake shade is
  one.
\<close>

subsection \<open>Shades\<close>

text \<open>
  \<open>receive\<close> is a write that arrives, \<open>turn\<close> what the shade does by itself. \<open>moves\<close> counts the position
  commands carried out and \<open>waiting\<close> bounds those that what has been received can still start: a chunk
  adds at most one, an acknowledgement none.
\<close>

definition moves_once_per_chunk ::
  "(bytes \<Rightarrow> 'd \<Rightarrow> 'd) \<Rightarrow> ('t \<Rightarrow> 'd \<Rightarrow> 'd option) \<Rightarrow> ('d \<Rightarrow> nat) \<Rightarrow> ('d \<Rightarrow> nat) \<Rightarrow> bool" where
  "moves_once_per_chunk receive turn moves waiting \<longleftrightarrow>
     (\<forall>c d. moves (receive c d) + waiting (receive c d) \<le> Suc (moves d + waiting d)) \<and>
     (\<forall>a d s. make_ble_ack s = Inr a \<longrightarrow> moves (receive a d) + waiting (receive a d) \<le> moves d + waiting d) \<and>
     (\<forall>t d d1. turn t d = Some d1 \<longrightarrow> moves d1 + waiting d1 \<le> moves d + waiting d)"

datatype 't radio_event =
    Client_event event
  | Write_reaches
  | Write_lost
  | Shade_event 't

text \<open>The link, how many of its writes are past the radio, and the shade.\<close>

type_synonym 'd radio = "link \<times> nat \<times> 'd"

fun written_bytes :: "gatt_write \<Rightarrow> bytes" where
  "written_bytes (Chunk_write c) = c"
| "written_bytes (Ack_write a) = a"

fun radio_step ::
  "(bytes \<Rightarrow> 'd \<Rightarrow> 'd) \<Rightarrow> ('t \<Rightarrow> 'd \<Rightarrow> 'd option) \<Rightarrow> 't radio_event \<Rightarrow> 'd radio \<Rightarrow> 'd radio option" where
  "radio_step receive turn (Client_event e) (l, k, d) = map_option (\<lambda>l1. (l1, k, d)) (link_step e l)"
| "radio_step receive turn Write_reaches (l, k, d) =
     (if k < length (writes l) then Some (l, Suc k, receive (written_bytes (writes l ! k)) d) else None)"
| "radio_step receive turn Write_lost (l, k, d) = (if k < length (writes l) then Some (l, Suc k, d) else None)"
| "radio_step receive turn (Shade_event t) (l, k, d) = map_option (\<lambda>d1. (l, k, d1)) (turn t d)"

fun radio_run ::
  "(bytes \<Rightarrow> 'd \<Rightarrow> 'd) \<Rightarrow> ('t \<Rightarrow> 'd \<Rightarrow> 'd option) \<Rightarrow> 't radio_event list \<Rightarrow> 'd radio \<Rightarrow> 'd radio option" where
  "radio_run receive turn [] r = Some r"
| "radio_run receive turn (e # es) r = Option.bind (radio_step receive turn e r) (radio_run receive turn es)"

text \<open>The chunks written that are not past the radio.\<close>

definition chunks_under_way :: "nat \<Rightarrow> link \<Rightarrow> bytes list" where
  "chunks_under_way k l = concat (map chunk_of_write (drop k (writes l)))"

subsection \<open>What the client writes\<close>

definition honest_write :: "gatt_write \<Rightarrow> bool" where
  "honest_write w \<longleftrightarrow> (case w of Chunk_write _ \<Rightarrow> True | Ack_write a \<Rightarrow> \<exists>s. make_ble_ack s = Inr a)"

definition writes_on :: "link \<Rightarrow> link \<Rightarrow> bool" where
  "writes_on l l' \<longleftrightarrow> (\<exists>ws. writes l' = writes l @ ws \<and> list_all honest_write ws)"

lemma writes_on_same: "writes l' = writes l \<Longrightarrow> writes_on l l'"
  by (simp add: writes_on_def)

lemma writes_on_trans: "writes_on l l1 \<Longrightarrow> writes_on l1 l2 \<Longrightarrow> writes_on l l2"
  by (auto simp: writes_on_def)

lemma writes_on_begin [simp]: "writes_on l (begin_attempt c cs n k l)"
  by (simp add: writes_on_def begin_attempt_def Let_def honest_write_def)

lemma writes_simps [simp]:
  "writes (fail e l) = writes l" "writes (finish r l) = writes l" "writes (release_waiter a l) = writes l"
  "writes (acknowledge s l) = writes l" "writes (notification_received data l) = writes l"
  by (auto simp: fail_def finish_def release_waiter_def acknowledge_def notification_received_def Let_def
      split: option.split)

lemma writes_on_attempt_failed: "writes l1 = writes l \<Longrightarrow> writes_on l (attempt_failed e a l1)"
  using writes_on_trans [OF writes_on_same writes_on_begin] by (auto simp: attempt_failed_def Let_def writes_on_same)

lemma writes_on_next_chunk: "writes l1 = writes l \<Longrightarrow> writes_on l (next_chunk cs n l1)"
  using writes_on_trans [OF writes_on_same writes_on_begin] by (cases cs) (auto simp: writes_on_same)

lemma writes_on_step: "link_step e l = Some l' \<Longrightarrow> writes_on l l'"
proof (cases e)
  case Worker_take
  assume "link_step e l = Some l'"
  then show ?thesis using Worker_take
    by (auto simp: worker_take_def worker_process_def writes_on_def honest_write_def
        split: worker.splits list.splits sum.splits option.splits if_split_asm prod.splits)
next
  case (Worker_written r)
  assume "link_step e l = Some l'"
  then show ?thesis using Worker_written
    by (auto simp: worker_written_def Let_def intro!: writes_on_same
        split: worker.splits option.splits if_split_asm)
next
  case (Sender_written r)
  assume "link_step e l = Some l'"
  then show ?thesis using Sender_written
    by (auto simp: sender_written_def intro: writes_on_same writes_on_attempt_failed
        split: sender.splits option.splits)
next
  case Sender_wake
  assume "link_step e l = Some l'"
  then show ?thesis using Sender_wake
    by (auto simp: sender_wake_def chunk_acknowledged_def Let_def
        intro: writes_on_same writes_on_attempt_failed writes_on_next_chunk
        split: sender.splits future.splits sum.splits)
next
  case Ack_timeout
  assume "link_step e l = Some l'"
  then show ?thesis using Ack_timeout
    by (auto simp: ack_timeout_def intro: writes_on_attempt_failed split: sender.splits)
next
  case Sender_cancel
  assume "link_step e l = Some l'"
  then show ?thesis using Sender_cancel
    by (auto simp: sender_cancel_def intro: writes_on_same writes_on_attempt_failed split: sender.splits)
qed (auto simp: worker_cancel_def take_response_def response_timeout_def intro!: writes_on_same
      split: sender.splits list.splits if_split_asm)

lemma writes_on_send: "writes_on l (send_frame f r l)"
  by (auto simp: send_frame_def intro: writes_on_same writes_on_next_chunk split: sum.split)

text \<open>All writes of a session are chunks or acknowledgements.\<close>

lemma writes_on_honest: "writes_on l l' \<Longrightarrow> list_all honest_write (writes l) \<Longrightarrow> list_all honest_write (writes l')"
  by (auto simp: writes_on_def)

lemma session_run_honest: "session_run l \<Longrightarrow> list_all honest_write (writes l)"
proof (induction rule: session_run.induct)
  case session_new
  then show ?case by (simp add: link_new_def)
qed (auto intro: writes_on_honest writes_on_step writes_on_send)

lemma chunks_under_way_next:
  "k < length (writes l) \<Longrightarrow>
     chunks_under_way k l = chunk_of_write (writes l ! k) @ chunks_under_way (Suc k) l"
  by (simp add: chunks_under_way_def Cons_nth_drop_Suc [symmetric])

lemma chunks_under_way_grow:
  "writes_on l l1 \<Longrightarrow> k \<le> length (writes l) \<Longrightarrow>
     \<exists>ws. chunks_under_way k l1 = chunks_under_way k l @ ws \<and> chunk_writes l1 = chunk_writes l @ ws"
  by (auto simp: writes_on_def chunks_under_way_def chunk_writes_def)

subsection \<open>What reaches a shade\<close>

locale moving_shade =
  fixes receive :: "bytes \<Rightarrow> 'd \<Rightarrow> 'd" and turn :: "'t \<Rightarrow> 'd \<Rightarrow> 'd option"
    and moves :: "'d \<Rightarrow> nat" and waiting :: "'d \<Rightarrow> nat"
  assumes once: "moves_once_per_chunk receive turn moves waiting"
begin

text \<open>The moves made, waiting or still under way to the shade.\<close>

definition due :: "'d radio \<Rightarrow> nat" where
  "due r = (case r of (l, k, d) \<Rightarrow> moves d + waiting d + length (chunks_under_way k l))"

definition radio_ok :: "'d radio \<Rightarrow> bool" where
  "radio_ok r \<longleftrightarrow> (case r of (l, k, d) \<Rightarrow> k \<le> length (writes l) \<and> list_all honest_write (writes l))"

text \<open>No event but a chunk the client writes adds to them.\<close>

lemma write_arrives:
  assumes "radio_ok (l, k, d)" and "k < length (writes l)"
  shows "due (l, Suc k, receive (written_bytes (writes l ! k)) d) \<le> due (l, k, d)"
proof (cases "writes l ! k")
  case (Chunk_write c)
  have "moves (receive c d) + waiting (receive c d) \<le> Suc (moves d + waiting d)"
    using once by (simp add: moves_once_per_chunk_def)
  then show ?thesis using Chunk_write chunks_under_way_next [OF assms(2)] by (simp add: due_def)
next
  case (Ack_write a)
  have "honest_write (writes l ! k)" using assms by (simp add: radio_ok_def list_all_length)
  then obtain s where "make_ble_ack s = Inr a" using Ack_write by (auto simp: honest_write_def)
  then have "moves (receive a d) + waiting (receive a d) \<le> moves d + waiting d"
    using once by (auto simp: moves_once_per_chunk_def)
  then show ?thesis using Ack_write chunks_under_way_next [OF assms(2)] by (simp add: due_def)
qed

lemma radio_step_due:
  assumes ok: "radio_ok (l, k, d)" and step: "radio_step receive turn e (l, k, d) = Some (l1, k1, d1)"
  shows "radio_ok (l1, k1, d1)" "(\<exists>ev. link_step ev l = Some l1) \<or> l1 = l"
    "due (l1, k1, d1) + length (chunk_writes l) \<le> due (l, k, d) + length (chunk_writes l1)"
proof -
  have k: "k \<le> length (writes l)" "list_all honest_write (writes l)" using ok by (simp_all add: radio_ok_def)
  have "radio_ok (l1, k1, d1) \<and> ((\<exists>ev. link_step ev l = Some l1) \<or> l1 = l) \<and>
    due (l1, k1, d1) + length (chunk_writes l) \<le> due (l, k, d) + length (chunk_writes l1)"
  proof (cases e)
    case (Client_event ev)
    then have l1: "link_step ev l = Some l1" "k1 = k" "d1 = d" using step by auto
    note on = writes_on_step [OF l1(1)]
    obtain ws where "chunks_under_way k l1 = chunks_under_way k l @ ws" "chunk_writes l1 = chunk_writes l @ ws"
      using chunks_under_way_grow [OF on k(1)] by blast
    moreover have "k \<le> length (writes l1)" using on k(1) by (auto simp: writes_on_def)
    ultimately show ?thesis using l1 writes_on_honest [OF on k(2)] by (auto simp: due_def radio_ok_def)
  next
    case Write_reaches
    then show ?thesis using step write_arrives [OF ok] k by (auto simp: radio_ok_def split: if_split_asm)
  next
    case Write_lost
    then show ?thesis using step k chunks_under_way_next [of k l]
      by (auto simp: radio_ok_def due_def split: if_split_asm)
  next
    case (Shade_event t)
    then show ?thesis using step k once
      by (fastforce simp: radio_ok_def due_def moves_once_per_chunk_def)
  qed
  then show "radio_ok (l1, k1, d1)" "(\<exists>ev. link_step ev l = Some l1) \<or> l1 = l"
    "due (l1, k1, d1) + length (chunk_writes l) \<le> due (l, k, d) + length (chunk_writes l1)" by blast+
qed

lemma radio_run_due:
  assumes "radio_ok (l, k, d)" and "radio_run receive turn es (l, k, d) = Some (l1, k1, d1)"
  shows "(\<exists>evs. link_run l evs l1) \<and>
    due (l1, k1, d1) + length (chunk_writes l) \<le> due (l, k, d) + length (chunk_writes l1)"
  using assms
proof (induction es arbitrary: l k d)
  case Nil
  then show ?case using link_run_refl by auto
next
  case (Cons e es)
  then obtain l2 k2 d2 where e: "radio_step receive turn e (l, k, d) = Some (l2, k2, d2)"
    and es: "radio_run receive turn es (l2, k2, d2) = Some (l1, k1, d1)"
    by (auto simp: bind_eq_Some_conv)
  note step = radio_step_due [OF Cons.prems(1) e]
  from Cons.IH [OF step(1) es] step(2,3) show ?case using link_run_Cons by fastforce
qed

text \<open>A one-chunk frame sent without retries adds one.\<close>

lemma one_chunk_due:
  assumes "session_run l0" "sender l0 = Sender_idle" and "f \<noteq> []" "length f \<le> MAX_BLE_PAYLOAD"
    and "k0 \<le> length (writes l0)"
    and "radio_run receive turn es (send_frame f False l0, k0, d) = Some (l, k, d')"
  shows "due (l, k, d') \<le> Suc (due (l0, k0, d))"
proof -
  let ?l = "send_frame f False l0"
  have on: "writes_on l0 ?l" by (rule writes_on_send)
  then have ok: "radio_ok (?l, k0, d)"
    using assms(5) writes_on_honest [OF on session_run_honest [OF assms(1)]]
    by (auto simp: radio_ok_def writes_on_def)
  obtain ws where ws: "chunks_under_way k0 ?l = chunks_under_way k0 l0 @ ws" "chunk_writes ?l = chunk_writes l0 @ ws"
    using chunks_under_way_grow [OF on assms(5)] by blast
  from radio_run_due [OF ok assms(6)] obtain evs where run: "link_run ?l evs l"
    and due: "due (l, k, d') + length (chunk_writes ?l) \<le> due (?l, k0, d) + length (chunk_writes l)" by blast
  obtain sent where sent: "chunk_writes l = chunk_writes l0 @ sent" "prefix sent (chunks_of f (tx_sequence l0))"
    using unretried_call [OF session_run_inv [OF assms(1)] assms(2) run] by blast
  have "length sent \<le> 1" using prefix_length_le [OF sent(2)] assms(3,4) by (simp add: chunks_of_cons)
  then show ?thesis using due ws sent(1) by (simp add: due_def)
qed

end

subsection \<open>The fake shade\<close>

definition device_receives :: "bytes \<Rightarrow> device \<Rightarrow> device" where
  "device_receives data d = snd (snd (device_write data d))"

text \<open>A turn of a task of the device, or the expiry of the timer it waits with.\<close>

definition device_turn :: "cipher \<Rightarrow> nat + nat \<Rightarrow> device \<Rightarrow> device option" where
  "device_turn ctr t d =
     (case t of Inl n \<Rightarrow> map_option snd (device_task ctr n d) | Inr n \<Rightarrow> device_timeout n d)"

definition device_moves :: "device \<Rightarrow> nat" where
  "device_moves d = fs_set_position_calls (dv_shade d)"

text \<open>The tasks that have not run yet and whose request decrypts to a position command.\<close>

definition is_move :: "cipher \<Rightarrow> fake_shade \<Rightarrow> bytes \<Rightarrow> bool" where
  "is_move ctr sh f \<longleftrightarrow>
     from_bytes_big (take 2 f) AND CRYPTO_LAYER_FLAG = 0 \<and>
     (case decrypt_app_request ctr f (fs_key sh) (fs_nonce sh) of
        Inl _ \<Rightarrow> False | Inr (_, _, command, _) \<Rightarrow> command = Shade_SET_POSITION)"

definition to_move :: "cipher \<Rightarrow> fake_shade \<Rightarrow> request_task \<Rightarrow> bool" where
  "to_move ctr sh t = (case t of Task_new f \<Rightarrow> is_move ctr sh f | Task_sending _ _ _ \<Rightarrow> False)"

definition device_waiting :: "cipher \<Rightarrow> device \<Rightarrow> nat" where
  "device_waiting ctr d = length (filter (to_move ctr (dv_shade d)) (dv_tasks d))"

lemma handle_request_moves:
  "fs_set_position_calls (snd (handle_request ctr sh f)) = fs_set_position_calls sh + (if is_move ctr sh f then 1 else 0)"
  "to_move ctr (snd (handle_request ctr sh f)) = to_move ctr sh"
  by (auto simp: handle_request_def handle_app_def is_move_def to_move_def Let_def fun_eq_iff
      split: sum.split request_task.split)

lemma ack_changes_nothing:
  assumes "make_ble_ack s = Inr a"
  shows "dv_shade (device_receives a d) = dv_shade d \<and> dv_tasks (device_receives a d) = dv_tasks d"
proof -
  have "valid_sequence s" using assms by (simp add: make_ble_ack_def valid_sequence_def split: if_split_asm)
  then obtain x where "parse_ble_chunk a = Inr x" "ch_for_bluetooth_layer x" "parse_ble_ack a = Inr s"
    using assms by (metis ack_of_sequence sum.inject(2))
  then show ?thesis by (auto simp: device_receives_def device_write_def split: option.split)
qed

lemma chunk_adds_a_task:
  "dv_shade (device_receives c d) = dv_shade d \<and> (\<exists>ts. dv_tasks (device_receives c d) = dv_tasks d @ ts \<and> length ts \<le> 1)"
  by (auto simp: device_receives_def device_write_def split: sum.split option.split prod.split)

lemma send_chunks_task:
  "send_chunks cs d = (sent, t, d1) \<Longrightarrow> dv_shade d1 = dv_shade d \<and> (case t of None \<Rightarrow> True | Some t \<Rightarrow> \<not> to_move ctr sh t)"
  by (cases cs) (auto simp: Let_def to_move_def split: sum.splits)

lemma task_turn_moves:
  assumes "task_turn ctr t d = Some (sent, t1, d1)"
  shows "fs_set_position_calls (dv_shade d1) = fs_set_position_calls (dv_shade d) + (if to_move ctr (dv_shade d) t then 1 else 0)"
    and "to_move ctr (dv_shade d1) = to_move ctr (dv_shade d)"
    and "t1 = Some t2 \<Longrightarrow> \<not> to_move ctr (dv_shade d) t2"
proof -
  have "fs_set_position_calls (dv_shade d1) = fs_set_position_calls (dv_shade d) + (if to_move ctr (dv_shade d) t then 1 else 0) \<and>
    to_move ctr (dv_shade d1) = to_move ctr (dv_shade d) \<and> (t1 = Some t2 \<longrightarrow> \<not> to_move ctr (dv_shade d) t2)"
  proof (cases t)
    case (Task_new f)
    obtain m sh where h: "handle_request ctr (dv_shade d) f = (m, sh)" by fastforce
    then have "dv_shade d1 = sh \<and> (t1 = Some t2 \<longrightarrow> \<not> to_move ctr (dv_shade d) t2)"
      using assms Task_new send_chunks_task [where ctr = ctr and sh = "dv_shade d"]
      by (fastforce simp: task_turn_def task_start_def Let_def split: sum.splits)
    then show ?thesis using handle_request_moves [of ctr "dv_shade d" f] h Task_new by (simp add: to_move_def)
  next
    case (Task_sending w u rest)
    then show ?thesis using assms send_chunks_task [where ctr = ctr and sh = "dv_shade d"]
      by (fastforce simp: task_turn_def task_resume_def to_move_def [of _ _ "Task_sending _ _ _"] split: if_split_asm sum.splits)
  qed
  then show "fs_set_position_calls (dv_shade d1) = fs_set_position_calls (dv_shade d) + (if to_move ctr (dv_shade d) t then 1 else 0)"
    "to_move ctr (dv_shade d1) = to_move ctr (dv_shade d)"
    "t1 = Some t2 \<Longrightarrow> \<not> to_move ctr (dv_shade d) t2" by blast+
qed

lemma filter_at:
  "k < length ts \<Longrightarrow>
     length (filter P (take k ts)) + length (filter P (drop (Suc k) ts)) + (if P (ts ! k) then 1 else 0) = length (filter P ts)"
proof -
  assume "k < length ts"
  then have "filter P ts = filter P (take k ts) @ filter P [ts ! k] @ filter P (drop (Suc k) ts)"
    by (metis append_Cons append_Nil filter_append id_take_nth_drop)
  then show ?thesis by simp
qed

lemma device_turn_moves:
  assumes "device_turn ctr t d = Some d1"
  shows "device_moves d1 + device_waiting ctr d1 \<le> device_moves d + device_waiting ctr d"
proof (cases t)
  case (Inl n)
  then obtain sent t1 d2 where n: "n < length (dv_tasks d)" and turn: "task_turn ctr (dv_tasks d ! n) d = Some (sent, t1, d2)"
    and d1: "d1 = d2\<lparr>dv_tasks := take n (dv_tasks d) @ (case t1 of None \<Rightarrow> [] | Some t \<Rightarrow> [t]) @ drop (Suc n) (dv_tasks d)\<rparr>"
    using assms by (auto simp: device_turn_def device_task_def split: if_split_asm)
  show ?thesis
    using task_turn_moves [OF turn] filter_at [OF n, of "to_move ctr (dv_shade d)"]
    by (cases t1) (auto simp: device_moves_def device_waiting_def d1 split: if_split_asm)
next
  case (Inr n)
  then obtain w u rest where n: "n < length (dv_tasks d)" "dv_tasks d ! n = Task_sending w u rest"
    and d1: "dv_shade d1 = dv_shade d" "dv_tasks d1 = take n (dv_tasks d) @ drop (Suc n) (dv_tasks d)"
    using assms by (auto simp: device_turn_def device_timeout_def split: if_split_asm request_task.splits)
  then show ?thesis using filter_at [OF n(1), of "to_move ctr (dv_shade d)"]
    by (simp add: device_moves_def device_waiting_def)
qed

interpretation fake: moving_shade device_receives "device_turn ctr" device_moves "device_waiting ctr"
  for ctr
proof
  have "device_moves (device_receives c d) + device_waiting ctr (device_receives c d) \<le> Suc (device_moves d + device_waiting ctr d)" for c d
  proof -
    obtain ts where "dv_shade (device_receives c d) = dv_shade d" "dv_tasks (device_receives c d) = dv_tasks d @ ts" "length ts \<le> 1"
      using chunk_adds_a_task by blast
    moreover have "length (filter P ts) \<le> 1" for P using length_filter_le [of P ts] \<open>length ts \<le> 1\<close> by linarith
    ultimately show ?thesis by (simp add: device_moves_def device_waiting_def)
  qed
  moreover have "device_moves (device_receives a d) + device_waiting ctr (device_receives a d) \<le> device_moves d + device_waiting ctr d"
    if "make_ble_ack s = Inr a" for s a d
    using ack_changes_nothing [OF that] by (simp add: device_moves_def device_waiting_def)
  ultimately show "moves_once_per_chunk device_receives (device_turn ctr) device_moves (device_waiting ctr)"
    using device_turn_moves by (auto simp: moves_once_per_chunk_def)
qed

subsection \<open>Property\<close>

text \<open>C3: A position request is carried out at most once, whatever the radio loses, delays or tells the
  client: at any point of any session, while one call of \<open>_send_frame\<close> sends a position request, writes
  may be lost, delayed and fail, the client may be notified of any bytes, every timer may fire and
  every task be cancelled. The position commands that the shade has carried out, will still start
  from what it has received, or that are under way to it, grow by at most one. This holds of every
  shade that starts at most one command per chunk it receives, in whatever state it is; such a shade
  need not recognise a repeated chunk.\<close>

theorem position_carried_out_at_most_once:
  assumes "ctr_cipher ctr" and "encode_position_request ctr position key nonce c mid speed = Inr f"
    and "session_run l0" and "sender l0 = Sender_idle"
    and "moves_once_per_chunk receive turn moves waiting" and "k0 \<le> length (writes l0)"
    and "radio_run receive turn es (send_frame f False l0, k0, d) = Some (l, k, d')"
  shows "moves d' + waiting d' + length (chunks_under_way k l) \<le>
    Suc (moves d + waiting d + length (chunks_under_way k0 l0))"
proof -
  have "length f = 9" using assms(2) any_position_request_length [OF assms(1)] unfolding any_position_request_def by blast
  then have "f \<noteq> []" "length f \<le> MAX_BLE_PAYLOAD" by (auto simp: MAX_BLE_PAYLOAD_def)
  moreover have shade: "moving_shade receive turn moves waiting" using assms(5) by (rule moving_shade.intro)
  ultimately have "moving_shade.due moves waiting (l, k, d') \<le> Suc (moving_shade.due moves waiting (l0, k0, d))"
    using assms(3,4,6,7) by (intro moving_shade.one_chunk_due)
  then show ?thesis by (simp add: moving_shade.due_def [OF shade])
qed

theorem position_carried_out_at_most_once_witness:
  "\<exists>f l k d. encode_position_request xor_cipher (PyInt 60) (replicate 32 7) (replicate 12 9) 1 1 (PyInt 100) = Inr f \<and>
     radio_run device_receives (device_turn xor_cipher) [Write_reaches, Client_event (Notify [])]
       (send_frame f False link_new, 0, snd example_world) = Some (l, k, d) \<and> k = 1 \<and>
     device_moves d + device_waiting xor_cipher d \<le> 1"
proof -
  obtain f where f: "encode_position_request xor_cipher (PyInt 60) (replicate 32 7) (replicate 12 9) 1 1 (PyInt 100) = Inr f"
    by (auto simp: encode_position_request_Inr encode_application_request_Inr RUNTIME_COMMANDS_iff MAX_COUNTER_def)
  then have "length f = 9" using any_position_request_length [OF ctr_cipher_xor_cipher] unfolding any_position_request_def by blast
  then have ne: "f \<noteq> []" by auto
  have "0 < length (writes (send_frame f False link_new))"
    using ne by (simp add: send_frame_def link_new_def chunk_for_ble_eq [THEN iffD2] valid_sequence_def MAX_SEQUENCE_def
        chunks_of_cons begin_attempt_def Let_def)
  then obtain l k d where run: "radio_run device_receives (device_turn xor_cipher) [Write_reaches, Client_event (Notify [])]
      (send_frame f False link_new, 0, snd example_world) = Some (l, k, d)" and "k = 1"
    by auto
  moreover have "device_moves (snd example_world) = 0" "device_waiting xor_cipher (snd example_world) = 0"
    "chunks_under_way 0 link_new = []"
    by (simp_all add: device_moves_def device_waiting_def example_world_def example_shade_def chunks_under_way_def link_new_def)
  moreover note position_carried_out_at_most_once [OF ctr_cipher_xor_cipher f session_new _ fake.once _ run]
  ultimately show ?thesis using f by (auto simp: link_new_def)
qed

end
