(* ===== verification/Py_Text.thy ===== *)
theory Py_Text
  imports Prelude "HOL-Library.List_Lexorder" "HOL-Library.Char_ord"
begin

text \<open>
  The pieces of Python's \<open>str\<close> and \<open>bytes\<close> methods the sources use: \<open>strip\<close>, \<open>upper\<close>,
  \<open>lower\<close>, \<open>hex\<close>, \<open>int(s, 16)\<close>, padding in format strings and \<open>repr\<close> of a string.

  A string is a list of 8-bit characters, the Latin-1 range of Unicode. \<open>upper\<close> and \<open>lower\<close> are
  those of Python on it, except for the two characters whose upper case lies outside it (the
  micro sign and y with diaeresis), which are kept.
\<close>

subsection \<open>White space and case\<close>

definition is_space :: "char \<Rightarrow> bool" where
  "is_space c \<longleftrightarrow>
     of_char c \<in> {9, 10, 11, 12, 13, 28, 29, 30, 31, 32, 133, 160 :: nat}"

definition strip :: "string \<Rightarrow> string" where
  "strip s = rev (dropWhile is_space (rev (dropWhile is_space s)))"

definition upper_char :: "char \<Rightarrow> string" where
  "upper_char c =
     (let n = of_char c :: nat
      in if n = 223 then ''SS''
         else if (97 \<le> n \<and> n \<le> 122) \<or> (224 \<le> n \<and> n \<le> 254 \<and> n \<noteq> 247) then [char_of (n - 32)]
         else [c])"

definition lower_char :: "char \<Rightarrow> char" where
  "lower_char c =
     (let n = of_char c :: nat
      in if (65 \<le> n \<and> n \<le> 90) \<or> (192 \<le> n \<and> n \<le> 222 \<and> n \<noteq> 215) then char_of (n + 32) else c)"

definition upper :: "string \<Rightarrow> string" where
  "upper s = concat (map upper_char s)"

definition lower :: "string \<Rightarrow> string" where
  "lower s = map lower_char s"

lemma lower_char_idem [simp]: "lower_char (lower_char c) = lower_char c"
proof -
  let ?n = "of_char c :: nat"
  show ?thesis
  proof (cases "(65 \<le> ?n \<and> ?n \<le> 90) \<or> (192 \<le> ?n \<and> ?n \<le> 222 \<and> ?n \<noteq> 215)")
    case True
    then have "lower_char c = char_of (?n + 32)" "of_char (char_of (?n + 32) :: char) = ?n + 32"
      by (auto simp: lower_char_def)
    moreover from True have "\<not> ((65 \<le> ?n + 32 \<and> ?n + 32 \<le> 90) \<or> (192 \<le> ?n + 32 \<and> ?n + 32 \<le> 222))"
      by arith
    ultimately show ?thesis by (auto simp: lower_char_def [of "char_of (?n + 32)"] Let_def)
  next
    case False
    then have "lower_char c = c" by (simp only: lower_char_def Let_def if_False)
    then show ?thesis by simp
  qed
qed

lemma upper_char_idem: "concat (map upper_char (upper_char c)) = upper_char c"
proof -
  let ?n = "of_char c :: nat"
  consider "?n = 223" | "97 \<le> ?n \<and> ?n \<le> 122" | "224 \<le> ?n \<and> ?n \<le> 254 \<and> ?n \<noteq> 247"
    | "?n \<noteq> 223" "\<not> (97 \<le> ?n \<and> ?n \<le> 122)" "\<not> (224 \<le> ?n \<and> ?n \<le> 254 \<and> ?n \<noteq> 247)" by blast
  then show ?thesis
  proof cases
    case 1
    then show ?thesis by (simp add: upper_char_def)
  next
    case 2
    then have "?n - 32 < 256" by arith
    with 2 have "upper_char c = [char_of (?n - 32)]" "of_char (char_of (?n - 32) :: char) = ?n - 32"
      by (simp_all add: upper_char_def Let_def)
    moreover from 2 have "\<not> 97 \<le> ?n - 32" "\<not> 223 \<le> ?n - 32" by arith+
    ultimately show ?thesis by (simp add: upper_char_def [of "char_of (?n - 32)"] Let_def)
  next
    case 3
    then have "?n - 32 < 256" by arith
    with 3 have "upper_char c = [char_of (?n - 32)]" "of_char (char_of (?n - 32) :: char) = ?n - 32"
      by (simp_all add: upper_char_def Let_def)
    moreover from 3 have "?n - 32 \<noteq> 223" "\<not> 224 \<le> ?n - 32" "\<not> ?n - 32 \<le> 122" by arith+
    ultimately show ?thesis by (simp add: upper_char_def [of "char_of (?n - 32)"] Let_def)
  next
    case 4
    then have "upper_char c = [c]" by (auto simp: upper_char_def Let_def)
    then show ?thesis by simp
  qed
qed

lemma lower_idem [simp]: "lower (lower s) = lower s"
  by (simp add: lower_def)

lemma upper_idem [simp]: "upper (upper s) = upper s"
  by (induction s) (simp_all add: upper_def upper_char_idem)

lemma upper_char_nonempty [simp]: "upper_char c \<noteq> []"
  by (simp add: upper_char_def Let_def)

lemma upper_eq_Nil [simp]: "upper s = [] \<longleftrightarrow> s = []"
  by (cases s) (simp_all add: upper_def)

lemma lower_eq_Nil [simp]: "lower s = [] \<longleftrightarrow> s = []"
  by (simp add: lower_def)

subsection \<open>Hexadecimal\<close>

definition hex_digit :: "char \<Rightarrow> int option" where
  "hex_digit c =
     (let n = of_char c :: nat
      in if 48 \<le> n \<and> n \<le> 57 then Some (int n - 48)
         else if 97 \<le> n \<and> n \<le> 102 then Some (int n - 87)
         else if 65 \<le> n \<and> n \<le> 70 then Some (int n - 55)
         else None)"

fun hex_value :: "int \<Rightarrow> string \<Rightarrow> int option" where
  "hex_value acc [] = Some acc"
| "hex_value acc (c # cs) =
     (case hex_digit c of None \<Rightarrow> None | Some d \<Rightarrow> hex_value (16 * acc + d) cs)"

definition hex_char :: "int \<Rightarrow> char" where
  "hex_char n = char_of (nat (if n < 10 then 48 + n else 87 + n))"

text \<open>\<open>bytes.hex()\<close>, and \<open>f"{b:02X}"\<close> of one byte.\<close>

definition hex_byte :: "byte \<Rightarrow> string" where
  "hex_byte b = [hex_char (uint b div 16), hex_char (uint b mod 16)]"

definition hex_text :: "bytes \<Rightarrow> string" where
  "hex_text bs = concat (map hex_byte bs)"

definition hex_byte_upper :: "byte \<Rightarrow> string" where
  "hex_byte_upper b = upper (hex_byte b)"

text \<open>\<open>bytes.fromhex\<close> of a string of hexadecimal digits only.\<close>

fun fromhex :: "string \<Rightarrow> bytes option" where
  "fromhex [] = Some []"
| "fromhex [c] = None"
| "fromhex (c # d # cs) =
     (case hex_value 0 [c, d] of None \<Rightarrow> None
      | Some v \<Rightarrow> map_option (Cons (word_of_int v)) (fromhex cs))"

lemma nibble_all: "list_all P [0..15] \<Longrightarrow> 0 \<le> (n :: int) \<Longrightarrow> n < 16 \<Longrightarrow> P n"
  by (simp add: list_all_iff)

lemma hex_digit_char: "0 \<le> n \<Longrightarrow> n < 16 \<Longrightarrow> hex_digit (hex_char n) = Some n"
  by (rule nibble_all [where P = "\<lambda>n. hex_digit (hex_char n) = Some n"])
    (simp_all add: hex_char_def hex_digit_def Let_def upto_rec1)

lemma hex_char_not_space: "0 \<le> n \<Longrightarrow> n < 16 \<Longrightarrow> \<not> is_space (hex_char n)"
  by (rule nibble_all [where P = "\<lambda>n. \<not> is_space (hex_char n)"])
    (simp_all add: hex_char_def is_space_def upto_rec1)

lemma hex_char_not_sign: "0 \<le> n \<Longrightarrow> n < 16 \<Longrightarrow> hex_char n \<noteq> CHR ''-'' \<and> hex_char n \<noteq> CHR ''+''"
proof -
  assume "0 \<le> n" "n < 16"
  then have "48 \<le> (of_char (hex_char n) :: nat)"
    by (intro nibble_all [where P = "\<lambda>n. 48 \<le> (of_char (hex_char n) :: nat)"])
      (simp_all add: hex_char_def upto_rec1)
  then show ?thesis by auto
qed

lemma hex_byte_digits: "0 \<le> uint (b :: byte) div 16" "uint (b :: byte) div 16 < 16"
    "0 \<le> uint (b :: byte) mod 16" "uint (b :: byte) mod 16 < 16"
  using uint_byte_bounds [of b] by (simp_all add: pos_imp_zdiv_nonneg_iff)

lemma hex_value_byte: "hex_value 0 (hex_byte b) = Some (uint b)"
  by (simp add: hex_byte_def hex_digit_char hex_byte_digits)

lemma fromhex_hex_text [simp]: "fromhex (hex_text bs) = Some bs"
proof (induction bs)
  case Nil
  then show ?case by (simp add: hex_text_def)
next
  case (Cons b bs)
  have "hex_text (b # bs) = hex_char (uint b div 16) # hex_char (uint b mod 16) # hex_text bs"
    by (simp add: hex_text_def hex_byte_def)
  with Cons hex_value_byte [of b] show ?case by (simp add: hex_byte_def del: hex_value.simps)
qed

lemma length_hex_text [simp]: "length (hex_text bs) = 2 * length bs"
  by (induction bs) (simp_all add: hex_text_def hex_byte_def)

subsection \<open>Format strings\<close>

definition ljust :: "nat \<Rightarrow> string \<Rightarrow> string" where
  "ljust n s = s @ replicate (n - length s) CHR '' ''"

fun hex_digits_of_nat :: "nat \<Rightarrow> string" where
  "hex_digits_of_nat n =
     (if n < 16 then [hex_char (int n)] else hex_digits_of_nat (n div 16) @ [hex_char (int (n mod 16))])"

declare hex_digits_of_nat.simps [simp del]

text \<open>\<open>f"{n:0wx}"\<close> of a natural number.\<close>

definition hex_padded :: "nat \<Rightarrow> nat \<Rightarrow> string" where
  "hex_padded w n = (let s = hex_digits_of_nat n in replicate (w - length s) CHR ''0'' @ s)"

fun join :: "string \<Rightarrow> string list \<Rightarrow> string" where
  "join sep [] = []"
| "join sep [s] = s"
| "join sep (s # t # ss) = s @ sep @ join sep (t # ss)"

text \<open>\<open>str\<close> and \<open>repr\<close> of a string, within Latin-1.\<close>

definition repr_char :: "char \<Rightarrow> char \<Rightarrow> string" where
  "repr_char quote c =
     (let n = of_char c :: nat
      in if c = quote \<or> n = 92 then [char_of (92 :: nat), c]
         else if n = 9 then [char_of (92 :: nat), CHR ''t'']
         else if n = 10 then [char_of (92 :: nat), CHR ''n'']
         else if n = 13 then [char_of (92 :: nat), CHR ''r'']
         else if n < 32 \<or> (127 \<le> n \<and> n \<le> 160) \<or> n = 173
         then [char_of (92 :: nat), CHR ''x''] @ hex_padded 2 n
         else [c])"

definition repr_string :: "string \<Rightarrow> string" where
  "repr_string s =
     (let single = char_of (39 :: nat); double = char_of (34 :: nat);
          quote = (if single \<in> set s \<and> double \<notin> set s then double else single)
      in [quote] @ concat (map (repr_char quote) s) @ [quote])"

end
