(* ===== verification/Json.thy ===== *)
theory Json
  imports Py_Text
begin

text \<open>
  Python values as \<open>json.loads\<close> returns them, and the operations the sources apply to them
  without knowing their type: truth tests, \<open>x or y\<close>, \<open>.get\<close>, subscripts, iteration, \<open>len\<close>,
  \<open>str\<close> and \<open>repr\<close>. An operation on a value of the wrong type raises the exception Python
  raises.

  An object is its list of entries in insertion order, each key once (\<open>json_ok\<close>). A float is
  represented by its \<open>repr\<close>, which determines it.
\<close>

subsection \<open>Values and exceptions\<close>

datatype json =
    J_null
  | J_bool bool
  | J_int int
  | J_float string
  | J_str string
  | J_list "json list"
  | J_obj "(string \<times> json) list"

text \<open>The exceptions of these operations and of the modules that use them.\<close>

datatype py_error =
    Attribute_error
  | Type_error
  | Key_error string
  | Value_error string
  | Runtime_error string
  | System_exit string
  | Tilt_cloud_error string
  | Import_error string
  | Other_exception string

type_synonym 'a attempted = "py_error + 'a"

fun mapM :: "('a \<Rightarrow> 'e + 'b) \<Rightarrow> 'a list \<Rightarrow> 'e + 'b list" where
  "mapM f [] = Inr []"
| "mapM f (x # xs) = rbind (f x) (\<lambda>y. rbind (mapM f xs) (\<lambda>ys. Inr (y # ys)))"

lemma mapM_Inr_iff [result_simps]: "mapM f xs = Inr ys \<longleftrightarrow> list_all2 (\<lambda>x y. f x = Inr y) xs ys"
proof (induction xs arbitrary: ys)
  case Nil
  then show ?case by auto
next
  case (Cons x xs)
  then show ?case by (auto simp: rbind_eq_Inr list_all2_Cons1)
qed

lemma mapM_pure: "(\<And>x. x \<in> set xs \<Longrightarrow> f x = Inr (g x)) \<Longrightarrow> mapM f xs = Inr (map g xs)"
  by (induction xs) simp_all

lemma mapM_map: "mapM f (map g xs) = mapM (\<lambda>x. f (g x)) xs"
  by (induction xs) simp_all

lemma concat_if_singleton: "concat (map (\<lambda>x. if P x then [f x] else []) xs) = map f (filter P xs)"
  by (induction xs) simp_all

text \<open>Every object has each of its keys once.\<close>

fun json_ok :: "json \<Rightarrow> bool" where
  "json_ok (J_list xs) \<longleftrightarrow> (\<forall>x \<in> set xs. json_ok x)"
| "json_ok (J_obj kvs) \<longleftrightarrow> distinct (map fst kvs) \<and> (\<forall>kv \<in> set kvs. json_ok (snd kv))"
| "json_ok _ \<longleftrightarrow> True"

subsection \<open>Operations on any value\<close>

definition truthy :: "json \<Rightarrow> bool" where
  "truthy j =
     (case j of
        J_null \<Rightarrow> False
      | J_bool b \<Rightarrow> b
      | J_int i \<Rightarrow> i \<noteq> 0
      | J_float r \<Rightarrow> r \<noteq> ''0.0'' \<and> r \<noteq> ''-0.0''
      | J_str s \<Rightarrow> s \<noteq> []
      | J_list xs \<Rightarrow> xs \<noteq> []
      | J_obj kvs \<Rightarrow> kvs \<noteq> [])"

definition py_or :: "json \<Rightarrow> json \<Rightarrow> json" where
  "py_or a b = (if truthy a then a else b)"

definition py_get :: "string \<Rightarrow> json \<Rightarrow> json attempted" where
  "py_get k j =
     (case j of
        J_obj kvs \<Rightarrow> Inr (case map_of kvs k of None \<Rightarrow> J_null | Some v \<Rightarrow> v)
      | _ \<Rightarrow> Inl Attribute_error)"

text \<open>\<open>j[k]\<close> for a string \<open>k\<close>.\<close>

definition py_item :: "string \<Rightarrow> json \<Rightarrow> json attempted" where
  "py_item k j =
     (case j of
        J_obj kvs \<Rightarrow> (case map_of kvs k of None \<Rightarrow> Inl (Key_error k) | Some v \<Rightarrow> Inr v)
      | _ \<Rightarrow> Inl Type_error)"

definition py_iter :: "json \<Rightarrow> json list attempted" where
  "py_iter j =
     (case j of
        J_list xs \<Rightarrow> Inr xs
      | J_str s \<Rightarrow> Inr (map (\<lambda>c. J_str [c]) s)
      | J_obj kvs \<Rightarrow> Inr (map (\<lambda>kv. J_str (fst kv)) kvs)
      | _ \<Rightarrow> Inl Type_error)"

definition py_len :: "json \<Rightarrow> nat attempted" where
  "py_len j =
     (case j of
        J_list xs \<Rightarrow> Inr (length xs)
      | J_str s \<Rightarrow> Inr (length s)
      | J_obj kvs \<Rightarrow> Inr (length kvs)
      | _ \<Rightarrow> Inl Type_error)"

definition py_repr_scalar :: "json \<Rightarrow> string" where
  "py_repr_scalar j =
     (case j of
        J_null \<Rightarrow> ''None''
      | J_bool b \<Rightarrow> (if b then ''True'' else ''False'')
      | J_int i \<Rightarrow> str_of_int i
      | J_float r \<Rightarrow> r
      | J_str s \<Rightarrow> repr_string s
      | _ \<Rightarrow> [])"

fun py_repr :: "json \<Rightarrow> string" where
  "py_repr (J_list xs) = ''['' @ join '', '' (map py_repr xs) @ '']''"
| "py_repr (J_obj kvs) =
     ''{'' @ join '', '' (map (\<lambda>kv. repr_string (fst kv) @ '': '' @ py_repr (snd kv)) kvs) @ ''}''"
| "py_repr j = py_repr_scalar j"

definition py_str :: "json \<Rightarrow> string" where
  "py_str j = (case j of J_str s \<Rightarrow> s | _ \<Rightarrow> py_repr j)"

lemma py_str_simps [simp]:
  "py_str (J_str s) = s" "py_str (J_int i) = str_of_int i" "py_str J_null = ''None''"
  by (simp_all add: py_str_def py_repr_scalar_def)

lemma py_get_obj [simp]: "py_get k (J_obj kvs) = Inr (case map_of kvs k of None \<Rightarrow> J_null | Some v \<Rightarrow> v)"
  by (simp add: py_get_def)

lemma py_item_obj [simp]:
  "py_item k (J_obj kvs) = (case map_of kvs k of None \<Rightarrow> Inl (Key_error k) | Some v \<Rightarrow> Inr v)"
  by (simp add: py_item_def)

lemma py_iter_simps [simp]:
  "py_iter (J_list xs) = Inr xs"
  "py_iter (J_obj kvs) = Inr (map (\<lambda>kv. J_str (fst kv)) kvs)"
  by (simp_all add: py_iter_def)

lemma truthy_simps [simp]:
  "\<not> truthy J_null" "truthy (J_bool b) \<longleftrightarrow> b" "truthy (J_int i) \<longleftrightarrow> i \<noteq> 0"
  "truthy (J_str s) \<longleftrightarrow> s \<noteq> []" "truthy (J_list xs) \<longleftrightarrow> xs \<noteq> []" "truthy (J_obj kvs) \<longleftrightarrow> kvs \<noteq> []"
  by (simp_all add: truthy_def)

lemma py_or_list: "py_or (J_list xs) (J_list []) = J_list xs"
  by (simp add: py_or_def)

lemma py_or_truthy: "truthy a \<Longrightarrow> py_or a b = a"
  by (simp add: py_or_def)

lemma truthy_py_str: "truthy j \<Longrightarrow> (case j of J_float r \<Rightarrow> r \<noteq> [] | _ \<Rightarrow> True) \<Longrightarrow> py_str j \<noteq> []"
  by (cases j) (auto simp: py_str_def py_repr_scalar_def str_of_int_def digits_of_nat.simps)

lemma py_get_Inr [result_simps]:
  "py_get k j = Inr v \<longleftrightarrow> (\<exists>kvs. j = J_obj kvs \<and> v = (case map_of kvs k of None \<Rightarrow> J_null | Some v \<Rightarrow> v))"
  by (cases j) (auto simp: py_get_def)

end
