(* ===== verification/Json_Text.thy ===== *)
theory Json_Text
  imports Json "HOL-Library.AList"
begin

text \<open>
  JSON text as Python's \<open>json\<close> writes and reads it: \<open>json.dump(value, file, indent=2)\<close>, with which the
  import tools save their exports, and \<open>json.loads\<close>, which reads them back. What is read is in the
  Latin-1 part of Unicode or \<open>Beyond\<close> it; \<open>float_of\<close> is the \<open>repr\<close> of the float of a literal. Python's
  limits on the depth of a document and the digits of an integer are left out.

  \<open>loads_enough\<close> says that the fuel of the reader is enough, \<open>json_reads_back\<close> that reading inverts
  writing for every value whose floats are printed so that they read back (\<open>writable\<close>).
\<close>

definition QUOTE :: char where "QUOTE = CHR 0x22"

definition BACKSLASH :: char where "BACKSLASH = CHR 0x5C"

definition LF :: char where "LF = CHR 0x0A"

subsection \<open>Writing\<close>

definition escape_char :: "char \<Rightarrow> string" where
  "escape_char c =
     (let n = of_char c :: nat
      in if n = 34 \<or> n = 92 then [BACKSLASH, c]
         else if n = 10 then [BACKSLASH, CHR ''n'']
         else if n = 13 then [BACKSLASH, CHR ''r'']
         else if n = 9 then [BACKSLASH, CHR ''t'']
         else if n = 8 then [BACKSLASH, CHR ''b'']
         else if n = 12 then [BACKSLASH, CHR ''f'']
         else if 32 \<le> n \<and> n \<le> 126 then [c]
         else [BACKSLASH, CHR ''u''] @ hex_padded 4 n)"

definition dumps_string :: "string \<Rightarrow> string" where
  "dumps_string s = [QUOTE] @ concat (map escape_char s) @ [QUOTE]"

definition dumps_float :: "string \<Rightarrow> string" where
  "dumps_float r =
     (if r = ''nan'' then ''NaN'' else if r = ''inf'' then ''Infinity''
      else if r = ''-inf'' then ''-Infinity'' else r)"

definition new_line :: "nat \<Rightarrow> string" where
  "new_line level = LF # replicate (2 * level) CHR '' ''"

fun dumps_at :: "nat \<Rightarrow> json \<Rightarrow> string" where
  "dumps_at level J_null = ''null''"
| "dumps_at level (J_bool b) = (if b then ''true'' else ''false'')"
| "dumps_at level (J_int i) = str_of_int i"
| "dumps_at level (J_float r) = dumps_float r"
| "dumps_at level (J_str s) = dumps_string s"
| "dumps_at level (J_list xs) =
     (if xs = [] then ''[]''
      else ''['' @ new_line (Suc level) @ join ('','' @ new_line (Suc level)) (map (dumps_at (Suc level)) xs) @
           new_line level @ '']'')"
| "dumps_at level (J_obj kvs) =
     (if kvs = [] then ''{}''
      else ''{'' @ new_line (Suc level) @
           join ('','' @ new_line (Suc level))
             (map (\<lambda>kv. dumps_string (fst kv) @ '': '' @ dumps_at (Suc level) (snd kv)) kvs) @
           new_line level @ ''}'')"

definition dumps :: "json \<Rightarrow> string" where
  "dumps j = dumps_at 0 j"

subsection \<open>Reading\<close>

text \<open>A value read and the rest of the text, or what is not JSON or has characters beyond Latin-1.\<close>

datatype 'a reading = Read 'a string | Malformed | Beyond

definition next_reading :: "'a reading \<Rightarrow> ('a \<Rightarrow> string \<Rightarrow> 'b reading) \<Rightarrow> 'b reading" where
  "next_reading x f = (case x of Read v r \<Rightarrow> f v r | Malformed \<Rightarrow> Malformed | Beyond \<Rightarrow> Beyond)"

lemma next_reading_simps [simp]:
  "next_reading (Read v r) f = f v r" "next_reading Malformed f = Malformed" "next_reading Beyond f = Beyond"
  by (simp_all add: next_reading_def)

lemma next_reading_if: "next_reading (if b then x else y) f = (if b then next_reading x f else next_reading y f)"
  by simp

definition is_blank :: "char \<Rightarrow> bool" where
  "is_blank c \<longleftrightarrow> c \<in> set [CHR '' '', CHR 0x09, CHR 0x0A, CHR 0x0D]"

definition skip :: "string \<Rightarrow> string" where
  "skip = dropWhile is_blank"

definition unescape :: "char \<Rightarrow> char option" where
  "unescape e = map_of [(QUOTE, QUOTE), (BACKSLASH, BACKSLASH), (CHR ''/'', CHR ''/''), (CHR ''b'', CHR 0x08),
     (CHR ''f'', CHR 0x0C), (CHR ''n'', CHR 0x0A), (CHR ''r'', CHR 0x0D), (CHR ''t'', CHR 0x09)] e"

fun read_chars :: "string \<Rightarrow> string reading" where
  "read_chars [] = Malformed"
| "read_chars (c # cs) =
     (if c = QUOTE then Read [] cs
      else if c = BACKSLASH then
        (case cs of
           [] \<Rightarrow> Malformed
         | e # es \<Rightarrow>
             (if e = CHR ''u'' then
                (case es of
                   x1 # x2 # x3 # x4 # rest \<Rightarrow>
                     (case hex_value 0 [x1, x2, x3, x4] of
                        None \<Rightarrow> Malformed
                      | Some n \<Rightarrow>
                          (if n < 256 then map_reading (Cons (char_of (nat n))) (read_chars rest) else Beyond))
                 | _ \<Rightarrow> Malformed)
              else (case unescape e of
                      None \<Rightarrow> Malformed
                    | Some u \<Rightarrow> map_reading (Cons u) (read_chars es))))
      else if (of_char c :: nat) < 32 then Malformed
      else map_reading (Cons c) (read_chars cs))"

definition is_digit :: "char \<Rightarrow> bool" where
  "is_digit c \<longleftrightarrow> 48 \<le> (of_char c :: nat) \<and> (of_char c :: nat) \<le> 57"

definition int_of_digits :: "string \<Rightarrow> int" where
  "int_of_digits = foldl (\<lambda>acc c. 10 * acc + (int (of_char c) - 48)) 0"

text \<open>The parts of a number: sign, whole part, fraction and exponent.\<close>

definition sign_of :: "string \<Rightarrow> string" where
  "sign_of s = (if take 1 s = ''-'' then ''-'' else [])"

definition whole_of :: "string \<Rightarrow> string" where
  "whole_of s = (if take 1 s = ''0'' then ''0'' else takeWhile is_digit s)"

definition fraction_of :: "string \<Rightarrow> string" where
  "fraction_of s =
     (let ds = takeWhile is_digit (drop 1 s) in if take 1 s = ''.'' \<and> ds \<noteq> [] then ''.'' @ ds else [])"

definition exponent_of :: "string \<Rightarrow> string" where
  "exponent_of s =
     (let sign = (if take 1 (drop 1 s) \<in> {''+'', ''-''} then take 1 (drop 1 s) else []);
          ds = takeWhile is_digit (drop (1 + length sign) s)
      in if take 1 s \<in> {''e'', ''E''} \<and> ds \<noteq> [] then take 1 s @ sign @ ds else [])"

definition read_number :: "(string \<Rightarrow> string) \<Rightarrow> string \<Rightarrow> json reading" where
  "read_number float_of s =
     (let sign = sign_of s; s1 = drop (length sign) s;
          whole = whole_of s1; s2 = drop (length whole) s1;
          fraction = fraction_of s2; s3 = drop (length fraction) s2;
          exponent = exponent_of s3; s4 = drop (length exponent) s3
      in if whole = [] then Malformed
         else if fraction = [] \<and> exponent = []
         then Read (J_int ((if sign = [] then 1 else -1) * int_of_digits whole)) s4
         else Read (J_float (float_of (sign @ whole @ fraction @ exponent))) s4)"

definition read_literal :: "(string \<times> json) list \<Rightarrow> string \<Rightarrow> json reading option" where
  "read_literal literals s =
     map_option (\<lambda>(word, v). Read v (drop (length word) s))
       (find (\<lambda>(word, v). take (length word) s = word) literals)"

definition LITERALS :: "(string \<times> json) list" where
  "LITERALS =
     [(''null'', J_null), (''true'', J_bool True), (''false'', J_bool False), (''NaN'', J_float ''nan''),
      (''Infinity'', J_float ''inf''), (''-Infinity'', J_float ''-inf'')]"

text \<open>
  The recursion is bounded by fuel: two units for every character left are enough
  (\<open>read_value_enough\<close>). A member that repeats a key replaces its value.
\<close>

fun read_value :: "(string \<Rightarrow> string) \<Rightarrow> nat \<Rightarrow> string \<Rightarrow> json reading"
  and read_items :: "(string \<Rightarrow> string) \<Rightarrow> nat \<Rightarrow> string \<Rightarrow> json list reading"
  and read_members :: "(string \<Rightarrow> string) \<Rightarrow> nat \<Rightarrow> (string \<times> json) list \<Rightarrow> string \<Rightarrow> (string \<times> json) list reading"
where
  "read_value float_of 0 s = Malformed"
| "read_value float_of (Suc n) s =
     (case s of
        [] \<Rightarrow> Malformed
      | c # cs \<Rightarrow>
          (if c = QUOTE then map_reading J_str (read_chars cs)
           else if c = CHR ''{'' then
             (if take 1 (skip cs) = ''}'' then Read (J_obj []) (drop 1 (skip cs))
              else map_reading J_obj (read_members float_of n [] (skip cs)))
           else if c = CHR ''['' then
             (if take 1 (skip cs) = '']'' then Read (J_list []) (drop 1 (skip cs))
              else map_reading J_list (read_items float_of n (skip cs)))
           else case read_literal LITERALS s of
               Some r \<Rightarrow> r
             | None \<Rightarrow> read_number float_of s))"
| "read_items float_of 0 s = Malformed"
| "read_items float_of (Suc n) s =
     next_reading (read_value float_of n s) (\<lambda>v r.
       let r1 = skip r
       in if take 1 r1 = '','' then map_reading (Cons v) (read_items float_of n (skip (drop 1 r1)))
          else if take 1 r1 = '']'' then Read [v] (drop 1 r1)
          else Malformed)"
| "read_members float_of 0 kvs s = Malformed"
| "read_members float_of (Suc n) kvs s =
     (if take 1 s = [QUOTE] then
        next_reading (read_chars (drop 1 s)) (\<lambda>k r.
          let r1 = skip r
          in if take 1 r1 = '':'' then
               next_reading (read_value float_of n (skip (drop 1 r1))) (\<lambda>v r2.
                 let kvs1 = AList.update k v kvs; r3 = skip r2
                 in if take 1 r3 = '','' then read_members float_of n kvs1 (skip (drop 1 r3))
                    else if take 1 r3 = ''}'' then Read kvs1 (drop 1 r3)
                    else Malformed)
             else Malformed)
      else Malformed)"

definition loads :: "(string \<Rightarrow> string) \<Rightarrow> string \<Rightarrow> json reading" where
  "loads float_of t =
     next_reading (read_value float_of (2 * length t + 1) (skip t)) (\<lambda>v r.
       if skip r = [] then Read v [] else Malformed)"

subsection \<open>Enough fuel\<close>

lemma length_skip: "length (skip s) \<le> length s"
  by (simp add: skip_def length_dropWhile_le)

lemma map_reading_Read [simp]: "map_reading f x = Read v r \<longleftrightarrow> (\<exists>u. x = Read u r \<and> v = f u)"
  by (cases x) auto

lemma next_reading_Read: "next_reading x f = Read v r \<longleftrightarrow> (\<exists>u q. x = Read u q \<and> f u q = Read v r)"
  by (cases x) auto

lemma take_1_eq: "take 1 s = [c] \<longleftrightarrow> (\<exists>cs. s = c # cs)"
  by (cases s) auto

lemma read_chars_shorter: "read_chars s = Read v r \<Longrightarrow> length r < length s"
proof (induction s arbitrary: v rule: read_chars.induct)
  case (2 c cs)
  then show ?case
    by (fastforce split: if_split_asm list.splits option.splits)
qed simp

lemma read_number_shorter: "read_number float_of s = Read v r \<Longrightarrow> length r < length s"
proof -
  assume read: "read_number float_of s = Read v r"
  let ?s1 = "drop (length (sign_of s)) s"
  have "whole_of ?s1 \<noteq> []" using read by (auto simp: read_number_def Let_def split: if_split_asm)
  then have "length (whole_of ?s1) \<noteq> 0" "?s1 \<noteq> []" by (auto simp: whole_of_def)
  then have "length (drop (length (whole_of ?s1)) ?s1) < length s" by (cases s) auto
  moreover have "length r \<le> length (drop (length (whole_of ?s1)) ?s1)"
    using read by (auto simp: read_number_def Let_def split: if_split_asm)
  ultimately show ?thesis by simp
qed

lemma read_literal_shorter: "read_literal LITERALS s = Some (Read v r) \<Longrightarrow> length r < length s"
  by (auto simp: read_literal_def LITERALS_def split: if_split_asm dest!: arg_cong [where f = length])

lemma read_value_shorter:
  "read_value float_of n s = Read v r \<Longrightarrow> length r < length s"
  "read_items float_of n s = Read vs r \<Longrightarrow> length r < length s"
  "read_members float_of n kvs s = Read kvs1 r \<Longrightarrow> length r < length s"
proof (induction float_of n s and float_of n s and float_of n kvs s arbitrary: v r and vs r and kvs1 r
    rule: read_value_read_items_read_members.induct)
  case (2 float_of n s)
  then obtain c cs where s: "s = c # cs" by (cases s) auto
  have skip: "length (skip cs) \<le> length cs" by (rule length_skip)
  consider (string) "c = QUOTE" | (obj) "c = CHR ''{''" "c \<noteq> QUOTE" | (list) "c = CHR ''[''" "c \<noteq> QUOTE"
    | (other) "c \<noteq> QUOTE" "c \<noteq> CHR ''{''" "c \<noteq> CHR ''[''" by blast
  then show ?case
  proof cases
    case string
    then show ?thesis using "2.prems" read_chars_shorter by (fastforce simp: s)
  next
    case obj
    then show ?thesis using "2.prems" "2.IH"(1) [OF s] skip by (fastforce simp: s split: if_split_asm)
  next
    case list
    then show ?thesis using "2.prems" "2.IH"(2) [OF s] skip by (fastforce simp: s split: if_split_asm)
  next
    case other
    then show ?thesis using "2.prems" read_literal_shorter [of "c # cs" v r] read_number_shorter [of float_of "c # cs" v r]
      by (auto simp: s split: option.splits)
  qed
next
  case (4 float_of n s)
  then obtain u q where u: "read_value float_of n s = Read u q" by (auto simp: next_reading_Read)
  have q: "length q < length s" by (rule "4.IH"(1) [OF u])
  have "length (skip (drop 1 (skip q))) \<le> length q"
    using length_skip [of "drop 1 (skip q)"] length_skip [of q] by simp
  then show ?case using "4.prems" "4.IH"(2) u q length_skip [of q]
    by (fastforce simp: Let_def split: if_split_asm)
next
  case (6 float_of n kvs s)
  obtain k r1 where k: "take 1 s = [QUOTE]" "read_chars (drop 1 s) = Read k r1" "take 1 (skip r1) = '':''"
    using "6.prems" by (auto simp: next_reading_Read Let_def split: if_split_asm)
  then obtain u r2 where u: "read_value float_of n (skip (drop 1 (skip r1))) = Read u r2"
    using "6.prems" by (auto simp: next_reading_Read Let_def split: if_split_asm)
  have "length r1 < length s" using read_chars_shorter [OF k(2)] by simp
  moreover have "length (skip (drop 1 (skip r1))) \<le> length r1"
    using length_skip [of "drop 1 (skip r1)"] length_skip [of r1] by simp
  moreover have "length r2 < length (skip (drop 1 (skip r1)))"
    using "6.IH"(1) [OF k(1) refl k(3)] u by blast
  moreover have "length (skip (drop 1 (skip r2))) \<le> length r2" "length (skip r2) \<le> length r2"
    using length_skip [of "drop 1 (skip r2)"] length_skip [of r2] by simp_all
  ultimately show ?case using "6.prems" k u "6.IH"(2) [OF k(1) refl k(3) refl refl]
    by (fastforce simp: Let_def split: if_split_asm)
qed simp_all


text \<open>Two runs with fuel enough for the text agree.\<close>

lemma read_value_enough:
  "2 * length s + 1 \<le> n \<Longrightarrow> 2 * length s + 1 \<le> m \<Longrightarrow> read_value float_of n s = read_value float_of m s"
  "2 * length s + 2 \<le> n \<Longrightarrow> 2 * length s + 2 \<le> m \<Longrightarrow> read_items float_of n s = read_items float_of m s"
  "2 * length s + 1 \<le> n \<Longrightarrow> 2 * length s + 1 \<le> m \<Longrightarrow>
    read_members float_of n kvs s = read_members float_of m kvs s"
proof (induction float_of n s and float_of n s and float_of n kvs s arbitrary: m and m and m
    rule: read_value_read_items_read_members.induct)
  case (2 float_of n s)
  obtain m' where m: "m = Suc m'" using "2.prems"(2) by (cases m) auto
  show ?case
  proof (cases s)
    case (Cons c cs)
    have skip: "length (skip cs) \<le> length cs" by (rule length_skip)
    have "c \<noteq> QUOTE \<Longrightarrow> c = CHR ''{'' \<Longrightarrow> take 1 (skip cs) \<noteq> ''}'' \<Longrightarrow>
        read_members float_of n [] (skip cs) = read_members float_of m' [] (skip cs)"
      using "2.prems" skip m Cons by (intro "2.IH"(1) [OF Cons]) simp_all
    moreover have "c \<noteq> QUOTE \<Longrightarrow> c = CHR ''['' \<Longrightarrow> take 1 (skip cs) \<noteq> '']'' \<Longrightarrow>
        read_items float_of n (skip cs) = read_items float_of m' (skip cs)"
      using "2.prems" skip m Cons by (intro "2.IH"(2) [OF Cons]) simp_all
    ultimately show ?thesis by (simp add: Cons m)
  qed (simp add: m)
next
  case (4 float_of n s)
  obtain m' where m: "m = Suc m'" using "4.prems"(2) by (cases m) auto
  have v: "read_value float_of n s = read_value float_of m' s"
    using "4.prems" m by (intro "4.IH"(1)) simp_all
  show ?case
  proof (cases "read_value float_of m' s")
    case (Read u r)
    then have "length r < length s" by (rule read_value_shorter(1))
    moreover have "length (skip (drop 1 (skip r))) \<le> length r"
      using length_skip [of "drop 1 (skip r)"] length_skip [of r] by simp
    ultimately have "take 1 (skip r) = '','' \<Longrightarrow>
        read_items float_of n (skip (drop 1 (skip r))) = read_items float_of m' (skip (drop 1 (skip r)))"
      using v Read "4.prems" m by (intro "4.IH"(2) [OF refl]) simp_all
    then show ?thesis using v Read by (simp add: m Let_def)
  qed (simp_all add: m v)
next
  case (6 float_of n kvs s)
  obtain m' where m: "m = Suc m'" using "6.prems"(2) by (cases m) auto
  show ?case
  proof (cases "take 1 s = [QUOTE]")
    case quote: True
    show ?thesis
    proof (cases "read_chars (drop 1 s)")
      case k: (Read k r)
      let ?t = "skip (drop 1 (skip r))"
      have r: "length r < length s" using read_chars_shorter [OF k] by simp
      have t: "length ?t \<le> length r" using length_skip [of "drop 1 (skip r)"] length_skip [of r] by simp
      show ?thesis
      proof (cases "take 1 (skip r) = '':''")
        case colon: True
        have v: "read_value float_of n ?t = read_value float_of m' ?t"
          using "6.prems" m r t by (intro "6.IH"(1) [OF quote refl colon]) simp_all
        show ?thesis
        proof (cases "read_value float_of m' ?t")
          case u: (Read u r2)
          then have "length r2 < length ?t" by (rule read_value_shorter(1))
          moreover have "length (skip (drop 1 (skip r2))) \<le> length r2"
            using length_skip [of "drop 1 (skip r2)"] length_skip [of r2] by simp
          ultimately have "take 1 (skip r2) = '','' \<Longrightarrow>
              read_members float_of n (AList.update k u kvs) (skip (drop 1 (skip r2))) =
              read_members float_of m' (AList.update k u kvs) (skip (drop 1 (skip r2)))"
            using "6.prems" m r t by (intro "6.IH"(2) [OF quote refl colon refl refl]) simp_all
          then show ?thesis using quote k colon v u by (simp add: m Let_def)
        qed (use quote k colon v in \<open>simp_all add: m Let_def\<close>)
      qed (use quote k in \<open>simp add: m Let_def\<close>)
    qed (use quote in \<open>simp_all add: m\<close>)
  qed (simp add: m)
qed simp_all

lemma loads_enough:
  "2 * length t + 1 \<le> n \<Longrightarrow> loads float_of t =
     next_reading (read_value float_of n (skip t)) (\<lambda>v r. if skip r = [] then Read v [] else Malformed)"
  using read_value_enough(1) [of "skip t" "2 * length t + 1" n float_of] length_skip [of t]
  by (simp add: loads_def del: read_value.simps)

subsection \<open>Reading numbers\<close>

text \<open>What follows a value in a text that \<open>dumps\<close> writes.\<close>

definition delimited :: "string \<Rightarrow> bool" where
  "delimited r \<longleftrightarrow> take 1 r \<in> {[], '','', [LF]}"

lemma delimited_cases:
  assumes "delimited r"
  obtains "r = []" | cs where "r = CHR '','' # cs" | cs where "r = LF # cs"
  using assms by (cases r) (auto simp: delimited_def)

lemma not_digit [simp]: "\<not> is_digit (CHR '','')" "\<not> is_digit LF"
  by (simp_all add: is_digit_def LF_def)

lemma takeWhile_digits: "delimited r \<Longrightarrow> takeWhile is_digit (s @ r) = takeWhile is_digit s"
  by (induction s) (auto elim: delimited_cases)

lemma number_parts:
  assumes "delimited r"
  shows "sign_of (s @ r) = sign_of s" "whole_of (s @ r) = whole_of s"
    "fraction_of (s @ r) = fraction_of s" "exponent_of (s @ r) = exponent_of s"
proof -
  note tw = takeWhile_digits [OF assms]
  have first: "take 1 r \<noteq> [c]" if "c \<in> set ''-0.eE+''" for c
    using assms that by (auto simp: delimited_def LF_def)
  show "sign_of (s @ r) = sign_of s" using first by (cases s) (simp_all add: sign_of_def)
  show "whole_of (s @ r) = whole_of s" using first tw [of s] by (cases s) (simp_all add: whole_of_def)
  have d0: "takeWhile is_digit r = []" using tw [of "[]"] by simp
  show "fraction_of (s @ r) = fraction_of s"
    using first tw [of "tl s"] by (cases s) (simp_all add: fraction_of_def)
  show "exponent_of (s @ r) = exponent_of s"
  proof (cases s)
    case Nil
    then show ?thesis using first by (simp add: exponent_of_def)
  next
    case (Cons c t)
    show ?thesis
    proof (cases t)
      case Nil
      then show ?thesis using first d0 Cons by (cases r) (simp_all add: exponent_of_def Let_def)
    next
      case (Cons d u)
      then show ?thesis using tw [of u] tw [of t] \<open>s = c # t\<close> by (simp add: exponent_of_def Let_def)
    qed
  qed
qed

lemma length_parts:
  "length (sign_of s) \<le> length s" "length (whole_of s) \<le> length s"
  "length (fraction_of s) \<le> length s" "length (exponent_of s) \<le> length s"
proof -
  show "length (sign_of s) \<le> length s" by (cases s) (simp_all add: sign_of_def)
  show "length (whole_of s) \<le> length s" by (cases s) (simp_all add: whole_of_def length_takeWhile_le)
  show "length (fraction_of s) \<le> length s"
    by (cases s) (simp_all add: fraction_of_def Let_def length_takeWhile_le)
  show "length (exponent_of s) \<le> length s"
    using length_takeWhile_le [of is_digit "tl s"] length_takeWhile_le [of is_digit "tl (tl s)"]
    by (cases s; cases "tl s") (auto simp: exponent_of_def Let_def)
qed

lemma drop_part: "n \<le> length s \<Longrightarrow> drop n (s @ r) = drop n s @ r"
  by simp

lemma read_number_append:
  assumes "read_number float_of s = Read v []" and "delimited r"
  shows "read_number float_of (s @ r) = Read v r"
proof -
  have "read_number float_of (s @ r) = next_reading (read_number float_of s) (\<lambda>v q. Read v (q @ r))"
    unfolding read_number_def Let_def using assms(2)
    by (auto simp: next_reading_if number_parts length_parts drop_part simp del: drop_append drop_drop length_drop)
  then show ?thesis using assms(1) by simp
qed

lemma of_char_digit [simp]: "m < 10 \<Longrightarrow> (of_char (char_of (48 + m) :: char) :: nat) = 48 + m"
  by simp

lemma digits_of_nat_cases:
  obtains "n < 10" "digits_of_nat n = [char_of (48 + n)]"
    | "\<not> n < 10" "digits_of_nat n = digits_of_nat (n div 10) @ [char_of (48 + n mod 10)]"
  by (cases "n < 10") (simp_all add: digits_of_nat.simps [of n])

lemma digits_of_nat_digits: "list_all is_digit (digits_of_nat n)"
proof (induction n rule: digits_of_nat.induct)
  case (1 n)
  show ?case
    by (rule digits_of_nat_cases [of n]) (use 1 of_char_digit [of "n mod 10"] in \<open>auto simp: is_digit_def simp del: of_char_of\<close>)
qed

lemma int_of_digits_snoc: "int_of_digits (ds @ [c]) = 10 * int_of_digits ds + (int (of_char c) - 48)"
  by (simp add: int_of_digits_def)

lemma int_of_digits_of_nat: "int_of_digits (digits_of_nat n) = int n"
proof (induction n rule: digits_of_nat.induct)
  case (1 n)
  have d: "(of_char (char_of (48 + n mod 10) :: char) :: nat) = 48 + n mod 10" by (rule of_char_digit) simp
  show ?case
  proof (rule digits_of_nat_cases [of n])
    assume "n < 10" "digits_of_nat n = [char_of (48 + n)]"
    then show ?thesis by (simp add: int_of_digits_def)
  next
    assume n: "\<not> n < 10" "digits_of_nat n = digits_of_nat (n div 10) @ [char_of (48 + n mod 10)]"
    have "int_of_digits (digits_of_nat n) = 10 * int (n div 10) + int (n mod 10)"
      unfolding n(2) int_of_digits_snoc d 1 [OF n(1)] by simp
    also have "\<dots> = int n" by presburger
    finally show ?thesis .
  qed
qed

lemma digits_of_nat_first: "n \<noteq> 0 \<Longrightarrow> take 1 (digits_of_nat n) \<noteq> ''0'' \<and> digits_of_nat n \<noteq> []"
proof (induction n rule: digits_of_nat.induct)
  case (1 n)
  show ?case
  proof (rule digits_of_nat_cases [of n])
    assume n: "n < 10" "digits_of_nat n = [char_of (48 + n)]"
    have "char_of (48 + n) \<noteq> CHR ''0''"
    proof
      assume "char_of (48 + n) = CHR ''0''"
      then have "(of_char (char_of (48 + n) :: char) :: nat) = 48" by simp
      then show False using n(1) "1.prems" by (simp del: of_char_of)
    qed
    then show ?thesis by (simp add: n(2))
  next
    assume n: "\<not> n < 10" "digits_of_nat n = digits_of_nat (n div 10) @ [char_of (48 + n mod 10)]"
    then have "take 1 (digits_of_nat (n div 10)) \<noteq> ''0'' \<and> digits_of_nat (n div 10) \<noteq> []"
      using 1 by auto
    then show ?thesis by (cases "digits_of_nat (n div 10)") (simp_all add: n(2))
  qed
qed

lemma read_whole:
  assumes "list_all is_digit ds" "take 1 ds \<noteq> ''0''" "ds \<noteq> []"
  shows "read_number float_of ds = Read (J_int (int_of_digits ds)) []"
    "read_number float_of (CHR ''-'' # ds) = Read (J_int (- int_of_digits ds)) []"
proof -
  have whole: "whole_of ds = ds"
    using assms by (simp add: whole_of_def takeWhile_eq_all_conv list_all_iff)
  have rest: "fraction_of [] = []" "exponent_of [] = []"
    by (simp_all add: fraction_of_def exponent_of_def)
  have "sign_of ds = []" using assms by (cases ds) (auto simp: sign_of_def is_digit_def)
  then show "read_number float_of ds = Read (J_int (int_of_digits ds)) []"
    using assms(3) by (simp add: read_number_def whole rest)
  have "sign_of (CHR ''-'' # ds) = ''-''" by (simp add: sign_of_def)
  then show "read_number float_of (CHR ''-'' # ds) = Read (J_int (- int_of_digits ds)) []"
    using assms(3) by (simp add: read_number_def whole rest)
qed

lemma read_zero: "read_number float_of ''0'' = Read (J_int 0) []"
  by code_simp

lemma read_digits:
  "read_number float_of (digits_of_nat n) = Read (J_int (int n)) []"
  "n \<noteq> 0 \<Longrightarrow> read_number float_of (CHR ''-'' # digits_of_nat n) = Read (J_int (- int n)) []"
proof -
  have nonzero: "n \<noteq> 0 \<Longrightarrow> list_all is_digit (digits_of_nat n) \<and> take 1 (digits_of_nat n) \<noteq> ''0'' \<and> digits_of_nat n \<noteq> []"
    using digits_of_nat_first digits_of_nat_digits by blast
  have zero: "digits_of_nat 0 = ''0''" by code_simp
  show "read_number float_of (digits_of_nat n) = Read (J_int (int n)) []"
  proof (cases "n = 0")
    case True
    then show ?thesis by (simp only: zero read_zero) simp
  next
    case False
    then show ?thesis using nonzero read_whole(1) [of "digits_of_nat n" float_of]
      by (simp only: int_of_digits_of_nat simp_thms not_False_eq_True)
  qed
  assume "n \<noteq> 0"
  then show "read_number float_of (CHR ''-'' # digits_of_nat n) = Read (J_int (- int n)) []"
    using nonzero read_whole(2) [of "digits_of_nat n" float_of]
    by (simp only: int_of_digits_of_nat simp_thms not_False_eq_True)
qed

lemma read_str_of_int: "read_number float_of (str_of_int i) = Read (J_int i) []"
  using read_digits(1) [of float_of "nat i"] read_digits(2) [of "nat (- i)" float_of]
  by (auto simp: str_of_int_def)

subsection \<open>Reading strings\<close>

lemma hex_digits_byte:
  "n < 16 \<Longrightarrow> hex_digits_of_nat n = [hex_char (int n)]"
  "\<not> n < 16 \<Longrightarrow> n < 256 \<Longrightarrow> hex_digits_of_nat n = [hex_char (int (n div 16)), hex_char (int (n mod 16))]"
proof -
  show one: "n < 16 \<Longrightarrow> hex_digits_of_nat n = [hex_char (int n)]" for n
    by (subst hex_digits_of_nat.simps) (rule if_P)
  show "\<not> n < 16 \<Longrightarrow> n < 256 \<Longrightarrow> hex_digits_of_nat n = [hex_char (int (n div 16)), hex_char (int (n mod 16))]"
    by (subst hex_digits_of_nat.simps, subst if_not_P, assumption, subst one) simp_all
qed

lemma hex_padded_byte: "n < 256 \<Longrightarrow>
    hex_padded 4 n = [hex_char 0, hex_char 0, hex_char (int (n div 16)), hex_char (int (n mod 16))]"
proof -
  have zero: "CHR ''0'' = hex_char 0" by code_simp
  have pad: "replicate 3 x = [x, x, x]" "replicate 2 x = [x, x]" for x :: char
    by (simp_all add: numeral_eq_Suc)
  show "n < 256 \<Longrightarrow> ?thesis"
    by (cases "n < 16") (simp_all add: hex_padded_def hex_digits_byte zero pad)
qed

lemma hex_value_padded:
  "n < 256 \<Longrightarrow> hex_value 0 [hex_char 0, hex_char 0, hex_char (int (n div 16)), hex_char (int (n mod 16))] = Some (int n)"
proof -
  assume "n < 256"
  moreover have "16 * int (n div 16) + int (n mod 16) = int n" by presburger
  ultimately show ?thesis by (simp add: hex_digit_char)
qed

lemma read_escape_char: "read_chars (escape_char c @ t) = map_reading (Cons c) (read_chars t)"
proof (cases "c \<in> set [QUOTE, BACKSLASH, CHR 0x0A, CHR 0x0D, CHR 0x09, CHR 0x08, CHR 0x0C]")
  case True
  then show ?thesis by (auto simp: escape_char_def QUOTE_def BACKSLASH_def unescape_def)
next
  case False
  define n where "n = (of_char c :: nat)"
  have c: "c = char_of n" by (simp add: n_def)
  have byte: "n < 256" by (simp add: n_def)
  have "n \<noteq> of_char d" if "d \<in> set [QUOTE, BACKSLASH, CHR 0x0A, CHR 0x0D, CHR 0x09, CHR 0x08, CHR 0x0C]" for d :: char
    using False that by (auto simp: n_def)
  from this [of QUOTE] this [of BACKSLASH] this [of "CHR 0x0A"] this [of "CHR 0x0D"] this [of "CHR 0x09"]
    this [of "CHR 0x08"] this [of "CHR 0x0C"]
  have escape: "escape_char c = (if 32 \<le> n \<and> n \<le> 126 then [c] else [BACKSLASH, CHR ''u''] @ hex_padded 4 n)"
    by (simp add: escape_char_def n_def QUOTE_def BACKSLASH_def Let_def)
  have "c \<noteq> QUOTE" "c \<noteq> BACKSLASH" "BACKSLASH \<noteq> QUOTE" using False by (auto simp: QUOTE_def BACKSLASH_def)
  then show ?thesis
    using byte hex_padded_byte [OF byte] hex_value_padded [OF byte]
    by (simp add: escape n_def [symmetric] c [symmetric] del: hex_value.simps)
qed

lemma read_escaped: "read_chars (concat (map escape_char s) @ QUOTE # r) = Read s r"
  by (induction s) (simp_all add: read_escape_char)


subsection \<open>Reading what was written\<close>

text \<open>A text that begins with neither a blank nor a closing bracket.\<close>

definition begins :: "string \<Rightarrow> bool" where
  "begins s \<longleftrightarrow> (case s of [] \<Rightarrow> False | c # cs \<Rightarrow> \<not> is_blank c \<and> c \<noteq> CHR '']'')"

text \<open>Floats are their \<open>repr\<close>, which reads as the same float, or not finite.\<close>

definition float_repr :: "(string \<Rightarrow> string) \<Rightarrow> string \<Rightarrow> bool" where
  "float_repr float_of r \<longleftrightarrow> r = ''nan'' \<or> r = ''inf'' \<or> r = ''-inf'' \<or> read_number float_of r = Read (J_float r) []"

fun writable :: "(string \<Rightarrow> string) \<Rightarrow> json \<Rightarrow> bool" where
  "writable float_of (J_float r) \<longleftrightarrow> float_repr float_of r"
| "writable float_of (J_list xs) \<longleftrightarrow> (\<forall>x \<in> set xs. writable float_of x)"
| "writable float_of (J_obj kvs) \<longleftrightarrow>
     distinct (map fst kvs) \<and> (\<forall>kv \<in> set kvs. writable float_of (snd kv))"
| "writable float_of _ \<longleftrightarrow> True"

lemma begins_Cons [simp]: "begins (c # cs) \<longleftrightarrow> \<not> is_blank c \<and> c \<noteq> CHR '']''"
  by (simp add: begins_def)

lemma skip_begins: "begins s \<Longrightarrow> skip (s @ r) = s @ r"
  by (cases s) (simp_all add: begins_def skip_def)

lemma is_blank_simps [simp]:
  "is_blank LF" "is_blank CHR '' ''" "\<not> is_blank CHR '',''" "\<not> is_blank CHR '']''" "\<not> is_blank CHR ''}''"
  "\<not> is_blank CHR '':''" "\<not> is_blank QUOTE"
  by (simp_all add: is_blank_def LF_def QUOTE_def)

lemma quote_not: "CHR ''{'' \<noteq> QUOTE" "QUOTE \<noteq> CHR ''}''"
  by (simp_all add: QUOTE_def)

lemma skip_Nil [simp]: "skip [] = []"
  by (simp add: skip_def)

lemma skip_Cons [simp]: "skip (c # s) = (if is_blank c then skip s else c # s)"
  by (simp add: skip_def)

lemma skip_new_line [simp]: "skip (new_line l @ s) = skip s"
  by (induction l) (simp_all add: new_line_def skip_def)

lemma delimited_separator [simp]: "delimited (CHR '','' # s)" "delimited (new_line l @ s)" "delimited []"
  by (simp_all add: delimited_def new_line_def)

lemma read_number_first:
  assumes "read_number float_of s = Read v r"
  obtains c cs where "s = c # cs" "is_digit c" | c cs where "s = CHR ''-'' # c # cs" "is_digit c"
proof -
  let ?t = "drop (length (sign_of s)) s"
  have "whole_of ?t \<noteq> []" using assms by (auto simp: read_number_def Let_def split: if_split_asm)
  then obtain c cs where t: "?t = c # cs" "is_digit c"
    by (cases ?t) (auto simp: whole_of_def is_digit_def split: if_split_asm)
  then show thesis
    using that by (cases s) (auto simp: sign_of_def split: if_split_asm)
qed

lemma digit_not [simp]:
  "is_digit c \<Longrightarrow> c \<noteq> QUOTE \<and> c \<notin> set ''{[ntfNI-]'' \<and> \<not> is_blank c"
  by (auto simp: is_digit_def QUOTE_def is_blank_def)

lemma begins_number: "read_number float_of s = Read v r \<Longrightarrow> begins s"
  by (elim read_number_first) (auto simp: begins_def is_blank_def dest: digit_not)

lemma read_value_number:
  assumes "read_number float_of s = Read v []" "delimited r"
  shows "read_value float_of (Suc n) (s @ r) = Read v r"
proof -
  note read = read_number_append [OF assms]
  show ?thesis
    using assms(1)
  proof (cases rule: read_number_first)
    case (1 c cs)
    then show ?thesis using read digit_not [of c] by (simp add: read_literal_def LITERALS_def)
  next
    case (2 c cs)
    then show ?thesis using read digit_not [of c] by (simp add: read_literal_def LITERALS_def QUOTE_def)
  qed
qed

lemma read_value_literal:
  "map_of LITERALS w = Some v \<Longrightarrow> read_value float_of (Suc n) (w @ r) = Read v r"
  by (auto simp: LITERALS_def read_literal_def QUOTE_def split: if_split_asm)

lemma begins_dumps: "writable float_of j \<Longrightarrow> begins (dumps_at l j)"
proof (cases j)
  case (J_int i)
  then show ?thesis using begins_number [OF read_str_of_int] by simp
next
  case (J_float r)
  moreover assume "writable float_of j"
  ultimately show ?thesis using begins_number [of float_of r]
    by (auto simp: float_repr_def dumps_float_def is_blank_def)
qed (auto simp: dumps_string_def is_blank_def QUOTE_def)

lemma begins_append: "begins s \<Longrightarrow> begins (s @ r)"
  by (cases s) (simp_all add: begins_def)

lemma begins_skip: "begins s \<Longrightarrow> skip s = s"
  using skip_begins [of s "[]"] by simp

lemma begins_join: "begins s \<Longrightarrow> begins (join sep (s # ss) @ r)"
  by (cases ss) (simp_all add: begins_append)

lemma read_items_written:
  assumes "xs \<noteq> []" and "\<And>x. x \<in> set xs \<Longrightarrow> begins (wr x)"
    and "\<And>x r n. x \<in> set xs \<Longrightarrow> delimited r \<Longrightarrow> 2 * length (wr x @ r) + 1 \<le> n \<Longrightarrow>
      read_value float_of n (wr x @ r) = Read x r"
    and "2 * length (join ('','' @ new_line l) (map wr xs) @ new_line m @ CHR '']'' # r) + 2 \<le> n"
  shows "read_items float_of n (join ('','' @ new_line l) (map wr xs) @ new_line m @ CHR '']'' # r) = Read xs r"
  using assms
proof (induction xs arbitrary: n rule: induct_list012)
  case (2 x)
  then obtain k where n: "n = Suc k" by (cases n) auto
  have "read_value float_of k (wr x @ new_line m @ CHR '']'' # r) = Read x (new_line m @ CHR '']'' # r)"
    using "2.prems" n by (intro "2.prems"(3)) simp_all
  then show ?case by (simp add: n)
next
  case (3 x y ys)
  let ?rest = "join ('','' @ new_line l) (map wr (y # ys)) @ new_line m @ CHR '']'' # r"
  obtain k where n: "n = Suc k" using "3.prems"(4) by (cases n) auto
  have v: "read_value float_of k (wr x @ CHR '','' # new_line l @ ?rest) = Read x (CHR '','' # new_line l @ ?rest)"
    using "3.prems"(4) n by (intro "3.prems"(3)) simp_all
  have "begins ?rest" using begins_join "3.prems"(2) by simp
  then have "skip ?rest = ?rest" by (rule begins_skip)
  moreover have "read_items float_of k ?rest = Read (y # ys) r"
    using "3.prems" n by (intro "3.IH"(2)) simp_all
  ultimately show ?case using v by (simp add: n)
qed simp

lemma update_fresh: "k \<notin> fst ` set kvs \<Longrightarrow> AList.update k v kvs = kvs @ [(k, v)]"
  by (induction kvs) auto

definition write_member :: "(json \<Rightarrow> string) \<Rightarrow> string \<times> json \<Rightarrow> string" where
  "write_member wr kv = dumps_string (fst kv) @ '': '' @ wr (snd kv)"

lemma length_write_member:
  "length (write_member wr kv) = length (concat (map escape_char (fst kv))) + length (wr (snd kv)) + 4"
  by (simp add: write_member_def dumps_string_def)

lemma read_members_written:
  assumes "kvs \<noteq> []" and "distinct (map fst (kvs0 @ kvs))"
    and "\<And>kv. kv \<in> set kvs \<Longrightarrow> begins (wr (snd kv))"
    and "\<And>kv r n. kv \<in> set kvs \<Longrightarrow> delimited r \<Longrightarrow> 2 * length (wr (snd kv) @ r) + 1 \<le> n \<Longrightarrow>
      read_value float_of n (wr (snd kv) @ r) = Read (snd kv) r"
    and "2 * length (join ('','' @ new_line l) (map (write_member wr) kvs) @ new_line m @ CHR ''}'' # r) + 1 \<le> n"
  shows "read_members float_of n kvs0
      (join ('','' @ new_line l) (map (write_member wr) kvs) @ new_line m @ CHR ''}'' # r) = Read (kvs0 @ kvs) r"
  using assms
proof (induction kvs arbitrary: n kvs0 rule: induct_list012)
  case (2 kv)
  obtain k where n: "n = Suc k" using "2.prems"(5) by (cases n) auto
  have "read_value float_of k (wr (snd kv) @ new_line m @ CHR ''}'' # r) = Read (snd kv) (new_line m @ CHR ''}'' # r)"
    using "2.prems"(5) n by (intro "2.prems"(4)) (simp_all add: length_write_member)
  moreover have "begins (wr (snd kv))" using "2.prems"(3) by simp
  ultimately show ?case using "2.prems"(2)
    by (simp add: n write_member_def dumps_string_def read_escaped skip_begins update_fresh)
next
  case (3 kv kv2 kvs)
  let ?rest = "join ('','' @ new_line l) (map (write_member wr) (kv2 # kvs)) @ new_line m @ CHR ''}'' # r"
  obtain k where n: "n = Suc k" using "3.prems"(5) by (cases n) auto
  have v: "read_value float_of k (wr (snd kv) @ CHR '','' # new_line l @ ?rest) =
      Read (snd kv) (CHR '','' # new_line l @ ?rest)"
    using "3.prems"(5) n by (intro "3.prems"(4)) (simp_all add: length_write_member)
  have "begins ?rest" by (simp add: begins_join write_member_def dumps_string_def QUOTE_def is_blank_def)
  then have "skip ?rest = ?rest" by (rule begins_skip)
  moreover have "begins (wr (snd kv))" using "3.prems"(3) by simp
  moreover have "read_members float_of k (kvs0 @ [kv]) ?rest = Read ((kvs0 @ [kv]) @ kv2 # kvs) r"
    using "3.prems" n by (intro "3.IH"(2)) (simp_all add: length_write_member)
  ultimately show ?case using v "3.prems"(2)
    by (simp add: n write_member_def [of wr kv] dumps_string_def read_escaped skip_begins update_fresh)
qed simp

lemma read_value_written:
  "writable float_of j \<Longrightarrow> delimited r \<Longrightarrow> 2 * length (dumps_at l j @ r) + 1 \<le> n \<Longrightarrow>
    read_value float_of n (dumps_at l j @ r) = Read j r"
proof (induction l j arbitrary: r n rule: dumps_at.induct)
  case (1 l)
  then show ?case using read_value_literal [of "''null''" J_null]
    by (cases n) (auto simp: LITERALS_def simp del: read_value.simps)
next
  case (2 l b)
  then show ?case
    using read_value_literal [of "''true''" "J_bool True"] read_value_literal [of "''false''" "J_bool False"]
    by (cases n; cases b) (auto simp: LITERALS_def simp del: read_value.simps)
next
  case (3 l i)
  then show ?case using read_value_number [OF read_str_of_int] by (cases n) simp_all
next
  case (4 l s)
  obtain k where n: "n = Suc k" using "4.prems"(3) by (cases n) auto
  consider "s \<in> set [''nan'', ''inf'', ''-inf'']" | "read_number float_of s = Read (J_float s) []" "s \<notin> set [''nan'', ''inf'', ''-inf'']"
    using "4.prems"(1) by (auto simp: float_repr_def)
  then show ?case
  proof cases
    case 1
    then show ?thesis unfolding n
      using read_value_literal [of "''NaN''" "J_float ''nan''"] read_value_literal [of "''Infinity''" "J_float ''inf''"]
        read_value_literal [of "''-Infinity''" "J_float ''-inf''"]
      by (auto simp: LITERALS_def dumps_float_def simp del: read_value.simps)
  next
    case 2
    then show ?thesis using read_value_number [OF 2(1) "4.prems"(2)] by (simp add: n dumps_float_def)
  qed
next
  case (5 l s)
  then show ?case by (cases n) (simp_all add: dumps_string_def read_escaped)
next
  case (6 l xs)
  obtain k where n: "n = Suc k" using "6.prems"(3) by (cases n) auto
  show ?case
  proof (cases "xs = []")
    case False
    let ?t = "join ('','' @ new_line (Suc l)) (map (dumps_at (Suc l)) xs) @ new_line l @ CHR '']'' # r"
    have x: "begins (dumps_at (Suc l) x)" if "x \<in> set xs" for x
      using "6.prems"(1) that by (intro begins_dumps [of float_of]) simp
    have written: "dumps_at l (J_list xs) @ r = CHR ''['' # new_line (Suc l) @ ?t" using False by simp
    have "begins ?t" using False x by (cases xs) (simp_all add: begins_join)
    then obtain c cs where "?t = c # cs" "\<not> is_blank c" "c \<noteq> CHR '']''" by (cases ?t) auto
    moreover have "read_items float_of k ?t = Read xs r"
    proof (rule read_items_written [OF False])
      show "read_value float_of m (dumps_at (Suc l) x @ q) = Read x q"
        if "x \<in> set xs" "delimited q" "2 * length (dumps_at (Suc l) x @ q) + 1 \<le> m" for x q m
        using that "6.prems"(1) False by (intro "6.IH") simp_all
    qed (use x False "6.prems"(3) n in simp_all)
    ultimately show ?thesis unfolding written by (simp add: n QUOTE_def)
  qed (simp add: n QUOTE_def)
next
  case (7 l kvs)
  obtain k where n: "n = Suc k" using "7.prems"(3) by (cases n) auto
  show ?case
  proof (cases "kvs = []")
    case False
    let ?wr = "dumps_at (Suc l)"
    let ?t = "join ('','' @ new_line (Suc l)) (map (write_member ?wr) kvs) @ new_line l @ CHR ''}'' # r"
    have written: "dumps_at l (J_obj kvs) @ r = CHR ''{'' # new_line (Suc l) @ ?t"
      using False by (simp add: write_member_def [abs_def])
    have x: "begins (?wr (snd kv))" if "kv \<in> set kvs" for kv
      using "7.prems"(1) that by (intro begins_dumps [of float_of]) simp
    obtain t' where t': "?t = QUOTE # t'"
      using False by (cases kvs; cases "tl kvs") (simp_all add: write_member_def dumps_string_def)
    moreover have "read_members float_of k [] ?t = Read ([] @ kvs) r"
    proof (rule read_members_written [OF False])
      show "read_value float_of m (?wr (snd kv) @ q) = Read (snd kv) q"
        if "kv \<in> set kvs" "delimited q" "2 * length (?wr (snd kv) @ q) + 1 \<le> m" for kv q m
        using that "7.prems"(1) False by (intro "7.IH") simp_all
    qed (use x False "7.prems"(1) "7.prems"(3) n written in simp_all)
    ultimately show ?thesis unfolding written by (simp add: n quote_not)
  qed (simp add: n QUOTE_def)
qed

lemma skip_dumps: "writable float_of j \<Longrightarrow> skip (dumps j) = dumps j"
  unfolding dumps_def by (rule begins_skip [OF begins_dumps])

text \<open>What \<open>json.dump(value, file, indent=2)\<close> writes, \<open>json.loads\<close> reads as the same value.\<close>

lemma json_reads_back:
  "writable float_of j \<Longrightarrow> loads float_of (dumps j) = Read j []"
  using read_value_written [of float_of j "[]" 0 "2 * length (dumps j) + 1"]
  by (simp add: loads_def skip_dumps dumps_def [symmetric] del: read_value.simps)

end
