(* ===== verification/Gate_Auth.thy ===== *)
theory Gate_Auth
  imports End_To_End Json_Text "HOL-Library.Sublist"
begin

text \<open>
  \<open>contrib/gate_auth_mac.py\<close>: loading candidate pairing keys and probing a shade with each,
  read-only, over the client of \<open>Shade_Client\<close>.

  Reading files and \<open>json.loads\<close> are parameters: the keys come as the decoded JSON document and as
  the sorted list of file stems with their text.
\<close>

subsection \<open>Loading keys\<close>

definition SHADE_NAME_PREFIX :: string where
  "SHADE_NAME_PREFIX = ''RollerSh''"

definition is_hex :: "char \<Rightarrow> bool" where
  "is_hex c \<longleftrightarrow> c \<in> set ''0123456789abcdefABCDEF''"

definition parse_key :: "string \<Rightarrow> json \<Rightarrow> bytes attempted" where
  "parse_key name value =
     (case value of
        J_str text \<Rightarrow>
          (let v = strip text
           in if length v \<noteq> 64 \<or> \<not> list_all is_hex v
              then Inl (System_exit (''Key '' @ repr_string name @ '' must be exactly 64 hex characters.''))
              else case fromhex v of
                  None \<Rightarrow> Inl (Value_error ''non-hexadecimal number found in fromhex() arg'')
                | Some bs \<Rightarrow> Inr bs)
      | _ \<Rightarrow> Inl Attribute_error)"

definition update_keys :: "(string \<times> bytes) list \<Rightarrow> (string \<times> bytes) list \<Rightarrow> (string \<times> bytes) list" where
  "update_keys keys kvs = foldl (\<lambda>d (k, v). AList.update k v d) keys kvs"

text \<open>\<open>if keys_json:\<close> tests the path; \<open>None\<close> stands for no or an empty path.\<close>

definition load_keys :: "json option \<Rightarrow> (string \<times> string) list option \<Rightarrow> (string \<times> bytes) list attempted" where
  "load_keys keys_json key_files =
     rbind (case keys_json of
         None \<Rightarrow> Inr []
       | Some (J_obj raw) \<Rightarrow>
           rbind (mapM (\<lambda>(name, value). rbind (parse_key name value) (\<lambda>k. Inr (name, k))) raw)
             (\<lambda>kvs. Inr (update_keys [] kvs))
       | Some _ \<Rightarrow> Inl Attribute_error) (\<lambda>keys.
     rbind (case key_files of
         None \<Rightarrow> Inr keys
       | Some files \<Rightarrow>
           rbind (mapM (\<lambda>(stem, text). rbind (parse_key stem (J_str text)) (\<lambda>k. Inr (stem, k))) files)
             (\<lambda>kvs. Inr (update_keys keys kvs))) (\<lambda>all.
       if all = [] then Inl (System_exit ''No keys loaded: pass --key-dir or --keys-json.'')
       else Inr all))"

subsection \<open>Probing\<close>

fun probe ::
  "cipher \<Rightarrow> 'w ble_env \<Rightarrow> string \<Rightarrow> (string \<times> bytes) list \<Rightarrow> ('w, (string \<times> shade_status) option) operation" where
  "probe ctr env address [] w = (Inr None, w)"
| "probe ctr env address ((name, key) # keys) w =
     (case client_new address key None False of
        Inl e \<Rightarrow> (Inl e, w)
      | Inr client \<Rightarrow>
          (case client_read_status ctr env client w of
             (Inr status, w1) \<Rightarrow> (Inr (Some (name, status)), w1)
           | (Inl e, w1) \<Rightarrow>
               (if isinstance_exc e [AuthenticationError_class] then probe ctr env address keys w1
                else (Inl e, w1))))"

text \<open>A discovered device: its advertised and cached names and its signal.\<close>

record 'd advert =
  ad_device :: 'd
  ad_local_name :: "string option"
  ad_device_name :: "string option"
  ad_rssi :: "int option"

text \<open>\<open>adv.local_name or device.name\<close>.\<close>

definition advert_name :: "'d advert \<Rightarrow> string option" where
  "advert_name a = (case ad_local_name a of Some (c # cs) \<Rightarrow> Some (c # cs) | _ \<Rightarrow> ad_device_name a)"

definition advertises_shade :: "'d advert \<Rightarrow> bool" where
  "advertises_shade a \<longleftrightarrow>
     prefix SHADE_NAME_PREFIX (case advert_name a of Some n \<Rightarrow> n | None \<Rightarrow> [])"

definition signal :: "'d advert \<Rightarrow> int" where
  "signal a = (case ad_rssi a of None \<Rightarrow> -999 | Some r \<Rightarrow> if r = 0 then -999 else r)"

definition shade_label :: "string \<times> 'd advert \<Rightarrow> string" where
  "shade_label x =
     (let (address, a) = x
      in (case advert_name a of Some n \<Rightarrow> n | None \<Rightarrow> ''None'') @ '' ['' @ address @ ''] '' @
         (case ad_rssi a of Some r \<Rightarrow> str_of_int r | None \<Rightarrow> ''None'') @ ''dBm'')"

text \<open>The records \<open>_run\<close> logs: the message and its arguments.\<close>

datatype gate_line =
  Loaded nat "string list"
| Scanning
| None_seen
| Found nat
| Incomplete (line_label: string) exc
| No_key (line_label: string)
| Authenticated_by (line_label: string) string int int
| Result_failed int
| Result_pass

text \<open>
  \<open>_run\<close> for the shades found, in the order of their signal: what it logs and the problems.
  \<open>BleakError\<close>, \<open>TiltProtocolError\<close> and \<open>TimeoutError\<close> of a probe are problems, any other
  exception ends the run.
\<close>

definition GATE_ERRORS :: "exc_class list" where
  "GATE_ERRORS = [BleakError_class, TiltProtocolError_class, TimeoutError_class]"

type_synonym ('w, 'a) logged = "'w \<Rightarrow> (exc + 'a) \<times> gate_line list \<times> 'w"

definition logs :: "gate_line \<Rightarrow> ('w, 'a) logged \<Rightarrow> ('w, 'a) logged" where
  "logs line f w = (let (r, lines, w1) = f w in (r, line # lines, w1))"

fun gate_shades ::
  "cipher \<Rightarrow> ('d \<Rightarrow> 'w ble_env) \<Rightarrow> (string \<times> bytes) list \<Rightarrow> (string \<times> 'd advert) list \<Rightarrow> int \<Rightarrow> ('w, int) logged" where
  "gate_shades ctr env keys [] problems w = (Inr problems, [], w)"
| "gate_shades ctr env keys ((address, a) # shades) problems w =
     (let label = shade_label (address, a)
      in case probe ctr (env (ad_device a)) address keys w of
        (Inl e, w1) \<Rightarrow>
          (if isinstance_exc e GATE_ERRORS
           then logs (Incomplete label e) (gate_shades ctr env keys shades (problems + 1)) w1
           else (Inl e, [], w1))
      | (Inr None, w1) \<Rightarrow> logs (No_key label) (gate_shades ctr env keys shades (problems + 1)) w1
      | (Inr (Some (name, status)), w1) \<Rightarrow>
          (case position_percent status of
             Inl e \<Rightarrow> (Inl e, [], w1)
           | Inr p \<Rightarrow> logs (Authenticated_by label name p (battery_percent status))
                        (gate_shades ctr env keys shades problems) w1))"

text \<open>
  A shade that does not acknowledge (\<open>TiltBleTimeout\<close>, a \<open>RuntimeError\<close>) ends the run for the shades
  after it too: nothing after it is probed or reported and there is no exit code.
\<close>

lemma silent_shade_ends_gate:
  assumes "probe ctr (env (ad_device a)) address keys w = (Inl (TiltBleTimeout m), w1)"
  shows "gate_shades ctr env keys ((address, a) # shades) problems w = (Inl (TiltBleTimeout m), [], w1)"
  using assms by (simp add: isinstance_exc_def GATE_ERRORS_def)

text \<open>\<open>_run\<close> after the scan: a descending sort keeps the order of equal signals.\<close>

definition gate_run ::
  "cipher \<Rightarrow> ('d \<Rightarrow> 'w ble_env) \<Rightarrow> (string \<times> bytes) list \<Rightarrow> (string \<times> 'd advert) list \<Rightarrow> ('w, int) logged" where
  "gate_run ctr env keys discovered w =
     (let shades = filter (\<lambda>(address, a). advertises_shade a) discovered
      in if shades = [] then (Inr 2, [None_seen], w)
         else logs (Found (length shades)) (\<lambda>w.
           case gate_shades ctr env keys (sort_key (\<lambda>(address, a). - signal a) shades) 0 w of
             (Inl e, lines, w1) \<Rightarrow> (Inl e, lines, w1)
           | (Inr problems, lines, w1) \<Rightarrow>
               (if problems \<noteq> 0 then (Inr 1, lines @ [Result_failed problems], w1)
                else (Inr 0, lines @ [Result_pass], w1))) w)"

text \<open>
  The whole of \<open>_run\<close>: \<open>System_exit\<close> and the errors of a malformed key come from loading the keys, an
  exception of the scan or of a probe ends the run.
\<close>

datatype gate_ending = Gate_exit int | Gate_keys_rejected py_error | Gate_raised exc

definition gate_check ::
  "cipher \<Rightarrow> ('d \<Rightarrow> 'w ble_env) \<Rightarrow> ('w, (string \<times> 'd advert) list) operation \<Rightarrow>
   json option \<Rightarrow> (string \<times> string) list option \<Rightarrow> 'w \<Rightarrow> gate_ending \<times> gate_line list \<times> 'w" where
  "gate_check ctr env scan keys_json key_files w =
     (case load_keys keys_json key_files of
        Inl e \<Rightarrow> (Gate_keys_rejected e, [], w)
      | Inr keys \<Rightarrow>
          (let (r, lines, w1) = logs (Loaded (length keys) (map fst keys)) (logs Scanning (\<lambda>w.
                 case scan w of
                   (Inl e, w1) \<Rightarrow> (Inl e, [], w1)
                 | (Inr discovered, w1) \<Rightarrow> gate_run ctr env keys discovered w1)) w
           in (case r of Inl e \<Rightarrow> Gate_raised e | Inr code \<Rightarrow> Gate_exit code, lines, w1)))"

text \<open>The gate passes exactly when shades are in range and each of them takes one of the keys.\<close>

fun all_authenticated ::
  "cipher \<Rightarrow> ('d \<Rightarrow> 'w ble_env) \<Rightarrow> (string \<times> bytes) list \<Rightarrow> (string \<times> 'd advert) list \<Rightarrow> 'w \<Rightarrow> bool" where
  "all_authenticated ctr env keys [] w \<longleftrightarrow> True"
| "all_authenticated ctr env keys ((address, a) # shades) w \<longleftrightarrow>
     (case probe ctr (env (ad_device a)) address keys w of
        (Inr (Some _), w1) \<Rightarrow> all_authenticated ctr env keys shades w1
      | _ \<Rightarrow> False)"

lemma logs_eq: "logs line f w = (r, lines, w1) \<longleftrightarrow> (\<exists>ls. lines = line # ls \<and> f w = (r, ls, w1))"
  by (auto simp: logs_def split: prod.splits)

lemma gate_shades_problems:
  "gate_shades ctr env keys shades problems w = (Inr p, lines, w') \<Longrightarrow>
   problems \<le> p \<and> (p = problems \<longleftrightarrow> all_authenticated ctr env keys shades w) \<and>
   map line_label lines = map shade_label shades \<and>
   (\<forall>x \<in> set lines. is_Incomplete x \<or> is_No_key x \<or> is_Authenticated_by x) \<and>
   p = problems + int (length (filter (\<lambda>line. \<not> is_Authenticated_by line) lines))"
proof (induction shades arbitrary: problems w lines)
  case (Cons x shades)
  obtain address a where x: "x = (address, a)" by (metis surj_pair)
  obtain r w1 where probe: "probe ctr (env (ad_device a)) address keys w = (r, w1)" by (metis surj_pair)
  consider (failed) e ls where "r = Inl e" "lines = Incomplete (shade_label x) e # ls"
      "gate_shades ctr env keys shades (problems + 1) w1 = (Inr p, ls, w')"
    | (unknown) ls where "r = Inr None" "lines = No_key (shade_label x) # ls"
      "gate_shades ctr env keys shades (problems + 1) w1 = (Inr p, ls, w')"
    | (known) name status q b ls where "r = Inr (Some (name, status))"
      "lines = Authenticated_by (shade_label x) name q b # ls"
      "gate_shades ctr env keys shades problems w1 = (Inr p, ls, w')"
    using Cons.prems probe
    by (cases r) (auto simp: x logs_eq Let_def split: sum.splits option.splits if_split_asm)
  then show ?case
  proof cases
    case failed
    from Cons.IH [OF failed(3)] failed(1,2) probe show ?thesis by (auto simp: x)
  next
    case unknown
    from Cons.IH [OF unknown(3)] unknown(1,2) probe show ?thesis by (auto simp: x)
  next
    case known
    from Cons.IH [OF known(3)] known(1,2) probe show ?thesis by (auto simp: x)
  qed
qed simp

subsection \<open>Loading well-formed key files\<close>

lemma is_hex_char: "0 \<le> n \<Longrightarrow> n < 16 \<Longrightarrow> is_hex (hex_char n)"
  by (rule nibble_all [where P = "\<lambda>n. is_hex (hex_char n)"], code_simp)

lemma hex_text_chars: "c \<in> set (hex_text bs) \<Longrightarrow> is_hex c \<and> \<not> is_space c"
  using hex_byte_digits by (fastforce simp: hex_text_def hex_byte_def is_hex_char hex_char_not_space)

lemma strip_surrounded:
  assumes "s \<noteq> []" and "\<And>c. c \<in> set s \<Longrightarrow> \<not> is_space c" and "list_all is_space ws"
  shows "strip (s @ ws) = s"
proof -
  have "dropWhile is_space (s @ ws) = s @ ws" using assms(1,2) by (cases s) simp_all
  moreover have "dropWhile is_space (rev s) = rev s"
    using assms(1,2) by (cases s rule: rev_cases) simp_all
  moreover have "dropWhile is_space (rev ws @ rev s) = dropWhile is_space (rev s)"
    using assms(3) by (intro dropWhile_append2) (auto simp: list_all_iff)
  ultimately show ?thesis by (simp add: strip_def)
qed

lemma parse_key_hex:
  assumes "length k = 32" and "list_all is_space ws"
  shows "parse_key name (J_str (hex_text k @ ws)) = Inr k"
proof -
  have "length (hex_text k) = 64" using assms(1) by simp
  then have "hex_text k \<noteq> []" by (metis list.size(3) zero_neq_numeral)
  then have "strip (hex_text k @ ws) = hex_text k"
    using hex_text_chars assms(2) by (intro strip_surrounded) auto
  moreover have "list_all is_hex (hex_text k)" using hex_text_chars by (auto simp: list_all_iff)
  ultimately show ?thesis using assms(1) by (simp add: parse_key_def)
qed

lemma update_keys_fresh:
  "distinct (map fst (d @ kvs)) \<Longrightarrow> update_keys d kvs = d @ kvs"
proof (induction kvs arbitrary: d)
  case Nil
  then show ?case by (simp add: update_keys_def)
next
  case (Cons kv kvs)
  obtain k v where kv: "kv = (k, v)" by (cases kv)
  have "AList.update k v d = d @ [(k, v)]" using Cons.prems by (intro update_fresh) (simp add: kv)
  moreover have "update_keys (d @ [(k, v)]) kvs = (d @ [(k, v)]) @ kvs"
    using Cons.prems by (intro Cons.IH) (simp add: kv)
  ultimately show ?case by (simp add: update_keys_def kv)
qed

lemma load_key_files:
  assumes "keys \<noteq> []" and "distinct (map fst keys)" and "list_all (\<lambda>(n, k). length k = 32) keys"
    and "list_all is_space ws"
  shows "load_keys None (Some (map (\<lambda>(n, k). (n, hex_text k @ ws)) keys)) = Inr keys"
proof -
  have "mapM (\<lambda>(stem, text). rbind (parse_key stem (J_str text)) (\<lambda>k. Inr (stem, k)))
      (map (\<lambda>(n, k). (n, hex_text k @ ws)) keys) = Inr (map (\<lambda>x. x) keys)"
    unfolding mapM_map
    by (rule mapM_pure) (use assms(3,4) in \<open>auto simp: list_all_iff parse_key_hex\<close>)
  then show ?thesis using assms(1,2) update_keys_fresh [of "[]" keys] by (simp add: load_keys_def)
qed

subsection \<open>Probing the fake shade\<close>

lemma client_new_probe:
  "length key = 32 \<Longrightarrow> \<exists>client. client_new address key None False = Inr client \<and> cl_pairing_key client = key"
  by (simp add: client_new_def)

lemma probe_own_key:
  assumes "ctr_cipher ctr" and "valid_world w"
    and "fs_proof_key (world_shade w) = fs_key (world_shade w)"
  shows "\<exists>w'. probe ctr (fake_env sched ctr) address ((name, fs_key (world_shade w)) # keys) w =
      (Inr (Some (name, status_of (world_shade w))), w') \<and> world_shade w' = world_shade w"
proof -
  have "length (fs_key (world_shade w)) = 32" using assms(2) by (simp add: valid_world_def valid_shade_def)
  then obtain client where c: "client_new address (fs_key (world_shade w)) None False = Inr client"
    using client_new_probe by blast
  from read_status_end_to_end [OF assms(1) c assms(2) refl assms(3), of sched] show ?thesis
    by (auto simp: c status_of_def mult.commute)
qed

lemma probe_other_key:
  assumes "valid_world w" and "length (fs_proof_key (world_shade w)) = 32" and "length key = 32"
    and "hmac_sha256 key PAIRING_KEY_PROOF_MESSAGE \<noteq>
      hmac_sha256 (fs_proof_key (world_shade w)) PAIRING_KEY_PROOF_MESSAGE"
  shows "\<exists>w'. probe ctr (fake_env sched ctr) address ((name, key) # keys) w = probe ctr (fake_env sched ctr) address keys w' \<and>
    valid_world w' \<and> world_shade w' = world_shade w"
proof -
  obtain client where c: "client_new address key None False = Inr client" "cl_pairing_key client = key"
    using client_new_probe [OF assms(3)] by blast
  from run_session_refused [where client = client and ctr = ctr and sched = sched
      and operate = "read_status ctr (env_send (fake_env sched ctr))", OF assms(1,2)] assms(3,4) c(2)
  obtain w' where "run_session (fake_env sched ctr) client (read_status ctr (env_send (fake_env sched ctr))) w =
      (Inl (AuthenticationError ''Configured pairing key did not authenticate this shade.''), w')"
    "world_shade w' = world_shade w" "dv_tasks (snd w') = []" by auto
  moreover from this(2,3) assms(1) have "valid_world w'" by (simp add: valid_world_def)
  ultimately show ?thesis by (intro exI [of _ w']) (simp add: c client_read_status_def isinstance_exc_def)
qed

lemma probe_fake:
  assumes "ctr_cipher ctr"
  shows "valid_world w \<Longrightarrow> fs_proof_key (world_shade w) = fs_key (world_shade w) \<Longrightarrow>
    list_all (\<lambda>(n, k). length k = 32) keys \<Longrightarrow>
    list_all (\<lambda>(n, k). k = fs_key (world_shade w) \<or> hmac_sha256 k PAIRING_KEY_PROOF_MESSAGE \<noteq>
      hmac_sha256 (fs_key (world_shade w)) PAIRING_KEY_PROOF_MESSAGE) keys \<Longrightarrow>
    \<exists>w'. probe ctr (fake_env sched ctr) address keys w =
      (Inr (map_option (\<lambda>(n, k). (n, status_of (world_shade w)))
        (find (\<lambda>(n, k). k = fs_key (world_shade w)) keys)), w') \<and>
      world_shade w' = world_shade w"
proof (induction keys arbitrary: w)
  case Nil
  then show ?case by simp
next
  case (Cons nk keys)
  obtain n k where nk: "nk = (n, k)" by (cases nk)
  show ?case
  proof (cases "k = fs_key (world_shade w)")
    case True
    from probe_own_key [OF assms Cons.prems(1,2), of sched address n keys] show ?thesis by (simp add: nk True)
  next
    case False
    have "length (fs_proof_key (world_shade w)) = 32" using Cons.prems(1,2) by (simp add: valid_world_def valid_shade_def)
    from probe_other_key [OF Cons.prems(1) this, of k ctr sched address n keys] Cons.prems(2-4) False
    obtain w1 where w1: "probe ctr (fake_env sched ctr) address (nk # keys) w = probe ctr (fake_env sched ctr) address keys w1"
      "valid_world w1" "world_shade w1 = world_shade w" by (auto simp: nk)
    have "\<exists>w'. probe ctr (fake_env sched ctr) address keys w1 =
      (Inr (map_option (\<lambda>(n, k). (n, status_of (world_shade w1)))
        (find (\<lambda>(n, k). k = fs_key (world_shade w1)) keys)), w') \<and> world_shade w' = world_shade w1"
      using Cons.prems w1(2,3) by (intro Cons.IH) simp_all
    then show ?thesis using w1 False by (simp add: nk)
  qed
qed

subsection \<open>Properties\<close>

text \<open>C12: With keys read from well-formed key files, probing the fake shade through the whole stack
  returns the name of the first key that is the shade's, with the shade's status, and \<open>None\<close> when
  no key is; the shade is left exactly as it was. The keys that differ from the shade's are assumed
  not to have the same proof.\<close>

theorem probe_finds_key:
  assumes "ctr_cipher ctr" and "valid_world w"
    and "fs_proof_key (world_shade w) = fs_key (world_shade w)"
    and "keys \<noteq> []" and "distinct (map fst keys)" and "list_all (\<lambda>(n, k). length k = 32) keys"
    and "list_all (\<lambda>(n, k). k = fs_key (world_shade w) \<or> hmac_sha256 k PAIRING_KEY_PROOF_MESSAGE \<noteq>
      hmac_sha256 (fs_key (world_shade w)) PAIRING_KEY_PROOF_MESSAGE) keys"
    and "list_all is_space ws"
  shows "load_keys None (Some (map (\<lambda>(n, k). (n, hex_text k @ ws)) keys)) = Inr keys \<and>
    (\<exists>w'. probe ctr (fake_env sched ctr) address keys w =
      (Inr (map_option (\<lambda>(n, k). (n, fake_status (10 * fs_position (world_shade w)) (fs_battery (world_shade w))))
        (find (\<lambda>(n, k). k = fs_key (world_shade w)) keys)), w') \<and>
      world_shade w' = world_shade w)"
  using load_key_files [OF assms(4-6,8)] probe_fake [OF assms(1-3,6,7), of sched address]
  by (simp add: status_of_def mult.commute)

theorem probe_finds_key_witness:
  "\<exists>w'. probe xor_cipher (fake_env next_turn xor_cipher) ''AA'' [(''left'', replicate 32 7)] example_world =
     (Inr (Some (''left'', fake_status 200 80)), w') \<and> fs_set_position_calls (world_shade w') = 0"
proof -
  note sh = example_world_shade
  from probe_finds_key [OF ctr_cipher_xor_cipher, of example_world "[(''left'', replicate 32 7)]" "[]" next_turn "''AA''"]
  show ?thesis using example_world by (auto simp: sh example_shade_def)
qed

text \<open>C13: The gate check, when it ends with an exit code: 2 exactly when no shade is in range, 0
  exactly when there is one and every shade in range, the strongest signal first, authenticated with
  one of the loaded keys, and 1 otherwise. The log names the loaded keys, has one line for each shade
  in range, in that order, and ends with the pass or with the number of shades without a line that
  says they authenticated.\<close>

theorem gate_exit_code:
  assumes "load_keys keys_json key_files = Inr keys" and "scan w = (Inr discovered, w1)"
    and "shades = sort_key (\<lambda>(address, a). - signal a) (filter (\<lambda>(address, a). advertises_shade a) discovered)"
    and "gate_check ctr env scan keys_json key_files w = (Gate_exit code, log, w')"
  shows "code \<in> {0, 1, 2} \<and> (code = 2 \<longleftrightarrow> shades = []) \<and>
    (code = 0 \<longleftrightarrow> shades \<noteq> [] \<and> all_authenticated ctr env keys shades w1) \<and>
    (\<exists>lines. map line_label lines = map shade_label shades \<and>
       (\<forall>x \<in> set lines. is_Incomplete x \<or> is_No_key x \<or> is_Authenticated_by x) \<and>
       log = [Loaded (length keys) (map fst keys), Scanning] @
         (if shades = [] then [None_seen]
          else [Found (length shades)] @ lines @
            [if code = 0 then Result_pass
             else Result_failed (int (length (filter (\<lambda>line. \<not> is_Authenticated_by line) lines)))]))"
proof (cases "shades = []")
  case True
  then have "filter (\<lambda>(address, a). advertises_shade a) discovered = []" using assms(3) by (metis set_sort set_empty)
  then show ?thesis using assms(1,2,4) True by (auto simp: gate_check_def gate_run_def logs_def)
next
  case False
  then have ne: "filter (\<lambda>(address, a). advertises_shade a) discovered \<noteq> []" using assms(3) by auto
  obtain ls where log: "log = [Loaded (length keys) (map fst keys), Scanning] @ ls"
    and run: "gate_run ctr env keys discovered w1 = (Inr code, ls, w')"
    using assms(1,2,4)
    by (auto simp: gate_check_def logs_eq split: prod.splits sum.splits dest: sym [of _ "gate_run _ _ _ _ _"])
  obtain p lines where p: "gate_shades ctr env keys shades 0 w1 = (Inr p, lines, w')"
    and ls: "ls = [Found (length shades)] @ lines @ [if p \<noteq> 0 then Result_failed p else Result_pass]"
    and code: "code = (if p \<noteq> 0 then 1 else 0)"
    using run ne assms(3)
    by (auto simp: gate_run_def logs_eq Let_def split: prod.splits sum.splits if_split_asm)
  from gate_shades_problems [OF p] code False log ls show ?thesis by auto
qed

theorem gate_exit_code_witness:
  "\<exists>w'. gate_check xor_cipher (\<lambda>d. fake_env next_turn xor_cipher)
      (\<lambda>w. (Inr [(''AA'', \<lparr>ad_device = (), ad_local_name = Some ''RollerShade'', ad_device_name = None, ad_rssi = Some (-60)\<rparr>)], w))
      None (Some [(''left'', hex_text (replicate 32 7))]) example_world =
      (Gate_exit 0,
       [Loaded 1 [''left''], Scanning, Found 1, Authenticated_by ''RollerShade [AA] -60dBm'' ''left'' 20 80, Result_pass], w') \<and>
    all_authenticated xor_cipher (\<lambda>d. fake_env next_turn xor_cipher) [(''left'', replicate 32 7)]
      [(''AA'', \<lparr>ad_device = (), ad_local_name = Some ''RollerShade'', ad_device_name = None, ad_rssi = Some (-60)\<rparr>)]
      example_world"
proof -
  let ?ad = "\<lparr>ad_device = (), ad_local_name = Some ''RollerShade'', ad_device_name = None, ad_rssi = Some (-60)\<rparr>"
  let ?scan = "\<lambda>w. (Inr [(''AA'', ?ad)], w)"
  let ?log = "[Loaded 1 [''left''], Scanning, Found 1, Authenticated_by ''RollerShade [AA] -60dBm'' ''left'' 20 80, Result_pass]"
  have keys: "load_keys None (Some [(''left'', hex_text (replicate 32 7))]) = Inr [(''left'', replicate 32 7)]"
    using load_key_files [of "[(''left'', replicate 32 7)]" "[]"] by simp
  have sorted: "[(''AA'', ?ad)] = sort_key (\<lambda>(address, a). - signal a)
      (filter (\<lambda>(address, a). advertises_shade a) [(''AA'', ?ad)])"
    by (simp add: advertises_shade_def advert_name_def SHADE_NAME_PREFIX_def)
  have label: "shade_label (''AA'', ?ad) = ''RollerShade [AA] -60dBm''"
    by (simp add: shade_label_def advert_name_def) code_simp
  have percent: "position_percent (status_of example_shade) = Inr 20"
    using status_of_percent [of example_shade] example_world(1)
    by (simp add: valid_world_def example_world_shade) (simp add: example_shade_def)
  have battery: "battery_percent (status_of example_shade) = 80"
    by (simp add: status_of_def fake_status_def example_shade_def)
  obtain w' where w': "probe xor_cipher (fake_env next_turn xor_cipher) ''AA'' [(''left'', replicate 32 7)] example_world =
      (Inr (Some (''left'', status_of example_shade)), w')"
    using probe_own_key [OF ctr_cipher_xor_cipher example_world(1), of next_turn "''AA''" "''left''" "[]"] example_world
      example_world_shade by auto
  have check: "gate_check xor_cipher (\<lambda>d. fake_env next_turn xor_cipher) ?scan None
      (Some [(''left'', hex_text (replicate 32 7))]) example_world = (Gate_exit 0, ?log, w')"
    using w' by (simp add: gate_check_def gate_run_def logs_def keys label percent battery sorted [symmetric] del: prefix_Cons)
      (simp add: advertises_shade_def advert_name_def SHADE_NAME_PREFIX_def)
  from gate_exit_code [OF keys refl sorted check] check show ?thesis by blast
qed

end
