(* ===== verification/Tilt_Cloud.thy ===== *)
theory Tilt_Cloud
  imports Json
begin

text \<open>
  \<open>tilt_cloud.py\<close>: logging in to Auth0, reading the Tilt store and extracting every keyed device.

  The network is the parameter \<open>urlopen\<close>: the reply to a request, with the body already decoded
  by \<open>json.loads\<close>, or what \<open>urllib\<close> raised. Characters of the messages outside Latin-1 (dashes)
  are written \<open>--\<close>.
\<close>

subsection \<open>Requests\<close>

record http_request =
  rq_url :: string
  rq_data :: "json option"
  rq_headers :: "(string \<times> string) list"
  rq_method :: string

text \<open>
  An \<open>HTTPError\<close> has a code, a reason and a body, \<open>None\<close> when reading or decoding it raises
  \<open>ValueError\<close> or \<open>OSError\<close>. When reading it raises anything else, which no handler catches, the
  answer is that exception (\<open>Http_exception\<close>).
\<close>

datatype http_error =
    HTTP_error int string "json option"
  | URL_error string
  | Http_exception string

type_synonym urlopen = "http_request \<Rightarrow> http_error + json"

definition AUTH0_TOKEN_URL :: string where
  "AUTH0_TOKEN_URL = ''https://mysmartblinds.auth0.com/oauth/token''"

definition TILT_STORE_URL :: string where
  "TILT_STORE_URL = ''https://api.tiltsmarthome.com/v2/store/tilt''"

definition TILT_CLIENT_ID :: string where
  "TILT_CLIENT_ID = ''Owjr4yOJ2HauKaQhBpICgmfTf7naJsRd''"

definition TILT_AUDIENCE :: string where
  "TILT_AUDIENCE = ''Tilt Settings Storage API''"

definition TILT_REALM :: string where
  "TILT_REALM = ''Username-Password-Authentication''"

definition TILT_SCOPE :: string where
  "TILT_SCOPE = ''openid profile email offline_access''"

definition PASSWORD_REALM_GRANT :: string where
  "PASSWORD_REALM_GRANT = ''http://auth0.com/oauth/grant-type/password-realm''"

definition post_json :: "urlopen \<Rightarrow> string \<Rightarrow> json \<Rightarrow> http_error + json" where
  "post_json urlopen url payload =
     urlopen \<lparr>rq_url = url, rq_data = Some payload,
       rq_headers = [(''content-type'', ''application/json''), (''accept'', ''application/json'')],
       rq_method = ''POST''\<rparr>"

definition get_json :: "urlopen \<Rightarrow> string \<Rightarrow> json \<Rightarrow> http_error + json" where
  "get_json urlopen url bearer =
     urlopen \<lparr>rq_url = url, rq_data = None,
       rq_headers = [(''authorization'', ''Bearer '' @ py_str bearer), (''accept'', ''application/json'')],
       rq_method = ''GET''\<rparr>"

subsection \<open>Logging in\<close>

text \<open>\<open>code in {"too_many_attempts", "access_denied"}\<close> hashes the code first.\<close>

definition is_blocked_code :: "json \<Rightarrow> bool attempted" where
  "is_blocked_code code =
     (case code of
        J_list _ \<Rightarrow> Inl Type_error
      | J_obj _ \<Rightarrow> Inl Type_error
      | _ \<Rightarrow> Inr (code = J_str ''too_many_attempts'' \<or> code = J_str ''access_denied''))"

definition py_get_default :: "string \<Rightarrow> json \<Rightarrow> json \<Rightarrow> json attempted" where
  "py_get_default k d j =
     (case j of
        J_obj kvs \<Rightarrow> Inr (case map_of kvs k of None \<Rightarrow> d | Some v \<Rightarrow> v)
      | _ \<Rightarrow> Inl Attribute_error)"

definition auth0_failure :: "int \<Rightarrow> string \<Rightarrow> json option \<Rightarrow> string attempted" where
  "auth0_failure status reason decoded =
     (let body = (case decoded of None \<Rightarrow> J_obj [] | Some b \<Rightarrow> b)
      in rbind (py_get_default ''error'' (J_str []) body) (\<lambda>code.
         rbind (py_get ''error_description'' body) (\<lambda>d.
         let description = py_str (py_or d (J_str reason))
         in if code = J_str ''invalid_grant''
            then Inr (''Auth0 rejected the email/password: '' @ description)
            else if code = J_str ''mfa_required''
            then Inr (''This account has multi-factor authentication enabled, which the '' @
                   ''password grant cannot complete. Capture the access_token from the '' @
                   ''app instead and pass it to fetch_devices(access_token=...).'')
            else rbind (is_blocked_code code) (\<lambda>blocked.
              if blocked
              then Inr (''Auth0 blocked the login ('' @ py_str code @ ''): '' @ description @
                     ''. Its attack protection '' @
                     ''trips on password grants from an unfamiliar IP; clear the block from the '' @
                     ''Tilt app on the same network, or pass an access_token captured from it.'')
              else Inr (''Auth0 login failed ('' @ str_of_int status @ '' '' @
                     py_str (py_or code (J_str reason)) @ ''): '' @ description)))))"

definition token_payload :: "string \<Rightarrow> string \<Rightarrow> json" where
  "token_payload username password =
     J_obj
      [(''grant_type'', J_str PASSWORD_REALM_GRANT),
       (''client_id'', J_str TILT_CLIENT_ID),
       (''username'', J_str username),
       (''password'', J_str password),
       (''realm'', J_str TILT_REALM),
       (''scope'', J_str TILT_SCOPE),
       (''audience'', J_str TILT_AUDIENCE)]"

definition login :: "urlopen \<Rightarrow> string \<Rightarrow> string \<Rightarrow> json attempted" where
  "login urlopen username password =
     (case post_json urlopen AUTH0_TOKEN_URL (token_payload username password) of
        Inr tokens \<Rightarrow> Inr tokens
      | Inl (HTTP_error status reason body) \<Rightarrow>
          rbind (auth0_failure status reason body) (\<lambda>message. Inl (Tilt_cloud_error message))
      | Inl (URL_error reason) \<Rightarrow> Inl (Tilt_cloud_error (''Could not reach Auth0: '' @ reason))
      | Inl (Http_exception e) \<Rightarrow> Inl (Other_exception e))"

subsection \<open>Reading the store\<close>

definition fetch_store :: "urlopen \<Rightarrow> json \<Rightarrow> json attempted" where
  "fetch_store urlopen access_token =
     (case get_json urlopen TILT_STORE_URL access_token of
        Inl (HTTP_error status reason _) \<Rightarrow>
          (if status = 401
           then Inl (Tilt_cloud_error
             (''The Tilt store rejected this token (401). An id_token will always '' @
              ''401 here -- use the access_token, and make sure it was minted for '' @
              ''the '' @ repr_string TILT_AUDIENCE @ '' audience.''))
           else Inl (Tilt_cloud_error
             (''Tilt store request failed ('' @ str_of_int status @ '' '' @ reason @ '').'')))
      | Inl (URL_error reason) \<Rightarrow>
          Inl (Tilt_cloud_error (''Could not reach the Tilt store: '' @ reason))
      | Inl (Http_exception e) \<Rightarrow> Inl (Other_exception e)
      | Inr store \<Rightarrow>
          (case store of
             J_obj _ \<Rightarrow> Inr store
           | _ \<Rightarrow> Inl (Tilt_cloud_error ''Tilt store returned an unexpected document.'')))"

subsection \<open>Extracting devices\<close>

record tilt_device =
  td_name :: json
  td_mac :: string
  td_key :: string
  td_room :: json
  td_kind :: string

definition as_dict :: "tilt_device \<Rightarrow> json" where
  "as_dict d =
     J_obj [(''name'', td_name d), (''mac'', J_str (td_mac d)), (''key'', J_str (td_key d)),
       (''room'', td_room d), (''kind'', J_str (td_kind d))]"

definition device_of_entry :: "json \<Rightarrow> string \<Rightarrow> json \<Rightarrow> tilt_device list attempted" where
  "device_of_entry room_name kind entry =
     rbind (py_get ''pairingKey'' entry) (\<lambda>key.
     rbind (py_get ''id'' entry) (\<lambda>mac.
       if \<not> truthy key \<or> \<not> truthy mac then Inr []
       else rbind (py_get ''name'' entry) (\<lambda>name.
         Inr [\<lparr>td_name = py_or name mac, td_mac = upper (py_str mac), td_key = lower (py_str key),
               td_room = room_name, td_kind = kind\<rparr>])))"

definition devices_of_group :: "json \<Rightarrow> string \<times> json \<Rightarrow> tilt_device list attempted" where
  "devices_of_group room_name g =
     rbind (py_iter (snd g)) (\<lambda>entries.
     rbind (mapM (device_of_entry room_name (fst g)) entries) (\<lambda>devices. Inr (concat devices)))"

definition devices_of_room :: "bool \<Rightarrow> json \<Rightarrow> tilt_device list attempted" where
  "devices_of_room include_bridges room =
     rbind (py_get ''name'' room) (\<lambda>room_name.
     rbind (py_get ''rollerShades'' room) (\<lambda>shades.
     rbind (if include_bridges
            then rbind (py_get ''bridges'' room) (\<lambda>bridges. Inr [(''bridge'', py_or bridges (J_list []))])
            else Inr []) (\<lambda>more.
     rbind (mapM (devices_of_group room_name) ((''roller_shade'', py_or shades (J_list [])) # more)) (\<lambda>devices.
       Inr (concat devices)))))"

definition parse_store :: "bool \<Rightarrow> json \<Rightarrow> tilt_device list attempted" where
  "parse_store include_bridges store =
     rbind (py_get ''rooms'' store) (\<lambda>rooms.
     rbind (py_iter (py_or rooms (J_list []))) (\<lambda>rooms.
     rbind (mapM (devices_of_room include_bridges) rooms) (\<lambda>devices. Inr (concat devices))))"

definition resolve_token ::
  "urlopen \<Rightarrow> string option \<Rightarrow> string option \<Rightarrow> string option \<Rightarrow> json attempted" where
  "resolve_token urlopen username password access_token =
     (case access_token of
        Some token \<Rightarrow> Inr (J_str token)
      | None \<Rightarrow>
          (case (username, password) of
             (Some user, Some secret) \<Rightarrow>
               (if user = []
                then Inl (Tilt_cloud_error ''Provide either username+password or access_token.'')
                else rbind (login urlopen user secret) (\<lambda>tokens.
                     rbind (py_get ''access_token'' tokens) (\<lambda>token.
                       if \<not> truthy token
                       then Inl (Tilt_cloud_error ''Auth0 login returned no access_token.'')
                       else Inr token)))
           | _ \<Rightarrow> Inl (Tilt_cloud_error ''Provide either username+password or access_token.'')))"

definition fetch_devices ::
  "urlopen \<Rightarrow> string option \<Rightarrow> string option \<Rightarrow> string option \<Rightarrow> bool \<Rightarrow> tilt_device list attempted" where
  "fetch_devices urlopen username password access_token include_bridges =
     rbind (resolve_token urlopen username password access_token) (\<lambda>token.
     rbind (fetch_store urlopen token) (parse_store include_bridges))"

subsection \<open>The report of \<open>--debug\<close>\<close>

definition NL :: string where
  "NL = [char_of (10 :: nat)]"

definition sorted_keys :: "json \<Rightarrow> string attempted" where
  "sorted_keys j =
     (case j of
        J_obj kvs \<Rightarrow> Inr (py_repr (J_list (map J_str (sort (map fst kvs)))))
      | _ \<Rightarrow> Inl Type_error)"

definition entry_line :: "json \<Rightarrow> string attempted" where
  "entry_line entry =
     rbind (py_get ''pairingKey'' entry) (\<lambda>k.
     rbind (py_get ''name'' entry) (\<lambda>name.
     rbind (py_get ''id'' entry) (\<lambda>mac.
     rbind (py_len (py_or k (J_str []))) (\<lambda>n.
       Inr (''    '' @ py_repr name @ '' id='' @ py_str mac @ '' key_len='' @ str_of_int (int n))))))"

definition room_lines :: "json \<Rightarrow> string list attempted" where
  "room_lines room =
     rbind (py_get ''rollerShades'' room) (\<lambda>s.
     rbind (py_get ''bridges'' room) (\<lambda>b.
     rbind (py_get ''name'' room) (\<lambda>name.
     let shades = py_or s (J_list []); bridges = py_or b (J_list [])
     in rbind (py_len shades) (\<lambda>ns.
        rbind (py_len bridges) (\<lambda>nb.
        rbind (py_iter shades) (\<lambda>es.
        rbind (py_iter bridges) (\<lambda>eb.
        rbind (mapM entry_line (es @ eb)) (\<lambda>ls.
          Inr ((''  '' @ py_repr name @ '': '' @ str_of_int (int ns) @ '' shade(s), '' @
                str_of_int (int nb) @ '' bridge(s)'') # ls)))))))))"

definition store_report :: "json \<Rightarrow> string list attempted" where
  "store_report store =
     rbind (py_get ''rooms'' store) (\<lambda>r.
     let rooms = py_or r (J_list [])
     in rbind (sorted_keys store) (\<lambda>ks.
        rbind (py_len rooms) (\<lambda>n.
        rbind (py_iter rooms) (\<lambda>rs.
        rbind (mapM room_lines rs) (\<lambda>ls.
          Inr ([NL @ ''store top-level keys: '' @ ks, ''rooms: '' @ str_of_int (int n)] @ concat ls))))))"

text \<open>
  \<open>diagnose\<close>. A token response that is not an object raises before anything is reported; the
  model says \<open>TypeError\<close> where Python raises that or \<open>AttributeError\<close>.
\<close>

definition diagnose ::
  "urlopen \<Rightarrow> string option \<Rightarrow> string option \<Rightarrow> string option \<Rightarrow> string attempted" where
  "diagnose urlopen username password access_token =
     (case access_token of
        Some token \<Rightarrow>
          rbind (fetch_store urlopen (J_str token)) (\<lambda>store.
          rbind (store_report store) (\<lambda>ls. Inr (join NL ls)))
      | None \<Rightarrow>
          (case (username, password) of
             (Some user, Some secret) \<Rightarrow>
               (if user = []
                then Inl (Tilt_cloud_error ''Provide either username+password or access_token.'')
                else rbind (login urlopen user secret) (\<lambda>tokens.
                     rbind (sorted_keys tokens) (\<lambda>ks.
                     rbind (py_get ''token_type'' tokens) (\<lambda>ty.
                     rbind (py_get ''expires_in'' tokens) (\<lambda>ex.
                     rbind (py_get ''scope'' tokens) (\<lambda>sc.
                     rbind (py_get ''access_token'' tokens) (\<lambda>token.
                     let ls = [''token keys: '' @ ks, ''token_type: '' @ py_str ty,
                           ''expires_in: '' @ py_str ex, ''scope: '' @ py_str sc]
                     in if \<not> truthy token
                        then Inr (join NL (ls @
                          [NL @ ''No access_token in the response -- cannot read the store.'']))
                        else rbind (fetch_store urlopen token) (\<lambda>store.
                             rbind (store_report store) (\<lambda>rs. Inr (join NL (ls @ rs)))))))))))
           | _ \<Rightarrow> Inl (Tilt_cloud_error ''Provide either username+password or access_token.'')))"

subsection \<open>Specification: what an account exports\<close>

text \<open>
  A store as the backend documents it: rooms of shades and bridges whose \<open>id\<close>, \<open>name\<close> and
  \<open>pairingKey\<close> may each be missing.
\<close>

record cloud_entry =
  ce_id :: "string option"
  ce_name :: "string option"
  ce_key :: "string option"

record cloud_room =
  cr_name :: string
  cr_shades :: "cloud_entry list"
  cr_bridges :: "cloud_entry list"

definition optional_field :: "string \<Rightarrow> string option \<Rightarrow> (string \<times> json) list" where
  "optional_field k v = (case v of None \<Rightarrow> [] | Some s \<Rightarrow> [(k, J_str s)])"

definition json_of_entry :: "cloud_entry \<Rightarrow> json" where
  "json_of_entry e =
     J_obj (optional_field ''id'' (ce_id e) @ optional_field ''name'' (ce_name e) @
            optional_field ''pairingKey'' (ce_key e))"

definition json_of_room :: "cloud_room \<Rightarrow> json" where
  "json_of_room r =
     J_obj [(''name'', J_str (cr_name r)), (''rollerShades'', J_list (map json_of_entry (cr_shades r))),
       (''bridges'', J_list (map json_of_entry (cr_bridges r)))]"

definition json_of_store :: "(string \<times> json) list \<Rightarrow> cloud_room list \<Rightarrow> json" where
  "json_of_store other rooms = J_obj (other @ [(''rooms'', J_list (map json_of_room rooms))])"

definition given :: "string option \<Rightarrow> string" where
  "given v = (case v of None \<Rightarrow> [] | Some s \<Rightarrow> s)"

definition exported :: "string \<Rightarrow> string \<Rightarrow> cloud_entry \<Rightarrow> tilt_device" where
  "exported room kind e =
     \<lparr>td_name = J_str (if given (ce_name e) = [] then given (ce_id e) else given (ce_name e)),
      td_mac = upper (given (ce_id e)), td_key = lower (given (ce_key e)),
      td_room = J_str room, td_kind = kind\<rparr>"

definition export_room :: "bool \<Rightarrow> cloud_room \<Rightarrow> tilt_device list" where
  "export_room include_bridges r =
     map (exported (cr_name r) ''roller_shade'')
       (filter (\<lambda>e. given (ce_key e) \<noteq> [] \<and> given (ce_id e) \<noteq> []) (cr_shades r)) @
     (if include_bridges
      then map (exported (cr_name r) ''bridge'')
        (filter (\<lambda>e. given (ce_key e) \<noteq> [] \<and> given (ce_id e) \<noteq> []) (cr_bridges r))
      else [])"

definition export :: "bool \<Rightarrow> cloud_room list \<Rightarrow> tilt_device list" where
  "export include_bridges rooms = concat (map (export_room include_bridges) rooms)"

lemma device_of_json_entry:
  "device_of_entry (J_str room) kind (json_of_entry e) =
     Inr (if given (ce_key e) \<noteq> [] \<and> given (ce_id e) \<noteq> [] then [exported room kind e] else [])"
  by (cases "ce_id e"; cases "ce_key e"; cases "ce_name e")
    (auto simp: device_of_entry_def json_of_entry_def optional_field_def given_def exported_def py_or_def)

lemma devices_of_json_group:
  "devices_of_group (J_str room) (kind, py_or (J_list (map json_of_entry es)) (J_list [])) =
     Inr (map (exported room kind) (filter (\<lambda>e. given (ce_key e) \<noteq> [] \<and> given (ce_id e) \<noteq> []) es))"
  by (simp add: devices_of_group_def py_or_list mapM_map device_of_json_entry mapM_pure concat_if_singleton)

lemma devices_of_json_room: "devices_of_room incl (json_of_room r) = Inr (export_room incl r)"
  by (simp add: devices_of_room_def json_of_room_def devices_of_json_group export_room_def)

lemma parse_json_store:
  "''rooms'' \<notin> fst ` set other \<Longrightarrow> parse_store incl (json_of_store other rooms) = Inr (export incl rooms)"
  by (simp add: parse_store_def json_of_store_def map_add_def map_of_eq_None_iff [THEN iffD2] py_or_list
      mapM_map devices_of_json_room mapM_pure export_def)

subsection \<open>What any store exports\<close>

text \<open>The entries of a store document, in order, with the room's name and the kind of their list.\<close>

definition field :: "string \<Rightarrow> json \<Rightarrow> json" where
  "field k j = (case j of J_obj kvs \<Rightarrow> (case map_of kvs k of None \<Rightarrow> J_null | Some v \<Rightarrow> v) | _ \<Rightarrow> J_null)"

definition items :: "json \<Rightarrow> json list" where
  "items j = (case j of J_list xs \<Rightarrow> xs | _ \<Rightarrow> [])"

definition room_entries :: "bool \<Rightarrow> json \<Rightarrow> (json \<times> string \<times> json) list" where
  "room_entries incl room =
     map (\<lambda>e. (field ''name'' room, ''roller_shade'', e)) (items (field ''rollerShades'' room)) @
     (if incl then map (\<lambda>e. (field ''name'' room, ''bridge'', e)) (items (field ''bridges'' room)) else [])"

definition store_entries :: "bool \<Rightarrow> json \<Rightarrow> (json \<times> string \<times> json) list" where
  "store_entries incl store = concat (map (room_entries incl) (items (field ''rooms'' store)))"

definition keyed :: "json \<times> string \<times> json \<Rightarrow> bool" where
  "keyed x \<longleftrightarrow> (case x of (_, _, e) \<Rightarrow> truthy (field ''pairingKey'' e) \<and> truthy (field ''id'' e))"

definition entry_device :: "json \<times> string \<times> json \<Rightarrow> tilt_device" where
  "entry_device x =
     (case x of (room, kind, e) \<Rightarrow>
        \<lparr>td_name = (if truthy (field ''name'' e) then field ''name'' e else field ''id'' e),
         td_mac = upper (py_str (field ''id'' e)), td_key = lower (py_str (field ''pairingKey'' e)),
         td_room = room, td_kind = kind\<rparr>)"

definition keyed_devices :: "(json \<times> string \<times> json) list \<Rightarrow> tilt_device list" where
  "keyed_devices es = map entry_device (filter keyed es)"

lemma keyed_devices_Nil [simp]: "keyed_devices [] = []"
  by (simp add: keyed_devices_def)

lemma keyed_devices_append [simp]: "keyed_devices (xs @ ys) = keyed_devices xs @ keyed_devices ys"
  by (simp add: keyed_devices_def)

lemma keyed_devices_concat: "keyed_devices (concat xss) = concat (map keyed_devices xss)"
  by (induction xss) (simp_all add: keyed_devices_def)

lemma py_get_field: "py_get k j = Inr v \<Longrightarrow> v = field k j"
  by (cases j) (auto simp: py_get_def field_def)

lemma mapM_concat:
  assumes "mapM f xs = Inr yss" and "\<And>x ys. x \<in> set xs \<Longrightarrow> f x = Inr ys \<Longrightarrow> ys = g x"
  shows "concat yss = concat (map g xs)"
  using assms
proof (induction xs arbitrary: yss)
  case Nil
  then show ?case by simp
next
  case (Cons x xs)
  from Cons.prems(1) obtain ys zss where f: "f x = Inr ys" "mapM f xs = Inr zss" and yss: "yss = ys # zss"
    by (auto simp: rbind_eq_Inr)
  have "concat zss = concat (map g xs)" using Cons.prems(2) by (intro Cons.IH [OF f(2)]) simp
  with Cons.prems(2) [of x ys] f(1) yss show ?case by simp
qed

text \<open>What the code iterates over is a list, when reading its elements succeeds.\<close>

lemma iterated_items:
  assumes "py_iter (py_or v (J_list [])) = Inr xs" and "mapM f xs = Inr yss"
    and "\<And>s. f (J_str s) = Inl Attribute_error"
  shows "xs = items v"
proof -
  have head: "xs \<noteq> J_str s # zs" for s zs using assms(2,3) by auto
  have strings: "xs \<noteq> map (\<lambda>c. J_str [c]) s \<or> s = []" "xs \<noteq> map (\<lambda>kv. J_str (fst kv)) kvs \<or> kvs = []"
    for s :: string and kvs :: "(string \<times> json) list"
    using head by (cases s; auto; fail) (cases kvs; use head in auto)
  show ?thesis using assms(1) strings
    by (cases v) (auto simp: py_or_def py_iter_def items_def truthy_def split: if_split_asm)
qed

lemma device_of_entry_keyed:
  "device_of_entry room kind e = Inr ds \<Longrightarrow> ds = keyed_devices [(room, kind, e)]"
  by (auto simp: device_of_entry_def rbind_eq_Inr keyed_devices_def keyed_def entry_device_def py_or_def
      dest!: py_get_field split: if_split_asm)

lemma device_of_entry_str: "device_of_entry room kind (J_str s) = Inl Attribute_error"
  by (simp add: device_of_entry_def py_get_def)

lemma devices_of_group_keyed:
  assumes "devices_of_group room (kind, py_or v (J_list [])) = Inr ds"
  shows "ds = keyed_devices (map (\<lambda>e. (room, kind, e)) (items v))"
proof -
  from assms obtain xs yss where xs: "py_iter (py_or v (J_list [])) = Inr xs"
    "mapM (device_of_entry room kind) xs = Inr yss" and ds: "ds = concat yss"
    by (auto simp: devices_of_group_def rbind_eq_Inr)
  have "xs = items v" using xs by (rule iterated_items) (rule device_of_entry_str)
  moreover have "concat yss = concat (map (\<lambda>e. keyed_devices [(room, kind, e)]) xs)"
    using xs(2) by (rule mapM_concat) (rule device_of_entry_keyed)
  ultimately show ?thesis
    using keyed_devices_concat [of "map (\<lambda>e. [(room, kind, e)]) (items v)"]
    by (simp add: ds comp_def)
qed

lemma devices_of_room_keyed:
  "devices_of_room incl room = Inr ds \<Longrightarrow> ds = keyed_devices (room_entries incl room)"
  by (auto simp: devices_of_room_def rbind_eq_Inr room_entries_def split: if_split_asm
      dest!: py_get_field devices_of_group_keyed)

lemma devices_of_room_str: "devices_of_room incl (J_str s) = Inl Attribute_error"
  by (simp add: devices_of_room_def py_get_def)

lemma parse_store_keyed:
  assumes "parse_store incl store = Inr ds"
  shows "ds = keyed_devices (store_entries incl store)"
proof -
  from assms obtain xs yss where xs: "py_iter (py_or (field ''rooms'' store) (J_list [])) = Inr xs"
    "mapM (devices_of_room incl) xs = Inr yss" and ds: "ds = concat yss"
    by (auto simp: parse_store_def rbind_eq_Inr dest!: py_get_field)
  have "xs = items (field ''rooms'' store)" using xs by (rule iterated_items) (rule devices_of_room_str)
  moreover have "concat yss = concat (map (\<lambda>r. keyed_devices (room_entries incl r)) xs)"
    using xs(2) by (rule mapM_concat) (rule devices_of_room_keyed)
  ultimately show ?thesis by (simp add: ds store_entries_def keyed_devices_concat comp_def)
qed

text \<open>The fields of an exported device are normalised.\<close>

definition device_ok :: "bool \<Rightarrow> tilt_device \<Rightarrow> bool" where
  "device_ok incl d \<longleftrightarrow>
     upper (td_mac d) = td_mac d \<and> lower (td_key d) = td_key d \<and>
     (td_kind d = ''roller_shade'' \<or> incl \<and> td_kind d = ''bridge'')"

lemma keyed_devices_ok: "list_all (device_ok incl) (keyed_devices (store_entries incl store))"
  by (auto simp: list_all_iff device_ok_def keyed_devices_def entry_device_def store_entries_def room_entries_def
      split: if_split_asm)

lemma resolve_token_login:
  "username \<noteq> [] \<Longrightarrow> urlopen \<lparr>rq_url = AUTH0_TOKEN_URL, rq_data = Some (token_payload username password),
       rq_headers = [(''content-type'', ''application/json''), (''accept'', ''application/json'')],
       rq_method = ''POST''\<rparr> = Inr (J_obj tokens) \<Longrightarrow>
   map_of tokens ''access_token'' = Some token \<Longrightarrow> truthy token \<Longrightarrow>
   resolve_token urlopen (Some username) (Some password) None = Inr token"
  by (simp add: resolve_token_def login_def post_json_def)

lemma fetch_devices_account:
  assumes "username \<noteq> []" and "token \<noteq> []" and "''rooms'' \<notin> fst ` set other"
    and "urlopen \<lparr>rq_url = AUTH0_TOKEN_URL, rq_data = Some (token_payload username password),
       rq_headers = [(''content-type'', ''application/json''), (''accept'', ''application/json'')],
       rq_method = ''POST''\<rparr> = Inr (J_obj tokens)"
    and "map_of tokens ''access_token'' = Some (J_str token)"
    and "urlopen \<lparr>rq_url = TILT_STORE_URL, rq_data = None,
       rq_headers = [(''authorization'', ''Bearer '' @ token), (''accept'', ''application/json'')],
       rq_method = ''GET''\<rparr> = Inr (json_of_store other rooms)"
  shows "fetch_devices urlopen (Some username) (Some password) None incl = Inr (export incl rooms) \<and>
    fetch_devices urlopen u p (Some token) incl = Inr (export incl rooms)"
proof -
  have store: "fetch_store urlopen (J_str token) = Inr (json_of_store other rooms)"
    using assms(6) by (simp add: fetch_store_def get_json_def json_of_store_def)
  show ?thesis
    using resolve_token_login [where urlopen = urlopen, OF assms(1,4,5)] assms(2) store
      parse_json_store [OF assms(3)]
    by (simp add: fetch_devices_def) (simp add: resolve_token_def)
qed

subsection \<open>Properties\<close>

text \<open>C11: When Auth0 answers the password grant for the Tilt audience with an access token and the
  store answers that bearer token, \<open>fetch_devices\<close> returns exactly the export of the store: in
  order, every shade (and bridge, when asked) that has a key and an id, with the MAC in upper case,
  the key in lower case and the id as the name of an unnamed device. Passing that token instead of
  credentials gives the same without a login.\<close>

theorem fetch_devices_exports:
  assumes "username \<noteq> []" and "token \<noteq> []" and "''rooms'' \<notin> fst ` set other"
    and "urlopen \<lparr>rq_url = AUTH0_TOKEN_URL, rq_data = Some (token_payload username password),
       rq_headers = [(''content-type'', ''application/json''), (''accept'', ''application/json'')],
       rq_method = ''POST''\<rparr> = Inr (J_obj tokens)"
    and "map_of tokens ''access_token'' = Some (J_str token)"
    and "urlopen \<lparr>rq_url = TILT_STORE_URL, rq_data = None,
       rq_headers = [(''authorization'', ''Bearer '' @ token), (''accept'', ''application/json'')],
       rq_method = ''GET''\<rparr> = Inr (json_of_store other rooms)"
  shows "fetch_devices urlopen (Some username) (Some password) None incl = Inr (export incl rooms) \<and>
    fetch_devices urlopen u p (Some token) incl = Inr (export incl rooms)"
  using assms by (rule fetch_devices_account)

text \<open>The replies of the witness: one account with a named shade, an unnamed one and a bridge.\<close>

definition example_room :: cloud_room where
  "example_room =
     \<lparr>cr_name = ''Office'',
      cr_shades =
        [\<lparr>ce_id = Some ''aa:01'', ce_name = Some ''Left'', ce_key = Some ''6BE8''\<rparr>,
         \<lparr>ce_id = Some ''aa:02'', ce_name = None, ce_key = Some ''00ff''\<rparr>,
         \<lparr>ce_id = Some ''aa:03'', ce_name = Some ''New'', ce_key = None\<rparr>],
      cr_bridges = [\<lparr>ce_id = Some ''aa:04'', ce_name = Some ''Hub'', ce_key = Some ''11''\<rparr>]\<rparr>"

definition example_urlopen :: urlopen where
  "example_urlopen rq =
     (if rq_method rq = ''POST'' then Inr (J_obj [(''access_token'', J_str ''tok'')])
      else Inr (json_of_store [(''version'', J_int 2)] [example_room]))"

theorem fetch_devices_exports_witness:
  "fetch_devices example_urlopen (Some ''me'') (Some ''pw'') None False =
     Inr [\<lparr>td_name = J_str ''Left'', td_mac = ''AA:01'', td_key = ''6be8'', td_room = J_str ''Office'',
            td_kind = ''roller_shade''\<rparr>,
          \<lparr>td_name = J_str ''aa:02'', td_mac = ''AA:02'', td_key = ''00ff'', td_room = J_str ''Office'',
            td_kind = ''roller_shade''\<rparr>]"
proof -
  have "export False [example_room] =
     [\<lparr>td_name = J_str ''Left'', td_mac = ''AA:01'', td_key = ''6be8'', td_room = J_str ''Office'',
            td_kind = ''roller_shade''\<rparr>,
          \<lparr>td_name = J_str ''aa:02'', td_mac = ''AA:02'', td_key = ''00ff'', td_room = J_str ''Office'',
            td_kind = ''roller_shade''\<rparr>]"
    by code_simp
  then show ?thesis
    using fetch_devices_exports [where urlopen = example_urlopen and username = "''me''" and token = "''tok''"
        and other = "[(''version'', J_int 2)]" and rooms = "[example_room]"
        and tokens = "[(''access_token'', J_str ''tok'')]" and password = "''pw''" and incl = False]
    by (simp add: example_urlopen_def)
qed

text \<open>C37: Whatever document the store returns, if parsing it succeeds then the devices are exactly
  those of its entries with a non-empty key and id, in the order of rooms, lists and entries, shades
  before the bridges of a room and bridges only on request: each has the MAC of its own entry in upper
  case, the key of that entry in lower case, its name or else its id, and its room's name.\<close>

theorem parsed_devices_well_formed:
  assumes "parse_store include_bridges store = Inr devices"
  shows "devices = map entry_device (filter keyed (store_entries include_bridges store)) \<and>
    list_all (device_ok include_bridges) devices"
  using parse_store_keyed [OF assms] keyed_devices_ok [of include_bridges store]
  by (simp add: keyed_devices_def)

theorem parsed_devices_well_formed_witness:
  "map td_mac (map entry_device (filter keyed (store_entries True (json_of_store [] [example_room])))) =
     [''AA:01'', ''AA:02'', ''AA:04'']"
proof -
  have "map td_mac (export True [example_room]) = [''AA:01'', ''AA:02'', ''AA:04'']" by code_simp
  with parsed_devices_well_formed [OF parse_json_store, of "[]" True "[example_room]"] show ?thesis by simp
qed

text \<open>C38: When Auth0 answers with an HTTP error, \<open>login\<close> raises \<open>TiltCloudError\<close> exactly when the
  error body is unreadable or an object whose \<open>error\<close> is a plain value; a body that is not an
  object, or a list or object as its \<open>error\<close>, escapes as another exception. It never returns
  tokens.\<close>

theorem login_http_error_reported:
  assumes "post_json urlopen AUTH0_TOKEN_URL (token_payload username password) =
      Inl (HTTP_error status reason body)"
  shows "((\<exists>message. login urlopen username password = Inl (Tilt_cloud_error message)) \<longleftrightarrow>
      (case body of
         None \<Rightarrow> True
       | Some (J_obj kvs) \<Rightarrow>
           (case map_of kvs ''error'' of Some (J_list _) \<Rightarrow> False | Some (J_obj _) \<Rightarrow> False | _ \<Rightarrow> True)
       | _ \<Rightarrow> False)) \<and>
    (\<exists>e. login urlopen username password = Inl e)"
proof -
  have "(\<exists>m. auth0_failure status reason body = Inr m) \<longleftrightarrow>
      (case body of None \<Rightarrow> True
       | Some (J_obj kvs) \<Rightarrow>
           (case map_of kvs ''error'' of Some (J_list _) \<Rightarrow> False | Some (J_obj _) \<Rightarrow> False | _ \<Rightarrow> True)
       | _ \<Rightarrow> False)"
    by (auto simp: auth0_failure_def py_get_default_def py_get_def is_blocked_code_def Let_def
        split: option.splits json.splits)
  moreover have "auth0_failure status reason body \<noteq> Inl (Tilt_cloud_error m)" for m
    by (auto simp: auth0_failure_def py_get_default_def py_get_def is_blocked_code_def Let_def
        split: option.splits json.splits)
  ultimately show ?thesis
    by (cases "auth0_failure status reason body") (auto simp: login_def assms)
qed

theorem login_http_error_reported_witness:
  "\<exists>m. login (\<lambda>_. Inl (HTTP_error 403 ''Forbidden'' (Some (J_obj [(''error'', J_str ''mfa_required'')]))))
     ''me'' ''pw'' = Inl (Tilt_cloud_error m)"
  using login_http_error_reported [where status = 403 and reason = "''Forbidden''"
      and body = "Some (J_obj [(''error'', J_str ''mfa_required'')])" and username = "''me''" and password = "''pw''"
      and urlopen = "\<lambda>_. Inl (HTTP_error 403 ''Forbidden'' (Some (J_obj [(''error'', J_str ''mfa_required'')])))"]
  by (simp add: post_json_def)

end
