(* ===== verification/Legacy_Blind.thy ===== *)
theory Legacy_Blind
  imports Complex_Main Py_Text
begin

text \<open>
  The legacy MySmartBlinds client: \<open>const.py\<close>, \<open>exceptions.py\<close>, \<open>blind.py\<close>, the filter of
  \<open>scanner.py\<close> and the per-device step of \<open>tools/find_key.py\<close>.

  The BLE client (\<open>bleak\<close>, \<open>bleak_retry_connector\<close>) is the record \<open>motor_env\<close> of calls that may
  raise anything, over a state \<open>'w\<close> of the outside world. An operation of \<open>SmartBlind\<close> takes and
  returns the object's fields and that state.
\<close>

subsection \<open>Constants and exceptions\<close>

definition DEVICE_NAME :: string where
  "DEVICE_NAME = ''SmartBlind_DFU''"

definition KEY_CHAR_HANDLE :: int where
  "KEY_CHAR_HANDLE = 0x001B"

definition SET_CHAR_HANDLE :: int where
  "SET_CHAR_HANDLE = 0x001F"

definition POSITION_MIN :: int where
  "POSITION_MIN = 0"

definition POSITION_MAX :: int where
  "POSITION_MAX = 200"

definition KEY_SCAN_FIRST :: int where
  "KEY_SCAN_FIRST = 0x00"

definition KEY_SCAN_LAST :: int where
  "KEY_SCAN_LAST = 0xFF"

text \<open>The library's exceptions, Python's \<open>ValueError\<close>, any other exception and cancellation.\<close>

datatype blind_error =
    ConnectionFailed string
  | InvalidPosition string
  | KeyNotFound string
  | ValueError string
  | OtherError string
  | Cancelled_error

fun error_text :: "blind_error \<Rightarrow> string" where
  "error_text (ConnectionFailed s) = s"
| "error_text (InvalidPosition s) = s"
| "error_text (KeyNotFound s) = s"
| "error_text (ValueError s) = s"
| "error_text (OtherError s) = s"
| "error_text Cancelled_error = ''''"

subsection \<open>Keys\<close>

text \<open>\<open>bytes(xs)\<close> of integers.\<close>

definition bytes_of_ints :: "int list \<Rightarrow> blind_error + bytes" where
  "bytes_of_ints xs =
     (if list_all (\<lambda>x. 0 \<le> x \<and> x < 256) xs then Inr (map word_of_int xs)
      else Inl (ValueError ''bytes must be in range(0, 256)''))"

text \<open>
  \<open>int(s, 16)\<close> on a string of at most two characters: surrounding white space and one sign are
  accepted; a \<open>0x\<close> prefix or an underscore leaves too few characters to be valid.
\<close>

definition int_base16 :: "string \<Rightarrow> blind_error + int" where
  "int_base16 s =
     (let t = strip s;
          (sign, digits) = (case t of
             c # r \<Rightarrow> if c = CHR ''-'' then (-1, r) else if c = CHR ''+'' then (1, r) else (1, t)
           | [] \<Rightarrow> (1, []))
      in if digits = [] then Inl (ValueError ''invalid literal for int() with base 16'')
         else case hex_value 0 digits of
             None \<Rightarrow> Inl (ValueError ''invalid literal for int() with base 16'')
           | Some v \<Rightarrow> Inr (sign * v))"

fun hex_pairs :: "string \<Rightarrow> blind_error + int list" where
  "hex_pairs [] = Inr []"
| "hex_pairs [c] = rbind (int_base16 [c]) (\<lambda>x. Inr [x])"
| "hex_pairs (c # d # cs) =
     rbind (int_base16 [c, d]) (\<lambda>x. rbind (hex_pairs cs) (\<lambda>xs. Inr (x # xs)))"

datatype key_arg = Key_int int | Key_str string | Key_ints "int list"

fun normalize_key :: "key_arg \<Rightarrow> blind_error + bytes" where
  "normalize_key (Key_int i) = bytes_of_ints [i]"
| "normalize_key (Key_str s) = rbind (hex_pairs s) bytes_of_ints"
| "normalize_key (Key_ints xs) = bytes_of_ints xs"

subsection \<open>The motor\<close>

record 'w motor_env =
  me_establish :: "'w \<Rightarrow> (blind_error + unit) \<times> 'w"
  me_write :: "int \<Rightarrow> bytes \<Rightarrow> 'w \<Rightarrow> (blind_error + unit) \<times> 'w"
  me_disconnect :: "'w \<Rightarrow> (blind_error + unit) \<times> 'w"

record blind =
  bl_address :: string
  bl_key :: bytes
  bl_position :: int

definition blind_new :: "string \<Rightarrow> key_arg \<Rightarrow> blind_error + blind" where
  "blind_new address key =
     rbind (normalize_key key) (\<lambda>k. Inr \<lparr>bl_address = address, bl_key = k, bl_position = 0\<rparr>)"

text \<open>\<open>_write\<close>: the key, then the payload; the \<open>finally\<close> clause disconnects.\<close>

definition write_key_and_payload ::
  "'w motor_env \<Rightarrow> bytes \<Rightarrow> int \<Rightarrow> bytes \<Rightarrow> 'w \<Rightarrow> (blind_error + unit) \<times> 'w" where
  "write_key_and_payload env key handle payload w =
     (case me_write env KEY_CHAR_HANDLE key w of
        (Inl e, w1) \<Rightarrow> (Inl e, w1)
      | (Inr _, w1) \<Rightarrow> me_write env handle payload w1)"

definition blind_write ::
  "'w motor_env \<Rightarrow> blind \<Rightarrow> int \<Rightarrow> bytes \<Rightarrow> 'w \<Rightarrow> (blind_error + unit) \<times> 'w" where
  "blind_write env b handle payload w =
     (case me_establish env w of
        (Inl e, w1) \<Rightarrow>
          (if e = Cancelled_error then (Inl e, w1)
           else (Inl (ConnectionFailed (''Could not connect to '' @ bl_address b @ '': '' @
                   error_text e)), w1))
      | (Inr _, w1) \<Rightarrow>
          (let (r, w2) = write_key_and_payload env (bl_key b) handle payload w1
           in case me_disconnect env w2 of
                (Inl e, w3) \<Rightarrow> (Inl e, w3)
              | (Inr _, w3) \<Rightarrow> (r, w3)))"

definition set_tilt :: "'w motor_env \<Rightarrow> int \<Rightarrow> blind \<times> 'w \<Rightarrow> (blind_error + unit) \<times> blind \<times> 'w" where
  "set_tilt env position s =
     (let (b, w) = s
      in if \<not> (POSITION_MIN \<le> position \<and> position \<le> POSITION_MAX)
         then (Inl (InvalidPosition (str_of_int position @ '' outside '' @ str_of_int POSITION_MIN @
                 ''..'' @ str_of_int POSITION_MAX)), b, w)
         else case blind_write env b SET_CHAR_HANDLE [word_of_int position] w of
             (Inl e, w1) \<Rightarrow> (Inl e, b, w1)
           | (Inr _, w1) \<Rightarrow> (Inr (), b\<lparr>bl_position := position\<rparr>, w1))"

subsection \<open>Percentages\<close>

text \<open>
  A Python \<open>float\<close>: a finite value is a rational number. \<open>double\<close> rounds an exact result to the
  nearest double; what is used of it is that it is monotone, keeps integers below \<open>2 ^ 53\<close> and
  has a relative error of at most \<open>2 ^ -53\<close>.
\<close>

datatype pyfloat = Finite rat | Infinity bool | NaN

definition double_rounding :: "(rat \<Rightarrow> rat) \<Rightarrow> bool" where
  "double_rounding double \<longleftrightarrow>
     mono double \<and> (\<forall>n. \<bar>n\<bar> \<le> 2 ^ 53 \<longrightarrow> double (of_int n) = of_int n) \<and>
     (\<forall>x. \<bar>x\<bar> \<le> 2 ^ 53 \<longrightarrow> \<bar>double x - x\<bar> \<le> \<bar>x\<bar> / 2 ^ 53 + 1 / 2 ^ 1074)"

text \<open>\<open>max(0.0, min(100.0, percent))\<close>: a comparison with a NaN is false, so \<open>min\<close> keeps 100.0.\<close>

fun clamp_percent :: "pyfloat \<Rightarrow> rat" where
  "clamp_percent (Finite x) = max 0 (min 100 x)"
| "clamp_percent (Infinity positive) = (if positive then 100 else 0)"
| "clamp_percent NaN = 100"

definition round_half_even :: "rat \<Rightarrow> int" where
  "round_half_even x =
     (let q = \<lfloor>x\<rfloor>; r = x - of_int q
      in if r < 1 / 2 then q else if 1 / 2 < r then q + 1 else if even q then q else q + 1)"

definition tilt_of_percent :: "(rat \<Rightarrow> rat) \<Rightarrow> pyfloat \<Rightarrow> int" where
  "tilt_of_percent double percent =
     round_half_even (double (double (clamp_percent percent / 100) * of_int POSITION_MAX))"

definition set_tilt_percent ::
  "(rat \<Rightarrow> rat) \<Rightarrow> 'w motor_env \<Rightarrow> pyfloat \<Rightarrow> blind \<times> 'w \<Rightarrow> (blind_error + unit) \<times> blind \<times> 'w" where
  "set_tilt_percent double env percent = set_tilt env (tilt_of_percent double percent)"

subsection \<open>Finding a key\<close>

definition try_candidate ::
  "'w motor_env \<Rightarrow> int \<Rightarrow> blind \<times> 'w \<Rightarrow> (blind_error + unit) \<times> blind \<times> 'w" where
  "try_candidate env candidate s =
     set_tilt env POSITION_MAX ((fst s)\<lparr>bl_key := [word_of_int candidate]\<rparr>, snd s)"

fun keyscan_loop ::
  "'w motor_env \<Rightarrow> int list \<Rightarrow> blind \<times> 'w \<Rightarrow> (blind_error + bytes) \<times> blind \<times> 'w" where
  "keyscan_loop env [] s =
     (Inl (KeyNotFound (''No working key for '' @ bl_address (fst s))), s)"
| "keyscan_loop env (candidate # rest) s =
     (case try_candidate env candidate s of
        (Inl e, s1) \<Rightarrow>
          (case e of ConnectionFailed _ \<Rightarrow> keyscan_loop env rest s1 | _ \<Rightarrow> (Inl e, s1))
      | (Inr _, s1) \<Rightarrow> (Inr (bl_key (fst s1)), s1))"

definition keyscan :: "'w motor_env \<Rightarrow> blind \<times> 'w \<Rightarrow> (blind_error + bytes) \<times> blind \<times> 'w" where
  "keyscan env s = keyscan_loop env [KEY_SCAN_FIRST..KEY_SCAN_LAST] s"

text \<open>The step of \<open>tools/find_key.py\<close>: the key of a device, \<open>None\<close> when the scan found none.\<close>

definition keyscan_device :: "'w motor_env \<Rightarrow> string \<Rightarrow> 'w \<Rightarrow> (blind_error + bytes option) \<times> 'w" where
  "keyscan_device env address w =
     (case blind_new address (Key_int 0) of
        Inl e \<Rightarrow> (Inl e, w)
      | Inr b \<Rightarrow>
          (case keyscan env (b, w) of
             (Inl (KeyNotFound _), _, w1) \<Rightarrow> (Inr None, w1)
           | (Inl e, _, w1) \<Rightarrow> (Inl e, w1)
           | (Inr key, _, w1) \<Rightarrow> (Inr (Some key), w1)))"

text \<open>The devices \<open>discover\<close> keeps of those a scan returned.\<close>

definition discover_filter :: "('d \<Rightarrow> string option) \<Rightarrow> 'd list \<Rightarrow> 'd list" where
  "discover_filter name devices =
     filter (\<lambda>d. (case name d of None \<Rightarrow> [] | Some n \<Rightarrow> n) = DEVICE_NAME) devices"

subsection \<open>What a tilt writes\<close>

lemma set_tilt_Inr:
  "set_tilt env p (b, w) = (Inr (), b', w') \<longleftrightarrow>
     0 \<le> p \<and> p \<le> 200 \<and> b' = b\<lparr>bl_position := p\<rparr> \<and>
     (\<exists>w1 w2 w3. me_establish env w = (Inr (), w1) \<and>
        me_write env 0x1B (bl_key b) w1 = (Inr (), w2) \<and>
        me_write env 0x1F [word_of_int p] w2 = (Inr (), w3) \<and>
        me_disconnect env w3 = (Inr (), w'))"
  by (auto simp: set_tilt_def blind_write_def write_key_and_payload_def POSITION_MIN_def POSITION_MAX_def
      KEY_CHAR_HANDLE_def SET_CHAR_HANDLE_def Let_def split: if_split_asm prod.splits sum.splits)

lemma set_tilt_fields:
  "fst (snd (set_tilt env p (b, w))) =
     (if fst (set_tilt env p (b, w)) = Inr () then b\<lparr>bl_position := p\<rparr> else b)"
  by (auto simp: set_tilt_def Let_def split: prod.splits sum.splits)

subsection \<open>Scanning\<close>

text \<open>A run of candidates the motor could not be connected to with.\<close>

fun all_unreachable :: "'w motor_env \<Rightarrow> int list \<Rightarrow> blind \<times> 'w \<Rightarrow> (blind \<times> 'w) option" where
  "all_unreachable env [] s = Some s"
| "all_unreachable env (c # cs) s =
     (case try_candidate env c s of
        (Inl (ConnectionFailed _), s1) \<Rightarrow> all_unreachable env cs s1
      | _ \<Rightarrow> None)"

lemma keyscan_loop_cases:
  "case keyscan_loop env cs s of
     (Inr key, s') \<Rightarrow> \<exists>pre c post s1. cs = pre @ c # post \<and> all_unreachable env pre s = Some s1 \<and>
        try_candidate env c s1 = (Inr (), s') \<and> key = [word_of_int c]
   | (Inl e, s') \<Rightarrow>
       (\<exists>m. e = KeyNotFound m) \<and> all_unreachable env cs s = Some s' \<or>
       (\<forall>m. e \<noteq> ConnectionFailed m) \<and>
       (\<exists>pre c post s1. cs = pre @ c # post \<and> all_unreachable env pre s = Some s1 \<and>
          try_candidate env c s1 = (Inl e, s'))"
proof (induction env cs s rule: keyscan_loop.induct)
  case (1 env s)
  then show ?case by simp
next
  case (2 env c rest s)
  obtain r s1 where t: "try_candidate env c s = (r, s1)" by (cases "try_candidate env c s")
  show ?case
  proof (cases r)
    case (Inr u)
    have "bl_key (fst s1) = [word_of_int c]"
      using t Inr set_tilt_fields [of env POSITION_MAX "(fst s)\<lparr>bl_key := [word_of_int c]\<rparr>" "snd s"]
      by (auto simp: try_candidate_def split: if_split_asm)
    then have "keyscan_loop env (c # rest) s = (Inr [word_of_int c], s1)" using t Inr by simp
    moreover have "c # rest = [] @ c # rest \<and> all_unreachable env [] s = Some s \<and>
        try_candidate env c s = (Inr (), s1)" using t Inr by simp
    ultimately show ?thesis by (simp only: prod.case sum.case) blast
  next
    case (Inl e)
    show ?thesis
    proof (cases "\<exists>m. e = ConnectionFailed m")
      case True
      then obtain m where m: "e = ConnectionFailed m" by blast
      have step: "all_unreachable env (c # pre) s = all_unreachable env pre s1" for pre
        using t Inl m by simp
      obtain x s' where x: "keyscan_loop env rest s1 = (x, s')" by (cases "keyscan_loop env rest s1")
      have IH: "case keyscan_loop env rest s1 of
         (Inr key, s') \<Rightarrow> \<exists>pre c post s2. rest = pre @ c # post \<and> all_unreachable env pre s1 = Some s2 \<and>
            try_candidate env c s2 = (Inr (), s') \<and> key = [word_of_int c]
       | (Inl e, s') \<Rightarrow>
           (\<exists>m. e = KeyNotFound m) \<and> all_unreachable env rest s1 = Some s' \<or>
           (\<forall>m. e \<noteq> ConnectionFailed m) \<and>
           (\<exists>pre c post s2. rest = pre @ c # post \<and> all_unreachable env pre s1 = Some s2 \<and>
              try_candidate env c s2 = (Inl e, s'))"
        using "2.IH" t Inl m by simp
      have whole: "keyscan_loop env (c # rest) s = (x, s')" using t Inl m x by simp
      show ?thesis
      proof (cases x)
        case (Inr key)
        with IH x obtain pre d post s2 where "rest = pre @ d # post" "all_unreachable env pre s1 = Some s2"
          "try_candidate env d s2 = (Inr (), s')" "key = [word_of_int d]" by auto
        then have "c # rest = (c # pre) @ d # post \<and> all_unreachable env (c # pre) s = Some s2 \<and>
            try_candidate env d s2 = (Inr (), s') \<and> key = [word_of_int d]" unfolding step by simp
        then show ?thesis unfolding whole Inr prod.case sum.case by blast
      next
        case (Inl e')
        with IH x consider "(\<exists>m. e' = KeyNotFound m) \<and> all_unreachable env rest s1 = Some s'"
          | pre d post s2 where "\<forall>m. e' \<noteq> ConnectionFailed m" "rest = pre @ d # post"
            "all_unreachable env pre s1 = Some s2" "try_candidate env d s2 = (Inl e', s')" by auto
        then show ?thesis
        proof cases
          case 1
          then show ?thesis unfolding whole Inl prod.case sum.case
            by (simp del: all_unreachable.simps add: step)
        next
          case 2
          then have "c # rest = (c # pre) @ d # post \<and> all_unreachable env (c # pre) s = Some s2 \<and>
              try_candidate env d s2 = (Inl e', s')" unfolding step by simp
          with 2(1) show ?thesis unfolding whole Inl prod.case sum.case by blast
        qed
      qed
    next
      case False
      then have whole: "keyscan_loop env (c # rest) s = (Inl e, s1)"
        using t Inl by (cases e) auto
      have "c # rest = [] @ c # rest \<and> all_unreachable env [] s = Some s \<and>
          try_candidate env c s = (Inl e, s1)" using t Inl by simp
      with False show ?thesis unfolding whole prod.case sum.case by blast
    qed
  qed
qed

lemma keyscan_range_split:
  assumes "[KEY_SCAN_FIRST..KEY_SCAN_LAST] = pre @ c # post"
  shows "0 \<le> c \<and> c \<le> 255 \<and> pre = [0..c - 1]"
proof -
  have up: "[0..255] = pre @ c # post" using assms by (simp add: KEY_SCAN_FIRST_def KEY_SCAN_LAST_def)
  then have "c \<in> set [0..255]" by simp
  then have c: "0 \<le> c" "c \<le> 255" by simp_all
  have n: "length pre < length [0..255 :: int]" unfolding up by simp
  have nth: "[0..255 :: int] ! i = int i" if "i < 256" for i
    using that by (simp add: nth_upto)
  have "c = [0..255] ! length pre" unfolding up by simp
  then have len: "c = int (length pre)" using nth n by simp
  have "pre = [0..c - 1]"
  proof (rule nth_equalityI)
    show "length pre = length [0..c - 1]" using len by simp
    fix i assume i: "i < length pre"
    have "pre ! i = [0..255] ! i" unfolding up using i by (simp add: nth_append)
    then show "pre ! i = [0..c - 1] ! i" using i n nth [of i] len by (simp add: nth_upto)
  qed
  then show ?thesis using c by simp
qed

subsection \<open>Rounding a percentage\<close>

lemma round_half_even_near: "\<bar>x - of_int n\<bar> < 1 / 2 \<Longrightarrow> round_half_even x = n"
proof -
  assume near: "\<bar>x - of_int n\<bar> < 1 / 2"
  have fl: "of_int \<lfloor>x\<rfloor> \<le> x" "x < of_int \<lfloor>x\<rfloor> + 1" by linarith+
  consider "\<lfloor>x\<rfloor> = n" | "\<lfloor>x\<rfloor> = n - 1"
  proof -
    have "of_int \<lfloor>x\<rfloor> < of_int n + (1 :: rat)" "of_int n - (1 :: rat) < of_int \<lfloor>x\<rfloor> + 1"
      using near fl by linarith+
    then have "of_int \<lfloor>x\<rfloor> < (of_int (n + 1) :: rat)" "(of_int (n - 1) :: rat) < of_int (\<lfloor>x\<rfloor> + 1)"
      by simp_all
    then have "\<lfloor>x\<rfloor> < n + 1" "n - 1 < \<lfloor>x\<rfloor> + 1" by (simp_all only: of_int_less_iff)
    then show ?thesis using that by linarith
  qed
  then show ?thesis
  proof cases
    case 1
    then show ?thesis using near fl by (simp add: round_half_even_def Let_def)
  next
    case 2
    then have r: "x - of_int \<lfloor>x\<rfloor> > 1 / 2" using near fl by auto
    then show ?thesis using 2 by (simp add: round_half_even_def Let_def)
  qed
qed

lemma round_half_even_bounds:
  assumes "of_int a \<le> x" and "x \<le> of_int b"
  shows "a \<le> round_half_even x \<and> round_half_even x \<le> b"
proof -
  have fl: "a \<le> \<lfloor>x\<rfloor>" "\<lfloor>x\<rfloor> \<le> b" using assms by (simp add: le_floor_iff, linarith)
  moreover have "\<lfloor>x\<rfloor> = b \<Longrightarrow> x - of_int \<lfloor>x\<rfloor> < 1 / 2" using assms by simp
  ultimately show ?thesis by (cases "\<lfloor>x\<rfloor> = b") (auto simp: round_half_even_def Let_def)
qed

lemma round_half_even_mono:
  assumes "x \<le> y"
  shows "round_half_even x \<le> round_half_even y"
proof (cases "\<lfloor>x\<rfloor> = \<lfloor>y\<rfloor>")
  case True
  then show ?thesis using assms by (auto simp: round_half_even_def Let_def)
next
  case False
  then have "\<lfloor>x\<rfloor> + 1 \<le> \<lfloor>y\<rfloor>" using floor_mono [OF assms] by linarith
  then show ?thesis by (auto simp: round_half_even_def Let_def)
qed

lemma clamp_percent_bounds: "0 \<le> clamp_percent p \<and> clamp_percent p \<le> 100"
  by (cases p) auto

lemma tilt_of_percent_mono:
  assumes d: "double_rounding double" and le: "clamp_percent p \<le> clamp_percent q"
  shows "tilt_of_percent double p \<le> tilt_of_percent double q"
proof -
  have m: "x \<le> y \<Longrightarrow> double x \<le> double y" for x y using d by (simp add: double_rounding_def mono_def)
  have "double (clamp_percent p / 100) \<le> double (clamp_percent q / 100)"
    using le by (intro m) (simp add: divide_right_mono)
  then show ?thesis
    by (simp add: tilt_of_percent_def POSITION_MAX_def round_half_even_mono m mult_right_mono)
qed

lemma tilt_of_percent_bounds:
  assumes d: "double_rounding double"
  shows "0 \<le> tilt_of_percent double p \<and> tilt_of_percent double p \<le> 200"
proof -
  have m: "x \<le> y \<Longrightarrow> double x \<le> double y" for x y using d by (simp add: double_rounding_def mono_def)
  have i: "double (of_int n) = of_int n" if "\<bar>n\<bar> \<le> 2 ^ 53" for n
    using d that by (simp add: double_rounding_def)
  have z: "double 0 = 0" "double 1 = 1" "double 200 = 200" using i [of 0] i [of 1] i [of 200] by simp_all
  have "double 0 \<le> double (clamp_percent p / 100)" "double (clamp_percent p / 100) \<le> double 1"
    using clamp_percent_bounds [of p] by (intro m; simp)+
  then have "0 \<le> double (double (clamp_percent p / 100) * 200)"
    "double (double (clamp_percent p / 100) * 200) \<le> 200"
    using m [of 0 "double (clamp_percent p / 100) * 200"] m [of "double (clamp_percent p / 100) * 200" 200]
    by (simp_all add: z)
  then show ?thesis
    using round_half_even_bounds [of 0 _ 200] by (simp add: z tilt_of_percent_def POSITION_MAX_def)
qed

lemma tilt_of_percent_integer:
  assumes d: "double_rounding double" and n: "0 \<le> n" "n \<le> 100"
  shows "tilt_of_percent double (Finite (of_int n)) = 2 * n"
proof -
  define e :: rat where "e = 202 / 2 ^ 53"
  define sub :: rat where "sub = 1 / 2 ^ 1074"
  have sub: "sub \<le> 1 / 2 ^ 53"
    unfolding sub_def by (rule divide_left_mono; (rule power_increasing)?) simp_all
  have small: "\<bar>double x - x\<bar> \<le> e" if x: "\<bar>x\<bar> \<le> 201" for x
  proof -
    have "\<bar>x\<bar> \<le> 2 ^ 53" using x by simp
    then have "\<bar>double x - x\<bar> \<le> \<bar>x\<bar> / 2 ^ 53 + sub"
      using d unfolding double_rounding_def sub_def by blast
    moreover have "\<bar>x\<bar> / 2 ^ 53 \<le> 201 / 2 ^ 53" using x by (simp add: divide_right_mono)
    moreover have "e = 201 / 2 ^ 53 + 1 / 2 ^ 53" by (simp add: e_def)
    ultimately show ?thesis using sub by linarith
  qed
  have nr: "0 \<le> (of_int n :: rat)" "(of_int n :: rat) \<le> 100" using n by (simp_all add: of_int_le_iff [of _ 100, simplified])
  define a where "a = double (of_int n / 100)"
  have a: "\<bar>a - of_int n / 100\<bar> \<le> e" unfolding a_def using nr by (intro small) simp
  have a200: "\<bar>a * 200 - 2 * of_int n\<bar> \<le> 200 * e" using a by (simp add: abs_le_iff)
  have e6: "e \<le> 1 / 1000000" "0 \<le> e" by (simp_all add: e_def)
  have "\<bar>a * 200\<bar> \<le> 201" using a200 nr e6 by (auto simp: abs_le_iff)
  then have "\<bar>double (a * 200) - a * 200\<bar> \<le> e" by (rule small)
  then have "\<bar>double (a * 200) - of_int (2 * n)\<bar> < 1 / 2" using a200 e6
    by (simp only: abs_le_iff abs_less_iff of_int_mult of_int_numeral) linarith
  then have "round_half_even (double (a * 200)) = 2 * n" by (rule round_half_even_near)
  moreover have "clamp_percent (Finite (of_int n)) = of_int n" using nr by (simp add: min_def max_def)
  ultimately show ?thesis by (simp add: tilt_of_percent_def POSITION_MAX_def a_def)
qed

subsection \<open>Observing the motor\<close>

text \<open>The motor calls of an operation, in order.\<close>

datatype motor_call = Call_establish | Call_write int bytes | Call_disconnect

definition logged_call ::
  "motor_call \<Rightarrow> ('w \<Rightarrow> (blind_error + unit) \<times> 'w) \<Rightarrow> 'w \<times> motor_call list \<Rightarrow>
     (blind_error + unit) \<times> 'w \<times> motor_call list" where
  "logged_call c f s = (let (r, w) = f (fst s) in (r, w, snd s @ [c]))"

definition logged :: "'w motor_env \<Rightarrow> ('w \<times> motor_call list) motor_env" where
  "logged env =
     \<lparr>me_establish = logged_call Call_establish (me_establish env),
      me_write = (\<lambda>h d. logged_call (Call_write h d) (me_write env h d)),
      me_disconnect = logged_call Call_disconnect (me_disconnect env)\<rparr>"

text \<open>A motor that connects, accepts any key and rejects a tilt written without the right key.\<close>

definition silent_motor :: "bytes \<Rightarrow> bytes motor_env" where
  "silent_motor key =
     \<lparr>me_establish = (\<lambda>k. (Inr (), k)),
      me_write = (\<lambda>h d k. if h = KEY_CHAR_HANDLE then (Inr (), d)
        else if k = key then (Inr (), k) else (Inl (OtherError ''write not permitted''), k)),
      me_disconnect = (\<lambda>k. (Inr (), k))\<rparr>"

definition strict_motor :: "bytes \<Rightarrow> (bytes \<times> motor_call list) motor_env" where
  "strict_motor key = logged (silent_motor key)"

lemmas motor_defs = set_tilt_def blind_write_def write_key_and_payload_def POSITION_MIN_def POSITION_MAX_def
  KEY_CHAR_HANDLE_def SET_CHAR_HANDLE_def logged_def logged_call_def

text \<open>The motor calls of an operation with their outcomes, in order.\<close>

type_synonym motor_outcome = "motor_call \<times> (blind_error + unit)"

definition recorded_call ::
  "motor_call \<Rightarrow> ('w \<Rightarrow> (blind_error + unit) \<times> 'w) \<Rightarrow> 'w \<times> motor_outcome list \<Rightarrow>
     (blind_error + unit) \<times> 'w \<times> motor_outcome list" where
  "recorded_call c f s = (let (r, w) = f (fst s) in (r, w, snd s @ [(c, r)]))"

definition recorded :: "'w motor_env \<Rightarrow> ('w \<times> motor_outcome list) motor_env" where
  "recorded env =
     \<lparr>me_establish = recorded_call Call_establish (me_establish env),
      me_write = (\<lambda>h d. recorded_call (Call_write h d) (me_write env h d)),
      me_disconnect = recorded_call Call_disconnect (me_disconnect env)\<rparr>"

text \<open>C31: \<open>set_tilt\<close> raises before any motor call when the position is outside 0..200. Otherwise it
  makes exactly these calls: it connects, sends the key and then the position byte, stops at the
  first of these that fails and, if it had connected, disconnects. Its outcome follows from theirs:
  a failed connection is \<open>ConnectionFailed\<close> with the address and the error, a cancelled one stays a
  cancellation, an error of the disconnect replaces that of a write, and the call succeeds when
  all four did. The tracked position changes exactly when the call succeeds.
\<close>

theorem set_tilt_motor_calls:
  "case set_tilt (recorded env) p (b, w, []) of (r, b', w', calls) \<Rightarrow>
     b' = (if r = Inr () then b\<lparr>bl_position := p\<rparr> else b) \<and>
     (if p < 0 \<or> 200 < p then (\<exists>m. r = Inl (InvalidPosition m)) \<and> calls = [] \<and> w' = w
      else
        (\<exists>e. calls = [(Call_establish, Inl e)] \<and>
           r = Inl (if e = Cancelled_error then Cancelled_error
                    else ConnectionFailed (''Could not connect to '' @ bl_address b @ '': '' @ error_text e))) \<or>
        (\<exists>e d. calls = [(Call_establish, Inr ()), (Call_write 0x1B (bl_key b), Inl e), (Call_disconnect, d)] \<and>
           r = (case d of Inl e' \<Rightarrow> Inl e' | Inr _ \<Rightarrow> Inl e)) \<or>
        (\<exists>q d. calls = [(Call_establish, Inr ()), (Call_write 0x1B (bl_key b), Inr ()),
             (Call_write 0x1F [word_of_int p], q), (Call_disconnect, d)] \<and>
           r = (case d of Inl e' \<Rightarrow> Inl e' | Inr _ \<Rightarrow> q)))"
proof -
  obtain r0 w0 where e: "me_establish env w = (r0, w0)" by (cases "me_establish env w")
  obtain r1 w1 where k: "me_write env 0x1B (bl_key b) w0 = (r1, w1)"
    by (cases "me_write env 0x1B (bl_key b) w0")
  obtain r2 w2 where pw: "me_write env 0x1F [word_of_int p] w1 = (r2, w2)"
    by (cases "me_write env 0x1F [word_of_int p] w1")
  obtain r3 w3 where d3: "me_disconnect env w1 = (r3, w3)" by (cases "me_disconnect env w1")
  obtain r4 w4 where d4: "me_disconnect env w2 = (r4, w4)" by (cases "me_disconnect env w2")
  show ?thesis
    by (cases r0; cases r1; cases r2; cases r3; cases r4)
      (auto simp: motor_defs recorded_def recorded_call_def e k pw d3 d4)
qed

theorem set_tilt_motor_calls_witness:
  "set_tilt (recorded (silent_motor [8])) 42 (\<lparr>bl_address = ''m'', bl_key = [7], bl_position = 0\<rparr>, [], []) =
     (Inl (OtherError ''write not permitted''), \<lparr>bl_address = ''m'', bl_key = [7], bl_position = 0\<rparr>, [7],
      [(Call_establish, Inr ()), (Call_write 0x1B [7], Inr ()),
       (Call_write 0x1F [42], Inl (OtherError ''write not permitted'')), (Call_disconnect, Inr ())])"
  using set_tilt_motor_calls [where env = "silent_motor [8]" and p = 42 and w = "[]"
      and b = "\<lparr>bl_address = ''m'', bl_key = [7], bl_position = 0\<rparr>"]
  by (simp add: motor_defs recorded_def recorded_call_def silent_motor_def)

text \<open>C32: A key scan tries the first byte from 0x00 up. It returns a one-byte key exactly after a
  full-open tilt with it succeeded while every smaller candidate could not be connected to; it
  raises \<open>KeyNotFound\<close> exactly when all 256 could not be connected to; and any other failure of
  a candidate ends the scan with that failure.
\<close>

theorem keyscan_outcome:
  "case keyscan env (b, w) of
     (Inr key, s') \<Rightarrow> \<exists>c s1. 0 \<le> c \<and> c \<le> 255 \<and> all_unreachable env [0..c - 1] (b, w) = Some s1 \<and>
        try_candidate env c s1 = (Inr (), s') \<and> key = [word_of_int c] \<and> bl_key (fst s') = key \<and>
        bl_position (fst s') = 200
   | (Inl e, s') \<Rightarrow>
       (\<exists>m. e = KeyNotFound m) \<and> all_unreachable env [0..255] (b, w) = Some s' \<or>
       (\<nexists>m. e = ConnectionFailed m) \<and>
       (\<exists>c s1. 0 \<le> c \<and> c \<le> 255 \<and> all_unreachable env [0..c - 1] (b, w) = Some s1 \<and>
          try_candidate env c s1 = (Inl e, s'))"
proof -
  obtain r s' where r: "keyscan env (b, w) = (r, s')" by (cases "keyscan env (b, w)")
  note loop = keyscan_loop_cases [of env "[KEY_SCAN_FIRST..KEY_SCAN_LAST]" "(b, w)",
      folded keyscan_def, unfolded r prod.case]
  show ?thesis
  proof (cases r)
    case (Inr key)
    with loop obtain pre c post s1 where sp: "[KEY_SCAN_FIRST..KEY_SCAN_LAST] = pre @ c # post"
      and s1: "all_unreachable env pre (b, w) = Some s1" and t: "try_candidate env c s1 = (Inr (), s')"
      and key: "key = [word_of_int c]" by auto
    have "bl_key (fst s') = [word_of_int c] \<and> bl_position (fst s') = 200"
      using set_tilt_fields [of env POSITION_MAX "(fst s1)\<lparr>bl_key := [word_of_int c]\<rparr>" "snd s1"] t
      by (simp add: try_candidate_def POSITION_MAX_def)
    with keyscan_range_split [OF sp] s1 t key show ?thesis unfolding r Inr prod.case sum.case by blast
  next
    case (Inl e)
    have "all_unreachable env [KEY_SCAN_FIRST..KEY_SCAN_LAST] = all_unreachable env [0..255]"
      by (simp add: KEY_SCAN_FIRST_def KEY_SCAN_LAST_def)
    with loop Inl show ?thesis unfolding r Inl prod.case sum.case
      by (auto dest!: keyscan_range_split)
  qed
qed

theorem keyscan_outcome_witness:
  "\<exists>s'. keyscan (strict_motor [0]) (\<lparr>bl_address = ''m'', bl_key = [9], bl_position = 0\<rparr>, [], []) =
     (Inr [0], s') \<and> bl_position (fst s') = 200"
proof -
  have first: "[KEY_SCAN_FIRST..KEY_SCAN_LAST] = 0 # [1..255]"
    by (simp add: KEY_SCAN_FIRST_def KEY_SCAN_LAST_def upto_rec1)
  have "fst (keyscan (strict_motor [0]) (\<lparr>bl_address = ''m'', bl_key = [9], bl_position = 0\<rparr>, [], [])) = Inr [0]"
    by (simp add: motor_defs keyscan_def first try_candidate_def strict_motor_def silent_motor_def
        del: upto.simps)
  then show ?thesis
    using keyscan_outcome [where env = "strict_motor [0]" and w = "([], [])"
        and b = "\<lparr>bl_address = ''m'', bl_key = [9], bl_position = 0\<rparr>"]
    by (auto split: prod.splits sum.splits)
qed

text \<open>C33: A motor that accepts any connection and rejects the tilt write of a wrong key ends the scan
  at the first candidate with the write error, although it accepts a tilt with its own key: only
  \<open>ConnectionFailed\<close>, which a rejected write is not, moves the scan to the next candidate.
\<close>

theorem keyscan_stops_at_rejected_write:
  assumes "key \<noteq> [0]"
  shows "keyscan (strict_motor key) (b, k, []) =
      (Inl (OtherError ''write not permitted''), b\<lparr>bl_key := [0]\<rparr>, [0],
       [Call_establish, Call_write 0x1B [0], Call_write 0x1F [200], Call_disconnect]) \<and>
    fst (set_tilt (strict_motor key) 200 (b\<lparr>bl_key := key\<rparr>, k, [])) = Inr ()"
proof -
  have "[KEY_SCAN_FIRST..KEY_SCAN_LAST] = 0 # [1..255]"
    by (simp add: KEY_SCAN_FIRST_def KEY_SCAN_LAST_def upto_rec1)
  then show ?thesis using assms not_sym [OF assms]
    by (simp add: motor_defs keyscan_def try_candidate_def strict_motor_def silent_motor_def del: upto.simps)
qed

theorem keyscan_stops_at_rejected_write_witness:
  "fst (keyscan (strict_motor [5]) (\<lparr>bl_address = ''m'', bl_key = [0], bl_position = 0\<rparr>, [], [])) =
     Inl (OtherError ''write not permitted'')"
  using keyscan_stops_at_rejected_write [where key = "[5]" and k = "[]"
      and b = "\<lparr>bl_address = ''m'', bl_key = [0], bl_position = 0\<rparr>"]
  by simp

text \<open>C34: \<open>set_tilt_percent\<close> always asks for a position in 0..200, exactly twice an integer
  percentage, never decreasing in the percentage, and the full 200 for a NaN; it is never rejected
  as out of range. The only facts used of floating point are those of \<open>double_rounding\<close>.
\<close>

theorem set_tilt_percent_position:
  assumes "double_rounding double"
  shows "set_tilt_percent double env p s = set_tilt env (tilt_of_percent double p) s \<and>
    0 \<le> tilt_of_percent double p \<and> tilt_of_percent double p \<le> 200 \<and>
    (clamp_percent p \<le> clamp_percent q \<longrightarrow> tilt_of_percent double p \<le> tilt_of_percent double q) \<and>
    (0 \<le> n \<and> n \<le> 100 \<longrightarrow> set_tilt_percent double env (Finite (of_int n)) s = set_tilt env (2 * n) s) \<and>
    set_tilt_percent double env NaN s = set_tilt env 200 s"
proof -
  have "tilt_of_percent double NaN = tilt_of_percent double (Finite (of_int 100))"
    by (simp add: tilt_of_percent_def)
  then have "tilt_of_percent double NaN = 200" using tilt_of_percent_integer [OF assms, of 100] by simp
  then show ?thesis
    using tilt_of_percent_bounds [OF assms] tilt_of_percent_mono [OF assms] tilt_of_percent_integer [OF assms]
    by (simp add: set_tilt_percent_def)
qed

lemma double_rounding_exact: "double_rounding (\<lambda>x. x)"
  by (simp add: double_rounding_def mono_def)

theorem set_tilt_percent_position_witness:
  "tilt_of_percent (\<lambda>x. x) (Finite (1 / 3)) \<le> 200 \<and>
   set_tilt_percent (\<lambda>x. x) (strict_motor [7]) (Finite 37)
       (\<lparr>bl_address = ''m'', bl_key = [0], bl_position = 0\<rparr>, [7], []) =
     set_tilt (strict_motor [7]) 74 (\<lparr>bl_address = ''m'', bl_key = [0], bl_position = 0\<rparr>, [7], [])"
  using set_tilt_percent_position [OF double_rounding_exact, where env = "strict_motor [7]"
      and p = "Finite (1 / 3)" and n = 37
      and s = "(\<lparr>bl_address = ''m'', bl_key = [0], bl_position = 0\<rparr>, [7], [])"] by simp

end
