(* ===== verification/Legacy_Cloud.thy ===== *)
theory Legacy_Cloud
  imports Json Legacy_Blind "HOL-Library.AList"
begin

text \<open>
  \<open>cloud.py\<close>: every shade's name, MAC and BLE key from the legacy MySmartBlinds account.

  \<open>smartblinds_client\<close> and \<open>requests\<close> are the parameter \<open>legacy_api\<close>: logging in gives the
  client's token dictionary, posting a query under a bearer token gives the decoded reply.
\<close>

subsection \<open>Base64\<close>

definition b64_value :: "char \<Rightarrow> nat option" where
  "b64_value c =
     (let n = of_char c :: nat
      in if 65 \<le> n \<and> n \<le> 90 then Some (n - 65)
         else if 97 \<le> n \<and> n \<le> 122 then Some (n - 71)
         else if 48 \<le> n \<and> n \<le> 57 then Some (n + 4)
         else if n = 43 then Some 62
         else if n = 47 then Some 63
         else None)"

text \<open>
  \<open>base64.b64decode\<close> without validation: characters outside the alphabet are skipped, and enough
  padding ends the input. The arguments are the position in the group of four, the bits left over
  and the padding characters seen since the last data character.
\<close>

fun b64_loop :: "nat \<Rightarrow> nat \<Rightarrow> nat \<Rightarrow> string \<Rightarrow> bytes attempted" where
  "b64_loop q left pads [] =
     (if q = 0 then Inr []
      else if q = 1 then Inl (Value_error ''Invalid base64-encoded string'')
      else Inl (Value_error ''Incorrect padding''))"
| "b64_loop q left pads (c # cs) =
     (if c = CHR ''='' then
        (if 2 \<le> q \<and> 4 \<le> q + (pads + 1) then Inr []
         else b64_loop q left (if 2 \<le> q then pads + 1 else pads) cs)
      else case b64_value c of
          None \<Rightarrow> b64_loop q left pads cs
        | Some v \<Rightarrow>
            (if q = 0 then b64_loop 1 v 0 cs
             else if q = 1 then rbind (b64_loop 2 (v mod 16) 0 cs) (\<lambda>bs. Inr (of_nat (left * 4 + v div 16) # bs))
             else if q = 2 then rbind (b64_loop 3 (v mod 4) 0 cs) (\<lambda>bs. Inr (of_nat (left * 16 + v div 4) # bs))
             else rbind (b64_loop 0 0 0 cs) (\<lambda>bs. Inr (of_nat (left * 64 + v) # bs))))"

definition b64decode :: "json \<Rightarrow> bytes attempted" where
  "b64decode j =
     (case j of
        J_str s \<Rightarrow>
          (if list_all (\<lambda>c. of_char c < (128 :: nat)) s then b64_loop 0 0 0 s
           else Inl (Value_error ''string argument should contain only ASCII characters''))
      | _ \<Rightarrow> Inl Type_error)"

text \<open>The standard encoding, as the backend uses it.\<close>

definition b64_char :: "nat \<Rightarrow> char" where
  "b64_char n =
     char_of (if n < 26 then n + 65 else if n < 52 then n + 71 else if n < 62 then n - 4
       else if n = 62 then 43 else (47 :: nat))"

fun b64encode :: "nat list \<Rightarrow> string" where
  "b64encode [] = []"
| "b64encode [a] = [b64_char (a div 4), b64_char (a mod 4 * 16), CHR ''='', CHR ''='']"
| "b64encode [a, b] =
     [b64_char (a div 4), b64_char (a mod 4 * 16 + b div 16), b64_char (b mod 16 * 4), CHR ''='']"
| "b64encode (a # b # c # bs) =
     [b64_char (a div 4), b64_char (a mod 4 * 16 + b div 16), b64_char (b mod 16 * 4 + c div 64),
      b64_char (c mod 64)] @ b64encode bs"

definition encode_base64 :: "bytes \<Rightarrow> string" where
  "encode_base64 bs = b64encode (map unat bs)"

lemma of_char_b64:
  "n < 64 \<Longrightarrow> of_char (b64_char n) = (if n < 26 then n + 65 else if n < 52 then n + 71 else if n < 62 then n - 4
       else if n = 62 then 43 else (47 :: nat))"
  by (simp add: b64_char_def)

lemma b64_char:
  assumes "n < 64"
  shows "b64_value (b64_char n) = Some n" "b64_char n \<noteq> CHR ''=''" "of_char (b64_char n) < (128 :: nat)"
proof -
  show "b64_value (b64_char n) = Some n"
    using assms by (auto simp: b64_value_def of_char_b64 Let_def)
  show "of_char (b64_char n) < (128 :: nat)"
    using assms by (auto simp: of_char_b64)
  have "of_char (b64_char n) \<noteq> (61 :: nat)"
    using assms by (auto simp: of_char_b64)
  then show "b64_char n \<noteq> CHR ''=''" by auto
qed

lemma b64_groups:
  assumes "a < 256" and "b < 256" and "c < (256 :: nat)"
  shows "a div 4 < 64" "a mod 4 * 16 + b div 16 < 64" "a mod 4 * 16 < 64" "b mod 16 * 4 + c div 64 < 64"
    "b mod 16 * 4 < 64" "c mod 64 < 64"
    "(a mod 4 * 16 + b div 16) div 16 = a mod 4" "(a mod 4 * 16 + b div 16) mod 16 = b div 16"
    "(b mod 16 * 4 + c div 64) div 4 = b mod 16" "(b mod 16 * 4 + c div 64) mod 4 = c div 64"
    "a div 4 * 4 + a mod 4 = a" "b div 16 * 16 + b mod 16 = b" "c div 64 * 64 + c mod 64 = c"
  using assms by simp_all

lemma b64_loop_encode:
  "list_all (\<lambda>n. n < 256) ns \<Longrightarrow> b64_loop 0 0 0 (b64encode ns) = Inr (map of_nat ns)"
proof (induction ns rule: b64encode.induct)
  case 1
  then show ?case by simp
next
  case (2 a)
  then have "a < 256" by simp
  from b64_groups [OF this this this] show ?case by (simp add: b64_char)
next
  case (3 a b)
  then have "a < 256" "b < 256" by simp_all
  from b64_groups [OF this, of 0] show ?case by (simp add: b64_char)
next
  case (4 a b c bs)
  then have "a < 256" "b < 256" "c < 256" and rest: "b64_loop 0 0 0 (b64encode bs) = Inr (map of_nat bs)"
    by simp_all
  from b64_groups [OF this(1-3)] rest show ?case by (simp add: b64_char)
qed

lemma b64encode_ascii:
  "list_all (\<lambda>n. n < 256) ns \<Longrightarrow> list_all (\<lambda>c. of_char c < (128 :: nat)) (b64encode ns)"
proof (induction ns rule: b64encode.induct)
  case 1
  then show ?case by simp
next
  case (2 a)
  then have "a < 256" by simp
  from b64_groups [OF this this this] show ?case by (simp add: b64_char)
next
  case (3 a b)
  then have "a < 256" "b < 256" by simp_all
  from b64_groups [OF this, of 0] show ?case by (simp add: b64_char)
next
  case (4 a b c bs)
  then have "a < 256" "b < 256" "c < 256"
    and rest: "list_all (\<lambda>c. of_char c < (128 :: nat)) (b64encode bs)" by simp_all
  from b64_groups [OF this(1-3)] rest show ?case by (simp add: b64_char)
qed

lemma b64decode_encode [simp]: "b64decode (J_str (encode_base64 bs)) = Inr bs"
proof -
  have "unat (b :: byte) < 256" for b using unsigned_less [of b] by simp
  then have "list_all (\<lambda>n. n < 256) (map unat bs)" by (simp add: list_all_iff)
  from b64_loop_encode [OF this] b64encode_ascii [OF this] show ?thesis
    by (simp add: b64decode_def encode_base64_def comp_def)
qed

subsection \<open>The client\<close>

record legacy_api =
  la_installed :: bool
  la_login :: "string \<Rightarrow> string \<Rightarrow> json attempted"
  la_post :: "string \<Rightarrow> string \<Rightarrow> json attempted"

text \<open>\<open>_client\<close>: the tokens of the logged-in client; its library is an optional dependency.\<close>

definition legacy_client :: "legacy_api \<Rightarrow> string \<Rightarrow> string \<Rightarrow> json attempted" where
  "legacy_client api username password =
     (if \<not> la_installed api
      then Inl (Import_error
        (''The cloud importer needs the optional extra: pip install '' @ [char_of (34 :: nat)] @
         ''smartblinds-ble[cloud]'' @ [char_of (34 :: nat)]))
      else la_login api username password)"

definition USER_QUERY :: string where
  "USER_QUERY =
     ''query GetUserInfo { user { '' @
     ''rooms { id name deleted } '' @
     ''blinds { name encodedMacAddress encodedPasskey roomId deleted } } }''"

definition graphql :: "legacy_api \<Rightarrow> json \<Rightarrow> string \<Rightarrow> string \<Rightarrow> json attempted" where
  "graphql api tokens token query =
     rbind (py_get token tokens) (\<lambda>bearer.
       if \<not> truthy bearer then Inl (Value_error (''login did not return a '' @ repr_string token))
       else la_post api (py_str bearer) query)"

definition format_mac :: "bytes \<Rightarrow> string" where
  "format_mac raw =
     (if length raw = 6 then join '':'' (map hex_byte_upper raw)
      else if list_all (\<lambda>b. unat b < 128) raw
      then upper (strip (map (\<lambda>b. char_of (unat b)) raw))
      else upper (hex_text raw))"

record cloud_blind =
  cb_name :: json
  cb_mac :: string
  cb_key :: string
  cb_room :: json
  cb_deleted :: bool

definition cloud_blind_dict :: "cloud_blind \<Rightarrow> json" where
  "cloud_blind_dict b =
     J_obj [(''name'', cb_name b), (''mac'', J_str (cb_mac b)), (''key'', J_str (cb_key b)),
       (''room'', cb_room b), (''deleted'', J_bool (cb_deleted b))]"

text \<open>
  The hash key of a value: \<open>True\<close> and \<open>False\<close> are the keys 1 and 0. A float is only equal to a
  float here; the backend's ids are strings.
\<close>

definition dict_key :: "json \<Rightarrow> json attempted" where
  "dict_key j =
     (case j of
        J_list _ \<Rightarrow> Inl Type_error
      | J_obj _ \<Rightarrow> Inl Type_error
      | J_bool b \<Rightarrow> Inr (J_int (if b then 1 else 0))
      | _ \<Rightarrow> Inr j)"

definition room_entry :: "json \<Rightarrow> (json \<times> json) attempted" where
  "room_entry r =
     rbind (py_item ''id'' r) (\<lambda>i. rbind (py_item ''name'' r) (\<lambda>n. rbind (dict_key i) (\<lambda>k. Inr (k, n))))"

definition rooms_dict :: "json \<Rightarrow> (json \<times> json) list attempted" where
  "rooms_dict rooms =
     rbind (py_iter (py_or rooms (J_list []))) (\<lambda>rs.
     rbind (mapM room_entry rs) (\<lambda>kvs. Inr (foldl (\<lambda>d (k, n). AList.update k n d) [] kvs)))"

definition cloud_blind_of :: "bool \<Rightarrow> (json \<times> json) list \<Rightarrow> json \<Rightarrow> cloud_blind list attempted" where
  "cloud_blind_of include_deleted rooms b =
     rbind (py_get ''deleted'' b) (\<lambda>deleted.
       if truthy deleted \<and> \<not> include_deleted then Inr []
       else rbind (py_item ''name'' b) (\<lambda>name.
            rbind (py_item ''encodedMacAddress'' b) (\<lambda>m.
            rbind (b64decode m) (\<lambda>mac.
            rbind (py_item ''encodedPasskey'' b) (\<lambda>p.
            rbind (b64decode p) (\<lambda>passkey.
            rbind (py_get ''roomId'' b) (\<lambda>i.
            rbind (dict_key i) (\<lambda>k.
              Inr [\<lparr>cb_name = name, cb_mac = format_mac mac, cb_key = hex_text passkey,
                    cb_room = (case map_of rooms k of None \<Rightarrow> J_null | Some n \<Rightarrow> n),
                    cb_deleted = truthy deleted\<rparr>]))))))))"

definition user_of_reply :: "json \<Rightarrow> json attempted" where
  "user_of_reply data =
     rbind (py_get ''data'' data) (\<lambda>d.
     rbind (py_get ''user'' (py_or d (J_obj []))) (\<lambda>u. Inr (py_or u (J_obj []))))"

definition fetch_blinds ::
  "legacy_api \<Rightarrow> string \<Rightarrow> string \<Rightarrow> bool \<Rightarrow> string \<Rightarrow> cloud_blind list attempted" where
  "fetch_blinds api username password include_deleted token =
     rbind (legacy_client api username password) (\<lambda>tokens.
     rbind (graphql api tokens token USER_QUERY) (\<lambda>data.
     rbind (py_get ''errors'' data) (\<lambda>errors.
       if truthy errors then Inl (Runtime_error (''cloud returned errors: '' @ py_str errors))
       else rbind (user_of_reply data) (\<lambda>user.
            rbind (py_get ''rooms'' user) (\<lambda>rs.
            rbind (rooms_dict rs) (\<lambda>rooms.
            rbind (py_get ''blinds'' user) (\<lambda>bs.
            rbind (py_iter (py_or bs (J_list []))) (\<lambda>blinds.
            rbind (mapM (cloud_blind_of include_deleted rooms) blinds) (\<lambda>result.
              Inr (concat result))))))))))"

text \<open>The report of \<open>--debug\<close>: each token is tried, and a failed request is a line of it.\<close>

definition error_str :: "py_error \<Rightarrow> string" where
  "error_str e =
     (case e of
        Key_error k \<Rightarrow> repr_string k
      | Value_error m \<Rightarrow> m
      | Runtime_error m \<Rightarrow> m
      | Import_error m \<Rightarrow> m
      | Tilt_cloud_error m \<Rightarrow> m
      | Other_exception m \<Rightarrow> m
      | _ \<Rightarrow> [])"

definition count_or_null :: "json \<Rightarrow> string attempted" where
  "count_or_null j =
     (if j = J_null then Inr ''null'' else rbind (py_len j) (\<lambda>n. Inr (str_of_int (int n))))"

definition debug_blind_line :: "json \<Rightarrow> string attempted" where
  "debug_blind_line b =
     rbind (py_get ''encodedPasskey'' b) (\<lambda>p.
     rbind (py_item ''name'' b) (\<lambda>name.
     rbind (py_item ''deleted'' b) (\<lambda>deleted.
     rbind (py_len (py_or p (J_str []))) (\<lambda>n.
       Inr (''    '' @ py_repr name @ '' deleted='' @ py_str deleted @ '' passkey_len='' @ str_of_int (int n))))))"

definition debug_token :: "legacy_api \<Rightarrow> json \<Rightarrow> string \<Rightarrow> string list attempted" where
  "debug_token api tokens token =
     rbind (py_get token tokens) (\<lambda>bearer.
       if \<not> truthy bearer then Inr [[char_of (10 :: nat)] @ ''['' @ token @ ''] not present'']
       else case graphql api tokens token USER_QUERY of
           Inl e \<Rightarrow> Inr [[char_of (10 :: nat)] @ ''['' @ token @ ''] request failed: '' @ error_str e]
         | Inr data \<Rightarrow>
             rbind (user_of_reply data) (\<lambda>user.
             rbind (py_get ''rooms'' user) (\<lambda>rooms.
             rbind (py_get ''blinds'' user) (\<lambda>blinds.
             rbind (py_get ''errors'' data) (\<lambda>errors.
             rbind (count_or_null rooms) (\<lambda>nr.
             rbind (count_or_null blinds) (\<lambda>nb.
             rbind (py_iter (py_or blinds (J_list []))) (\<lambda>bs.
             rbind (mapM debug_blind_line bs) (\<lambda>ls.
               Inr ([[char_of (10 :: nat)] @ ''['' @ token @ '']''] @
                    (if truthy errors then [''  errors: '' @ py_str errors] else []) @
                    [''  user present: '' @ py_str (J_bool (truthy user)), ''  rooms: '' @ nr, ''  blinds: '' @ nb] @
                    ls))))))))))"

definition legacy_diagnose :: "legacy_api \<Rightarrow> string \<Rightarrow> string \<Rightarrow> string attempted" where
  "legacy_diagnose api username password =
     rbind (legacy_client api username password) (\<lambda>tokens.
     rbind (case tokens of J_obj kvs \<Rightarrow> Inr (J_list (map (J_str \<circ> fst) kvs)) | _ \<Rightarrow> Inl Attribute_error) (\<lambda>ks.
     rbind (py_get ''token_type'' tokens) (\<lambda>ty.
     rbind (mapM (debug_token api tokens) [''id_token'', ''access_token'']) (\<lambda>ls.
       Inr (join [char_of (10 :: nat)]
         ([''token keys: '' @ py_str ks, ''token_type: '' @ py_str ty] @ concat ls))))))"

subsection \<open>Specification: what an account holds\<close>

record account_blind =
  ab_name :: string
  ab_mac :: bytes
  ab_passkey :: bytes
  ab_room :: "string option"
  ab_deleted :: bool

definition json_of_blind :: "account_blind \<Rightarrow> json" where
  "json_of_blind b =
     J_obj [(''name'', J_str (ab_name b)), (''encodedMacAddress'', J_str (encode_base64 (ab_mac b))),
       (''encodedPasskey'', J_str (encode_base64 (ab_passkey b))),
       (''roomId'', case ab_room b of None \<Rightarrow> J_null | Some i \<Rightarrow> J_str i),
       (''deleted'', J_bool (ab_deleted b))]"

definition json_of_account :: "(string \<times> string) list \<Rightarrow> account_blind list \<Rightarrow> json" where
  "json_of_account rooms blinds =
     J_obj [(''data'', J_obj [(''user'', J_obj
       [(''rooms'', J_list (map (\<lambda>(i, n). J_obj [(''id'', J_str i), (''name'', J_str n)]) rooms)),
        (''blinds'', J_list (map json_of_blind blinds))])])]"

definition listed_blind :: "(string \<times> string) list \<Rightarrow> account_blind \<Rightarrow> cloud_blind" where
  "listed_blind rooms b =
     \<lparr>cb_name = J_str (ab_name b), cb_mac = format_mac (ab_mac b), cb_key = hex_text (ab_passkey b),
      cb_room = (case ab_room b of None \<Rightarrow> J_null
        | Some i \<Rightarrow> (case map_of rooms i of None \<Rightarrow> J_null | Some n \<Rightarrow> J_str n)),
      cb_deleted = ab_deleted b\<rparr>"

lemma hex_pairs_text: "hex_pairs (hex_text bs) = Inr (map uint bs)"
proof (induction bs)
  case Nil
  then show ?case by (simp add: hex_text_def)
next
  case (Cons b bs)
  have split: "hex_text (b # bs) = hex_char (uint b div 16) # hex_char (uint b mod 16) # hex_text bs"
    by (simp add: hex_text_def hex_byte_def)
  note d = hex_byte_digits [of b]
  have "strip [hex_char (uint b div 16), hex_char (uint b mod 16)] =
      [hex_char (uint b div 16), hex_char (uint b mod 16)]"
    using d by (simp add: strip_def hex_char_not_space)
  then have "int_base16 [hex_char (uint b div 16), hex_char (uint b mod 16)] = Inr (uint b)"
    using d hex_char_not_sign [of "uint b div 16"] hex_value_byte [of b]
    by (simp add: int_base16_def hex_byte_def del: hex_value.simps)
  with Cons split show ?case by simp
qed

lemma normalize_exported_key: "normalize_key (Key_str (hex_text bs)) = Inr bs"
  using uint_byte_bounds by (simp add: hex_pairs_text bytes_of_ints_def list_all_iff comp_def)

lemma rooms_fold:
  "map_of (foldl (\<lambda>d (k, n). AList.update k n d) d (map (\<lambda>(i, n). (J_str i, J_str n)) rooms)) (J_str i) =
     (case map_of (rev rooms) i of None \<Rightarrow> map_of d (J_str i) | Some n \<Rightarrow> Some (J_str n))"
proof (induction rooms arbitrary: d)
  case Nil
  then show ?case by simp
next
  case (Cons r rooms)
  then show ?case by (cases r) (auto simp: update_conv' map_add_def split: option.splits)
qed

lemma rooms_fold_null:
  "map_of d J_null = None \<Longrightarrow>
   map_of (foldl (\<lambda>d (k, n). AList.update k n d) d (map (\<lambda>(i, n). (J_str i, J_str n)) rooms)) J_null = None"
  by (induction rooms arbitrary: d) (auto simp: update_conv')

lemma rooms_dict_account:
  "rooms_dict (J_list (map (\<lambda>(i, n). J_obj [(''id'', J_str i), (''name'', J_str n)]) rooms)) =
     Inr (foldl (\<lambda>d (k, n). AList.update k n d) [] (map (\<lambda>(i, n). (J_str i, J_str n)) rooms))"
proof -
  have "mapM room_entry (map (\<lambda>(i, n). J_obj [(''id'', J_str i), (''name'', J_str n)]) rooms) =
      Inr (map (\<lambda>(i, n). (J_str i, J_str n)) rooms)"
    unfolding mapM_map by (rule mapM_pure) (auto simp: room_entry_def dict_key_def)
  then show ?thesis by (simp add: rooms_dict_def py_or_list)
qed

lemma cloud_blind_of_account:
  assumes "distinct (map fst rooms)"
  shows "cloud_blind_of incl
      (foldl (\<lambda>d (k, n). AList.update k n d) [] (map (\<lambda>(i, n). (J_str i, J_str n)) rooms)) (json_of_blind b) =
    Inr (if ab_deleted b \<and> \<not> incl then [] else [listed_blind rooms b])"
proof -
  have rev: "map_of (rev rooms) = map_of rooms"
    using assms by (simp add: map_of_inject_set rev_map [symmetric])
  show ?thesis
    by (cases "ab_room b")
      (auto simp: cloud_blind_of_def json_of_blind_def listed_blind_def dict_key_def rooms_fold rooms_fold_null
        rev split: option.splits)
qed

text \<open>For an account whose rooms have distinct ids, \<open>fetch_blinds\<close> returns its shades in order,
  the deleted ones only on request, each with its room's name, and the exported key is the shade's
  passkey: the legacy client built from it holds exactly those bytes.\<close>

lemma fetch_blinds_account:
  assumes "la_installed api" and "la_login api username password = Inr (J_obj tokens)"
    and "map_of tokens token = Some (J_str bearer)" and "bearer \<noteq> []"
    and "la_post api bearer USER_QUERY = Inr (json_of_account rooms blinds)"
    and "distinct (map fst rooms)"
  shows "fetch_blinds api username password include_deleted token =
      Inr (map (listed_blind rooms) (filter (\<lambda>b. ab_deleted b \<longrightarrow> include_deleted) blinds)) \<and>
    blind_new address (Key_str (cb_key (listed_blind rooms b))) =
      Inr \<lparr>bl_address = address, bl_key = ab_passkey b, bl_position = 0\<rparr>"
proof -
  have "mapM (cloud_blind_of include_deleted
      (foldl (\<lambda>d (k, n). AList.update k n d) [] (map (\<lambda>(i, n). (J_str i, J_str n)) rooms)))
      (map json_of_blind blinds) =
    Inr (map (\<lambda>b. if ab_deleted b \<longrightarrow> include_deleted then [listed_blind rooms b] else []) blinds)"
    unfolding mapM_map by (rule mapM_pure) (simp add: cloud_blind_of_account assms(6))
  then show ?thesis using assms(1-5)
    by (simp add: fetch_blinds_def legacy_client_def graphql_def json_of_account_def user_of_reply_def py_or_truthy
        rooms_dict_account py_or_list concat_if_singleton blind_new_def listed_blind_def normalize_exported_key
        del: normalize_key.simps)
qed

text \<open>The account of the witness: a shade in a room and a deleted one.\<close>

definition example_blinds :: "account_blind list" where
  "example_blinds =
     [\<lparr>ab_name = ''Left'', ab_mac = [1, 2, 3, 4, 5, 0xAB], ab_passkey = [0x7F, 0, 0x1C, 9],
       ab_room = Some ''r1'', ab_deleted = False\<rparr>,
      \<lparr>ab_name = ''Old'', ab_mac = [1, 2, 3, 4, 5, 6], ab_passkey = [1], ab_room = None, ab_deleted = True\<rparr>]"

definition example_api :: legacy_api where
  "example_api =
     \<lparr>la_installed = True, la_login = (\<lambda>u p. Inr (J_obj [(''access_token'', J_str ''tok'')])),
      la_post = (\<lambda>b q. Inr (json_of_account [(''r1'', ''Office'')] example_blinds))\<rparr>"

end
