(* ===== verification/Tools.thy ===== *)
theory Tools
  imports Tilt_Cloud Legacy_Cloud Json_Text
begin

text \<open>
  The command-line tools: \<open>tools/find_key.py\<close>, \<open>tools/import_tilt.py\<close> and
  \<open>tools/import_cloud.py\<close>, from their parsed arguments to what they print, save and exit with.
  The environment, the prompts and the BLE scanner are parameters; dashes are written \<open>--\<close>.
\<close>

subsection \<open>Finding keys\<close>

datatype stream = Stdout | Stderr

type_synonym printed = "(stream \<times> string) list"

record ('d, 'w) scanner_env =
  sc_find :: "string \<Rightarrow> 'w \<Rightarrow> (blind_error + 'd option) \<times> 'w"
  sc_scan :: "'w \<Rightarrow> (blind_error + 'd list) \<times> 'w"
  sc_address :: "'d \<Rightarrow> string"
  sc_name :: "'d \<Rightarrow> string option"
  sc_motor :: "'d \<Rightarrow> 'w motor_env"

definition discover :: "('d, 'w) scanner_env \<Rightarrow> 'w \<Rightarrow> (blind_error + 'd list) \<times> 'w" where
  "discover sc w =
     (case sc_scan sc w of
        (Inl e, w1) \<Rightarrow> (Inl e, w1)
      | (Inr devices, w1) \<Rightarrow> (Inr (discover_filter (sc_name sc) devices), w1))"

definition scan_device ::
  "('d, 'w) scanner_env \<Rightarrow> 'd \<Rightarrow> printed \<times> 'w \<Rightarrow> (blind_error + unit) \<times> printed \<times> 'w" where
  "scan_device sc d s =
     (let (out, w) = s; address = sc_address sc d;
          out1 = out @ [(Stderr, ''['' @ address @ ''] scanning key 0x00..0xFF (motor will tilt fully)...'')]
      in case keyscan_device (sc_motor sc d) address w of
           (Inl e, w1) \<Rightarrow> (Inl e, out1, w1)
         | (Inr None, w1) \<Rightarrow> (Inr (), out1 @ [(Stderr, ''['' @ address @ ''] keyscan failed'')], w1)
         | (Inr (Some key), w1) \<Rightarrow> (Inr (), out1 @ [(Stdout, address @ '' = '' @ hex_text key)], w1))"

definition scan_address ::
  "('d, 'w) scanner_env \<Rightarrow> string \<Rightarrow> printed \<times> 'w \<Rightarrow> (blind_error + unit) \<times> printed \<times> 'w" where
  "scan_address sc address s =
     (let (out, w) = s; out1 = out @ [(Stderr, ''['' @ address @ ''] locating device...'')]
      in case sc_find sc address w of
           (Inl e, w1) \<Rightarrow> (Inl e, out1, w1)
         | (Inr None, w1) \<Rightarrow> (Inr (), out1 @ [(Stderr, ''['' @ address @ ''] not found'')], w1)
         | (Inr (Some d), w1) \<Rightarrow> scan_device sc d (out1, w1))"

fun for_each :: "('x \<Rightarrow> 's \<Rightarrow> ('e + unit) \<times> 's) \<Rightarrow> 'x list \<Rightarrow> 's \<Rightarrow> ('e + unit) \<times> 's" where
  "for_each f [] s = (Inr (), s)"
| "for_each f (x # xs) s =
     (case f x s of (Inl e, s1) \<Rightarrow> (Inl e, s1) | (Inr _, s1) \<Rightarrow> for_each f xs s1)"

definition find_key_main ::
  "('d, 'w) scanner_env \<Rightarrow> string list \<Rightarrow> 'w \<Rightarrow> (blind_error + unit) \<times> printed \<times> 'w" where
  "find_key_main sc addresses w =
     (if addresses \<noteq> [] then for_each (scan_address sc) addresses ([], w)
      else
        let out = [(Stderr, ''Scanning for shade motors...'')]
        in case discover sc w of
             (Inl e, w1) \<Rightarrow> (Inl e, out, w1)
           | (Inr devices, w1) \<Rightarrow>
               (if devices = [] then (Inr (), out @ [(Stderr, ''no motors detected'')], w1)
                else for_each (scan_device sc) devices (out, w1)))"

subsection \<open>Importing keys\<close>

text \<open>
  What a tool ends with: it returns, exits with a message or raises. What it saves is the name of a
  file and its text, as \<open>json.dump\<close> writes it.
\<close>

datatype ending = Returned | Exited string | Raised py_error

record program_result =
  pr_ending :: ending
  pr_output :: printed
  pr_saved :: "(string \<times> string) option"

definition ends :: "ending \<Rightarrow> program_result" where
  "ends e = \<lparr>pr_ending = e, pr_output = [], pr_saved = None\<rparr>"

text \<open>
  The environment, the prompts and the file system: \<open>ue_open\<close> is the \<open>OSError\<close> of opening a file for
  writing, \<open>None\<close> when it can be opened.
\<close>

record user_env =
  ue_getenv :: "string \<Rightarrow> string option"
  ue_input :: "string \<Rightarrow> string"
  ue_getpass :: "string \<Rightarrow> string"
  ue_open :: "string \<Rightarrow> string option"

text \<open>\<open>a or b\<close> of strings that may be \<open>None\<close>.\<close>

definition str_or :: "string option \<Rightarrow> string option \<Rightarrow> string option" where
  "str_or a b = (case a of Some (c # cs) \<Rightarrow> a | _ \<Rightarrow> b)"

record tilt_args =
  ta_username :: "string option"
  ta_output :: string
  ta_include_bridges :: bool
  ta_access_token :: "string option"
  ta_debug :: bool

definition tilt_credentials :: "user_env \<Rightarrow> tilt_args \<Rightarrow> string \<times> string" where
  "tilt_credentials ue args =
     ((case str_or (ta_username args) (str_or (ue_getenv ue ''TILT_USERNAME'')
          (Some (strip (ue_input ue ''Tilt account email: '')))) of Some u \<Rightarrow> u | None \<Rightarrow> []),
      (case str_or (ue_getenv ue ''TILT_PASSWORD'') (Some (ue_getpass ue ''Password: '')) of
         Some p \<Rightarrow> p | None \<Rightarrow> []))"

definition device_line :: "tilt_device \<Rightarrow> string" where
  "device_line d =
     ''  '' @ py_str (td_name d) @ (if truthy (td_room d) then '' ['' @ py_str (td_room d) @ '']'' else []) @
     (if td_kind d = ''roller_shade'' then [] else '' ('' @ td_kind d @ '')'') @ '': '' @ td_mac d @
     ''  key='' @ td_key d"

definition import_tilt_main :: "urlopen \<Rightarrow> user_env \<Rightarrow> tilt_args \<Rightarrow> program_result" where
  "import_tilt_main urlopen ue args =
     (let token = str_or (ta_access_token args) (ue_getenv ue ''TILT_ACCESS_TOKEN'');
          (username, password) =
            (if token = None \<or> token = Some []
             then (case tilt_credentials ue args of (u, p) \<Rightarrow> (Some u, Some p)) else (None, None))
      in if ta_debug args
         then case diagnose urlopen username password token of
             Inr report \<Rightarrow> \<lparr>pr_ending = Returned, pr_output = [(Stdout, report)], pr_saved = None\<rparr>
           | Inl (Tilt_cloud_error m) \<Rightarrow> ends (Exited m)
           | Inl e \<Rightarrow> ends (Raised e)
         else case fetch_devices urlopen username password token (ta_include_bridges args) of
             Inl (Tilt_cloud_error m) \<Rightarrow> ends (Exited m)
           | Inl e \<Rightarrow> ends (Raised e)
           | Inr devices \<Rightarrow>
               (if devices = []
                then ends (Exited (''Login succeeded but the Tilt store listed no keyed devices. If your '' @
                  ''shades were set up in the older MySmartBlinds app they live in a '' @
                  ''different backend -- use `smartblinds-import-cloud` instead. '' @
                  ''(`--debug` shows what the account exposes.)''))
                else (case ue_open ue (ta_output args) of
                  Some e \<Rightarrow> ends (Raised (Other_exception e))
                | None \<Rightarrow> \<lparr>pr_ending = Returned,
                  pr_output =
                    [(Stderr, ''Saved '' @ str_of_int (int (length devices)) @ '' device(s) to '' @ ta_output args @ '':'')] @
                    map (\<lambda>d. (Stderr, device_line d)) devices @
                    [(Stderr, NL @ ''Keep this file safe -- it holds pairing keys that cannot be brute-forced '' @
                      ''or sniffed. Back it up somewhere durable: when the vendor cloud shuts '' @
                      ''down, an un-exported key is gone for good.'')],
                  pr_saved = Some (ta_output args, dumps (J_list (map as_dict devices)))\<rparr>)))"

record cloud_args =
  ca_username :: "string option"
  ca_output :: string
  ca_include_deleted :: bool
  ca_token :: string
  ca_debug :: bool

definition cloud_credentials :: "user_env \<Rightarrow> cloud_args \<Rightarrow> string \<times> string" where
  "cloud_credentials ue args =
     ((case str_or (ca_username args) (str_or (ue_getenv ue ''SMARTBLINDS_USERNAME'')
          (Some (strip (ue_input ue ''Cloud account email: '')))) of Some u \<Rightarrow> u | None \<Rightarrow> []),
      (case str_or (ue_getenv ue ''SMARTBLINDS_PASSWORD'') (Some (ue_getpass ue ''Password: '')) of
         Some p \<Rightarrow> p | None \<Rightarrow> []))"

definition cloud_blind_line :: "cloud_blind \<Rightarrow> string" where
  "cloud_blind_line b =
     ''  '' @ py_str (cb_name b) @ (if truthy (cb_room b) then '' ['' @ py_str (cb_room b) @ '']'' else []) @
     (if cb_deleted b then '' (deleted)'' else []) @ '': '' @ cb_mac b @ ''  key='' @ cb_key b"

definition exit_text :: "string \<Rightarrow> py_error \<Rightarrow> string" where
  "exit_text what e =
     (case e of Import_error m \<Rightarrow> m | _ \<Rightarrow> what @ '': '' @ error_str e)"

definition import_cloud_main :: "legacy_api \<Rightarrow> user_env \<Rightarrow> cloud_args \<Rightarrow> program_result" where
  "import_cloud_main api ue args =
     (let (username, password) = cloud_credentials ue args
      in if ca_debug args
         then case legacy_diagnose api username password of
             Inr report \<Rightarrow> \<lparr>pr_ending = Returned, pr_output = [(Stdout, report)], pr_saved = None\<rparr>
           | Inl e \<Rightarrow> ends (Exited (exit_text ''Diagnose failed'' e))
         else case fetch_blinds api username password (ca_include_deleted args) (ca_token args) of
             Inl e \<Rightarrow> ends (Exited (exit_text ''Cloud import failed'' e))
           | Inr blinds \<Rightarrow>
               (if blinds = []
                then ends (Exited (''Login succeeded but no shades were found on this (legacy MySmartBlinds) '' @
                  ''account. If you set your shades up in the newer Tilt app, they live in a '' @
                  ''different backend and can't be exported here -- use `smartblinds-find-key` '' @
                  ''to read the key directly over BLE instead. (`--debug` shows raw counts.)''))
                else (case ue_open ue (ca_output args) of
                  Some e \<Rightarrow> ends (Raised (Other_exception e))
                | None \<Rightarrow> \<lparr>pr_ending = Returned,
                  pr_output =
                    [(Stderr, ''Saved '' @ str_of_int (int (length blinds)) @ '' shade(s) to '' @ ca_output args @ '':'')] @
                    map (\<lambda>b. (Stderr, cloud_blind_line b)) blinds @
                    [(Stderr, NL @ ''Keep this file safe -- it contains BLE keys and is your offline backup '' @
                      ''if the cloud shuts down.'')],
                  pr_saved = Some (ca_output args, dumps (J_list (map cloud_blind_dict blinds)))\<rparr>)))"

lemma fetch_devices_token:
  "fetch_devices urlopen u p (Some token) incl = rbind (fetch_store urlopen (J_str token)) (parse_store incl)"
  by (simp add: fetch_devices_def resolve_token_def)

text \<open>What is exported can be written and read back.\<close>

lemma writable_export: "d \<in> set (export incl rooms) \<Longrightarrow> writable float_of (as_dict d)"
  by (auto simp: export_def export_room_def exported_def as_dict_def split: if_split_asm)

lemma export_reads_back:
  "loads float_of (dumps (J_list (map as_dict (export incl rooms)))) = Read (J_list (map as_dict (export incl rooms))) []"
  using writable_export by (intro json_reads_back) auto

lemma import_tilt_output:
  assumes "ta_access_token args = None" and "ue_getenv ue ''TILT_ACCESS_TOKEN'' = None" and "\<not> ta_debug args"
    and "tilt_credentials ue args = (username, password)" and "username \<noteq> []" and "token \<noteq> []"
    and "''rooms'' \<notin> fst ` set other"
    and "urlopen \<lparr>rq_url = AUTH0_TOKEN_URL, rq_data = Some (token_payload username password),
       rq_headers = [(''content-type'', ''application/json''), (''accept'', ''application/json'')],
       rq_method = ''POST''\<rparr> = Inr (J_obj tokens)"
    and "map_of tokens ''access_token'' = Some (J_str token)"
    and "urlopen \<lparr>rq_url = TILT_STORE_URL, rq_data = None,
       rq_headers = [(''authorization'', ''Bearer '' @ token), (''accept'', ''application/json'')],
       rq_method = ''GET''\<rparr> = Inr (json_of_store other rooms)"
    and "export (ta_include_bridges args) rooms \<noteq> []" and "ue_open ue (ta_output args) = None"
  shows "pr_ending (import_tilt_main urlopen ue args) = Returned \<and>
    pr_saved (import_tilt_main urlopen ue args) =
      Some (ta_output args, dumps (J_list (map as_dict (export (ta_include_bridges args) rooms)))) \<and>
    (\<forall>line. (Stdout, line) \<notin> set (pr_output (import_tilt_main urlopen ue args))) \<and>
    map snd (tl (butlast (pr_output (import_tilt_main urlopen ue args)))) =
      map device_line (export (ta_include_bridges args) rooms)"
  using fetch_devices_account [OF assms(5-10)] assms(1-4,11,12)
  by (auto simp: import_tilt_main_def str_or_def butlast_append)

text \<open>C39: With an email and password and no token, and a backend that answers as documented,
  and an output file that can be opened, \<open>smartblinds-import-tilt\<close> saves under the chosen name the JSON
  text of the dictionaries of the account's export, which reads back as these; it returns, and prints
  nothing on standard output; only the keys and names of the export reach standard error.\<close>

theorem import_tilt_saves_export:
  assumes "ta_access_token args = None" and "ue_getenv ue ''TILT_ACCESS_TOKEN'' = None" and "\<not> ta_debug args"
    and "tilt_credentials ue args = (username, password)" and "username \<noteq> []" and "token \<noteq> []"
    and "''rooms'' \<notin> fst ` set other"
    and "urlopen \<lparr>rq_url = AUTH0_TOKEN_URL, rq_data = Some (token_payload username password),
       rq_headers = [(''content-type'', ''application/json''), (''accept'', ''application/json'')],
       rq_method = ''POST''\<rparr> = Inr (J_obj tokens)"
    and "map_of tokens ''access_token'' = Some (J_str token)"
    and "urlopen \<lparr>rq_url = TILT_STORE_URL, rq_data = None,
       rq_headers = [(''authorization'', ''Bearer '' @ token), (''accept'', ''application/json'')],
       rq_method = ''GET''\<rparr> = Inr (json_of_store other rooms)"
    and "export (ta_include_bridges args) rooms \<noteq> []" and "ue_open ue (ta_output args) = None"
  shows "pr_ending (import_tilt_main urlopen ue args) = Returned \<and>
    (\<exists>saved. pr_saved (import_tilt_main urlopen ue args) = Some (ta_output args, saved) \<and>
      saved = dumps (J_list (map as_dict (export (ta_include_bridges args) rooms))) \<and>
      loads float_of saved = Read (J_list (map as_dict (export (ta_include_bridges args) rooms))) []) \<and>
    (\<forall>line. (Stdout, line) \<notin> set (pr_output (import_tilt_main urlopen ue args))) \<and>
    map snd (tl (butlast (pr_output (import_tilt_main urlopen ue args)))) =
      map device_line (export (ta_include_bridges args) rooms)"
  using import_tilt_output [OF assms] export_reads_back by auto

definition example_user :: "(string \<Rightarrow> string option) \<Rightarrow> user_env" where
  "example_user getenv = \<lparr>ue_getenv = getenv, ue_input = (\<lambda>_. '' me ''), ue_getpass = (\<lambda>_. ''pw''), ue_open = (\<lambda>_. None)\<rparr>"

definition example_args :: tilt_args where
  "example_args =
     \<lparr>ta_username = None, ta_output = ''tilt-keys.json'', ta_include_bridges = True, ta_access_token = None,
      ta_debug = False\<rparr>"

theorem import_tilt_saves_export_witness:
  "pr_saved (import_tilt_main example_urlopen (example_user (\<lambda>_. None)) example_args) =
     Some (''tilt-keys.json'', dumps (J_list (map as_dict (export True [example_room]))))"
proof -
  have "tilt_credentials (example_user (\<lambda>_. None)) example_args = (''me'', ''pw'')"
    by (simp add: tilt_credentials_def example_user_def example_args_def str_or_def strip_def is_space_def)
  moreover have "export True [example_room] \<noteq> []"
    by (simp add: export_def export_room_def example_room_def given_def)
  ultimately show ?thesis
    using import_tilt_saves_export [where urlopen = example_urlopen and ue = "example_user (\<lambda>_. None)"
        and args = example_args and username = "''me''" and password = "''pw''" and token = "''tok''"
        and other = "[(''version'', J_int 2)]" and rooms = "[example_room]"
        and tokens = "[(''access_token'', J_str ''tok'')]"]
    by (simp add: example_urlopen_def example_user_def example_args_def)
qed

text \<open>C40: When the variable \<open>TILT_ACCESS_TOKEN\<close> is set but empty and no token argument is given, the
  tool asks for an email and password and then ignores them: it sends the empty token to the store
  and, as the store rejects it, exits with a message and saves nothing, however Auth0 would have
  answered.\<close>

theorem empty_token_ignores_credentials:
  assumes "ta_access_token args = None" and "ue_getenv ue ''TILT_ACCESS_TOKEN'' = Some []" and "\<not> ta_debug args"
    and "urlopen \<lparr>rq_url = TILT_STORE_URL, rq_data = None,
       rq_headers = [(''authorization'', ''Bearer ''), (''accept'', ''application/json'')],
       rq_method = ''GET''\<rparr> = Inl (HTTP_error 401 reason body)"
  shows "\<exists>message. import_tilt_main urlopen ue args = ends (Exited message)"
proof -
  have "\<exists>m. fetch_store urlopen (J_str []) = Inl (Tilt_cloud_error m)"
    using assms(4) by (simp add: fetch_store_def get_json_def)
  then show ?thesis using assms(1-3)
    by (auto simp: import_tilt_main_def str_or_def fetch_devices_token split: prod.split)
qed

theorem empty_token_ignores_credentials_witness:
  "\<exists>message. import_tilt_main
      (\<lambda>rq. if rq_method rq = ''GET'' \<and> (''authorization'', ''Bearer tok'') \<notin> set (rq_headers rq)
         then Inl (HTTP_error 401 ''Unauthorized'' None) else example_urlopen rq)
      (example_user (\<lambda>v. if v = ''TILT_ACCESS_TOKEN'' then Some [] else None)) example_args =
    ends (Exited message)"
  by (rule empty_token_ignores_credentials [where reason = "''Unauthorized''" and body = None])
    (simp_all add: example_user_def example_args_def)

end
