(* ===== verification/Backup.thy ===== *)
theory Backup
  imports Tools End_To_End
begin

text \<open>
  What the export is for: the file that \<open>smartblinds-import-tilt\<close> saves holds what \<open>TiltShadeClient\<close>
  needs to control the shades of the account without the cloud. The import of \<open>Tools\<close>, the file's text
  of \<open>Json_Text\<close> and the client over the fake shade of \<open>End_To_End\<close> meet here, and
  \<open>smartblinds-import-cloud\<close> and the legacy client likewise.
\<close>

text \<open>A shade of the account is exported with its address and key.\<close>

lemma exported_shade:
  assumes "r \<in> set rooms" and "e \<in> set (cr_shades r)" and "ce_id e = Some mac" and "mac \<noteq> []"
    and "ce_key e = Some pairing_key" and "lower pairing_key = hex_text key" and "length key = 32"
  shows "\<exists>d \<in> set (export incl rooms). td_mac d = upper mac \<and> td_key d = hex_text key"
proof -
  have "hex_text key \<noteq> []" using assms(7) length_hex_text [of key] by force
  then have "pairing_key \<noteq> []" using assms(6) by (metis lower_eq_Nil)
  then have "exported (cr_name r) ''roller_shade'' e \<in> set (export_room incl r)"
    using assms(2-5) by (auto simp: export_room_def given_def)
  then have "exported (cr_name r) ''roller_shade'' e \<in> set (export incl rooms)"
    using assms(1) by (auto simp: export_def)
  then show ?thesis using assms(3,5,6) by (intro bexI) (simp_all add: exported_def given_def)
qed

text \<open>C14: The export as a backup. After an import of an account that lists a shade, reading the saved
  file gives an entry with the shade's address and a key with which a \<open>TiltShadeClient\<close> can be made;
  its position changes reach the shade as in C1, whatever the order of the tasks.\<close>

theorem saved_export_controls_shade:
  assumes "ta_access_token args = None" and "ue_getenv ue ''TILT_ACCESS_TOKEN'' = None" and "\<not> ta_debug args"
    and "tilt_credentials ue args = (username, password)" and "username \<noteq> []" and "token \<noteq> []"
    and "''rooms'' \<notin> fst ` set other"
    and "urlopen \<lparr>rq_url = AUTH0_TOKEN_URL, rq_data = Some (token_payload username password),
       rq_headers = [(''content-type'', ''application/json''), (''accept'', ''application/json'')],
       rq_method = ''POST''\<rparr> = Inr (J_obj tokens)"
    and "map_of tokens ''access_token'' = Some (J_str token)"
    and "urlopen \<lparr>rq_url = TILT_STORE_URL, rq_data = None,
       rq_headers = [(''authorization'', ''Bearer '' @ token), (''accept'', ''application/json'')],
       rq_method = ''GET''\<rparr> = Inr (json_of_store other rooms)"
    and "ue_open ue (ta_output args) = None"
    and "r \<in> set rooms" and "e \<in> set (cr_shades r)" and "ce_id e = Some mac" and "mac \<noteq> []"
    and "ce_key e = Some pairing_key" and "lower pairing_key = hex_text (fs_key (world_shade w))"
    and "ctr_cipher ctr" and "valid_world w" and "fs_proof_key (world_shade w) = fs_key (world_shade w)"
    and "0 \<le> target" and "target \<le> 100"
  shows "\<exists>saved entries kvs hex client w'.
    pr_saved (import_tilt_main urlopen ue args) = Some (ta_output args, saved) \<and>
    loads float_of saved = Read (J_list entries) [] \<and> J_obj kvs \<in> set entries \<and>
    map_of kvs ''mac'' = Some (J_str (upper mac)) \<and> map_of kvs ''key'' = Some (J_str hex) \<and>
    fromhex hex = Some (fs_key (world_shade w)) \<and>
    client_new (upper mac) (fs_key (world_shade w)) None True = Inr client \<and>
    set_position_and_read_status ctr (fake_env sched ctr) client (PyInt target) w =
      (move_result (world_shade w) target, w') \<and>
    world_shade w' = (if fs_position (world_shade w) = target then world_shade w
      else moved_shade (world_shade w) target)"
proof -
  let ?key = "fs_key (world_shade w)"
  have key: "length ?key = 32" using assms(19) by (simp add: valid_world_def valid_shade_def)
  obtain d where d: "d \<in> set (export (ta_include_bridges args) rooms)" "td_mac d = upper mac" "td_key d = hex_text ?key"
    using exported_shade [OF assms(12-17) key] by blast
  then have "export (ta_include_bridges args) rooms \<noteq> []" by auto
  note saved = import_tilt_output [OF assms(1-10) this assms(11)]
  obtain client where client: "client_new (upper mac) ?key None True = Inr client"
    using key by (simp add: client_new_def)
  obtain w' where "set_position_and_read_status ctr (fake_env sched ctr) client (PyInt target) w =
      (move_result (world_shade w) target, w')"
    "world_shade w' = (if fs_position (world_shade w) = target then world_shade w else moved_shade (world_shade w) target)"
    using set_position_fake [OF assms(18) client assms(19) refl assms(20-22)] by blast
  moreover obtain kvs where "as_dict d = J_obj kvs" "map_of kvs ''mac'' = Some (J_str (upper mac))"
    "map_of kvs ''key'' = Some (J_str (hex_text ?key))" using d(2,3) by (simp add: as_dict_def)
  moreover from this(1) d(1) have "J_obj kvs \<in> set (map as_dict (export (ta_include_bridges args) rooms))"
    by (metis image_eqI set_map)
  ultimately show ?thesis using saved export_reads_back client fromhex_hex_text by blast
qed

text \<open>An account with the fake shade of \<open>End_To_End\<close>, its key in upper case.\<close>

definition backup_entry :: cloud_entry where
  "backup_entry =
     \<lparr>ce_id = Some ''aa:05'', ce_name = None, ce_key = Some (upper (hex_text (replicate 32 7)))\<rparr>"

definition backup_room :: cloud_room where
  "backup_room = \<lparr>cr_name = ''Study'', cr_shades = [backup_entry], cr_bridges = []\<rparr>"

definition backup_urlopen :: urlopen where
  "backup_urlopen rq =
     (if rq_method rq = ''POST'' then Inr (J_obj [(''access_token'', J_str ''tok'')])
      else Inr (json_of_store [] [backup_room]))"

theorem saved_export_controls_shade_witness:
  "\<exists>saved client w'.
     pr_saved (import_tilt_main backup_urlopen (example_user (\<lambda>_. None)) example_args) = Some (''tilt-keys.json'', saved) \<and>
     client_new ''AA:05'' (replicate 32 7) None True = Inr client \<and>
     set_position_and_read_status xor_cipher (fake_env next_turn xor_cipher) client (PyInt 60) example_world =
       (Inr (fake_status 600 80, True), w') \<and> fs_position (world_shade w') = 60"
proof -
  have credentials: "tilt_credentials (example_user (\<lambda>_. None)) example_args = (''me'', ''pw'')"
    by (simp add: tilt_credentials_def example_user_def example_args_def str_or_def strip_def is_space_def)
  have key: "lower (upper (hex_text (replicate 32 7))) = hex_text (fs_key (world_shade example_world))"
    unfolding example_world(2) by code_simp
  have sh: "move_result (world_shade example_world) 60 = Inr (fake_status 600 80, True)"
    "fs_position (moved_shade (world_shade example_world) 60) = 60" "fs_position (world_shade example_world) = 20"
    by (simp_all add: move_result_def judged_move_def example_world_def world_shade_def example_shade_def status_of_def
        moved_shade_def travelled_def round_div_def)
  have mac: "upper ''aa:05'' = ''AA:05''" by code_simp
  from saved_export_controls_shade [where urlopen = backup_urlopen and ue = "example_user (\<lambda>_. None)"
      and args = example_args and other = "[]" and rooms = "[backup_room]" and tokens = "[(''access_token'', J_str ''tok'')]"
      and token = "''tok''" and float_of = id and target = 60,
      OF _ _ _ credentials _ _ _ _ _ _ _ _ _ _ _ _ key ctr_cipher_xor_cipher example_world(1), of backup_room backup_entry "''aa:05''" next_turn]
  moreover have "ta_access_token example_args = None" "\<not> ta_debug example_args"
    "ta_output example_args = ''tilt-keys.json''" "ue_getenv (example_user (\<lambda>_. None)) v = None"
    "ue_open (example_user (\<lambda>_. None)) f = None" for v f
    by (simp_all add: example_args_def example_user_def)
  ultimately obtain saved client w' where
    "pr_saved (import_tilt_main backup_urlopen (example_user (\<lambda>_. None)) example_args) = Some (''tilt-keys.json'', saved)"
    "client_new ''AA:05'' (replicate 32 7) None True = Inr client"
    "set_position_and_read_status xor_cipher (fake_env next_turn xor_cipher) client (PyInt 60) example_world =
      (Inr (fake_status 600 80, True), w')"
    "world_shade w' = moved_shade (world_shade example_world) 60"
    unfolding mac sh(1,3) example_world(2,3)
    by (auto simp: backup_urlopen_def backup_room_def backup_entry_def simp del: split_paired_Ex)
  then show ?thesis using sh(2) by (metis (no_types))
qed

subsection \<open>The legacy export\<close>

lemma writable_listed: "writable float_of (cloud_blind_dict (listed_blind rooms b))"
  by (simp add: cloud_blind_dict_def listed_blind_def split: option.split)

text \<open>C15: The legacy export as a backup. For an account whose rooms have distinct ids,
  \<open>smartblinds-import-cloud\<close> saves its shades, in order, the deleted ones only on request, each with
  its room's name; what it saves reads back, and the entry of each shade has its address and a key
  from which a \<open>SmartBlind\<close> gets exactly the bytes of the shade's passkey.\<close>

theorem saved_cloud_export_makes_blinds:
  assumes "cloud_credentials ue args = (username, password)" and "\<not> ca_debug args"
    and "la_installed api" and "la_login api username password = Inr (J_obj tokens)"
    and "map_of tokens (ca_token args) = Some (J_str bearer)" and "bearer \<noteq> []"
    and "la_post api bearer USER_QUERY = Inr (json_of_account rooms blinds)"
    and "distinct (map fst rooms)" and "ue_open ue (ca_output args) = None"
    and "b \<in> set blinds" and "ab_deleted b \<longrightarrow> ca_include_deleted args"
  shows "\<exists>saved entries kvs hex.
    pr_saved (import_cloud_main api ue args) = Some (ca_output args, saved) \<and>
    loads float_of saved = Read (J_list entries) [] \<and>
    entries = map (\<lambda>b. cloud_blind_dict (listed_blind rooms b))
      (filter (\<lambda>b. ab_deleted b \<longrightarrow> ca_include_deleted args) blinds) \<and>
    J_obj kvs \<in> set entries \<and> map_of kvs ''mac'' = Some (J_str (format_mac (ab_mac b))) \<and>
    map_of kvs ''key'' = Some (J_str hex) \<and>
    blind_new (format_mac (ab_mac b)) (Key_str hex) =
      Inr \<lparr>bl_address = format_mac (ab_mac b), bl_key = ab_passkey b, bl_position = 0\<rparr>"
proof -
  let ?listed = "filter (\<lambda>b. ab_deleted b \<longrightarrow> ca_include_deleted args) blinds"
  let ?entries = "map (\<lambda>b. cloud_blind_dict (listed_blind rooms b)) ?listed"
  note fetch = fetch_blinds_account [OF assms(3-8), of "ca_include_deleted args" "format_mac (ab_mac b)" b]
  have b: "b \<in> set ?listed" using assms(10,11) by simp
  then have "?listed \<noteq> []" by (metis list.set(1) empty_iff)
  then have "pr_saved (import_cloud_main api ue args) = Some (ca_output args, dumps (J_list ?entries))"
    using fetch assms(1,2,9) by (simp add: import_cloud_main_def comp_def)
  moreover have "loads float_of (dumps (J_list ?entries)) = Read (J_list ?entries) []"
    by (rule json_reads_back) (simp add: writable_listed)
  moreover obtain kvs where "cloud_blind_dict (listed_blind rooms b) = J_obj kvs"
    "map_of kvs ''mac'' = Some (J_str (format_mac (ab_mac b)))"
    "map_of kvs ''key'' = Some (J_str (cb_key (listed_blind rooms b)))"
    by (simp add: cloud_blind_dict_def listed_blind_def)
  moreover from this(1) b have "J_obj kvs \<in> set ?entries" by (metis (mono_tags, lifting) image_eqI set_map)
  ultimately show ?thesis using fetch by blast
qed

definition example_cloud_args :: cloud_args where
  "example_cloud_args =
     \<lparr>ca_username = None, ca_output = ''keys.json'', ca_include_deleted = False, ca_token = ''access_token'',
      ca_debug = False\<rparr>"

theorem saved_cloud_export_makes_blinds_witness:
  "\<exists>saved hex.
     pr_saved (import_cloud_main example_api (example_user (\<lambda>_. None)) example_cloud_args) = Some (''keys.json'', saved) \<and>
     blind_new (format_mac [1, 2, 3, 4, 5, 0xAB]) (Key_str hex) =
       Inr \<lparr>bl_address = format_mac [1, 2, 3, 4, 5, 0xAB], bl_key = [0x7F, 0, 0x1C, 9], bl_position = 0\<rparr>"
proof -
  have credentials: "cloud_credentials (example_user (\<lambda>_. None)) example_cloud_args = (''me'', ''pw'')"
    by (simp add: cloud_credentials_def example_user_def example_cloud_args_def str_or_def strip_def is_space_def)
  have "hd example_blinds \<in> set example_blinds" by (simp add: example_blinds_def)
  from saved_cloud_export_makes_blinds [OF credentials _ _ _ _ _ _ _ _ this, where api = example_api
      and tokens = "[(''access_token'', J_str ''tok'')]" and bearer = "''tok''" and rooms = "[(''r1'', ''Office'')]"
      and float_of = "\<lambda>r. r"]
  show ?thesis
    by (simp add: example_api_def example_cloud_args_def example_user_def) (auto simp: example_blinds_def)
qed

end
