(* ===== verification/Packet_Log.thy ===== *)
theory Packet_Log
  imports Json "HOL-Library.AList"
begin

text \<open>
  \<open>contrib/parse_pklg.py\<close>: the records of an Apple PacketLogger file, the reassembly of ATT PDUs
  from ACL fragments and the transcript printed of them.

  The generator \<open>records\<close> is the list of what it yields. The reassembly state is a map from
  connection handles to the PDU under way. The arrow of a transcript line is a \<open>direction\<close>.
\<close>

subsection \<open>Records\<close>

definition le :: "bytes \<Rightarrow> nat" where
  "le bs = nat (from_bytes_little bs)"

function records_from :: "bytes \<Rightarrow> nat \<Rightarrow> (byte \<times> bytes) list" where
  "records_from buf pos =
     (if pos + 13 \<le> length buf
      then let len = le (take 4 (drop pos buf))
           in if len < 9 \<or> length buf < pos + 4 + len then []
              else (buf ! (pos + 12), take (len - 9) (drop (pos + 13) buf)) # records_from buf (pos + 4 + len)
      else [])"
  by pat_completeness auto

termination
  by (relation "measure (\<lambda>(buf, pos). length buf - pos)") auto

declare records_from.simps [simp del]

definition records :: "bytes \<Rightarrow> (byte \<times> bytes) list" where
  "records buf = records_from buf 0"

subsection \<open>Reassembly\<close>

definition ATT_CID :: nat where
  "ATT_CID = 4"

definition SMP_CID :: nat where
  "SMP_CID = 6"

definition SMP_TAG :: bytes where
  "SMP_TAG = [0, 83, 77, 80, 58]"

record fragment =
  fr_cid :: nat
  fr_need :: nat
  fr_data :: bytes

type_synonym reasm = "nat \<Rightarrow> fragment option"

definition complete_fragment :: "nat \<Rightarrow> fragment \<Rightarrow> reasm \<Rightarrow> bytes option \<times> reasm" where
  "complete_fragment conn buf reasm =
     (if fr_need buf \<le> length (fr_data buf)
      then (if fr_cid buf = ATT_CID then Some (take (fr_need buf) (fr_data buf))
            else if fr_cid buf = SMP_CID then Some (SMP_TAG @ take (fr_need buf) (fr_data buf))
            else None,
            reasm(conn := None))
      else (None, reasm(conn := Some buf)))"

definition acl_connection :: "bytes \<Rightarrow> nat" where
  "acl_connection payload = le (take 2 payload) AND 0x0FFF"

definition acl_boundary :: "bytes \<Rightarrow> nat" where
  "acl_boundary payload = drop_bit 12 (le (take 2 payload)) AND 3"

definition acl_data :: "bytes \<Rightarrow> bytes" where
  "acl_data payload = take (le (take 2 (drop 2 payload))) (drop 4 payload)"

definition att_from_acl :: "bytes \<Rightarrow> reasm \<Rightarrow> bytes option \<times> reasm" where
  "att_from_acl payload reasm =
     (if length payload < 4 then (None, reasm)
      else let conn = acl_connection payload; data = acl_data payload
           in if acl_boundary payload = 1
              then case reasm conn of
                  None \<Rightarrow> (None, reasm)
                | Some buf \<Rightarrow> complete_fragment conn (buf\<lparr>fr_data := fr_data buf @ data\<rparr>) reasm
              else if length data < 4 then (None, reasm)
              else complete_fragment conn
                     \<lparr>fr_cid = le (take 2 (drop 2 data)), fr_need = le (take 2 data), fr_data = drop 4 data\<rparr>
                     reasm)"

text \<open>The PDUs of a sequence of ACL payloads, each with its connection.\<close>

fun acl_run :: "reasm \<Rightarrow> bytes list \<Rightarrow> (nat \<times> bytes) list" where
  "acl_run reasm [] = []"
| "acl_run reasm (p # ps) =
     (case att_from_acl p reasm of
        (None, reasm') \<Rightarrow> acl_run reasm' ps
      | (Some pdu, reasm') \<Rightarrow> (acl_connection p, pdu) # acl_run reasm' ps)"

subsection \<open>The transcript\<close>

datatype direction = Sent | Received

definition ATT_OPS :: "(nat \<times> string) list" where
  "ATT_OPS =
     [(0x01, ''ERROR_RSP''), (0x02, ''MTU_REQ''), (0x03, ''MTU_RSP''), (0x04, ''FIND_INFO_REQ''),
      (0x05, ''FIND_INFO_RSP''), (0x06, ''FIND_BY_TYPE_REQ''), (0x07, ''FIND_BY_TYPE_RSP''),
      (0x08, ''READ_BY_TYPE_REQ''), (0x09, ''READ_BY_TYPE_RSP''), (0x0A, ''READ_REQ''), (0x0B, ''READ_RSP''),
      (0x0C, ''READ_BLOB_REQ''), (0x0D, ''READ_BLOB_RSP''), (0x10, ''READ_BY_GROUP_REQ''),
      (0x11, ''READ_BY_GROUP_RSP''), (0x12, ''WRITE_REQ''), (0x13, ''WRITE_RSP''),
      (0x16, ''PREPARE_WRITE_REQ''), (0x17, ''PREPARE_WRITE_RSP''), (0x18, ''EXEC_WRITE_REQ''),
      (0x19, ''EXEC_WRITE_RSP''), (0x1B, ''NOTIFY''), (0x1D, ''INDICATE''), (0x1E, ''CONFIRM''),
      (0x52, ''WRITE_CMD''), (0xD2, ''SIGNED_WRITE_CMD'')]"

definition HANDLE_VALUE_OPS :: "nat set" where
  "HANDLE_VALUE_OPS = {0x12, 0x52, 0x1B, 0x1D, 0xD2}"

definition HANDLE_ONLY_OPS :: "nat set" where
  "HANDLE_ONLY_OPS = {0x0A, 0x0C}"

definition VALUE_ONLY_OPS :: "nat set" where
  "VALUE_ONLY_OPS = {0x0B, 0x0D}"

definition op_name :: "nat \<Rightarrow> string" where
  "op_name opcode = (case map_of ATT_OPS opcode of Some n \<Rightarrow> n | None \<Rightarrow> ''0x'' @ hex_padded 2 opcode)"

text \<open>The line of a PDU after its arrow.\<close>

definition att_line :: "nat \<Rightarrow> bytes \<Rightarrow> string" where
  "att_line opcode rest =
     (let line = '' '' @ ljust 18 (op_name opcode)
      in if opcode \<in> HANDLE_VALUE_OPS \<and> 2 \<le> length rest
         then let h = le (take 2 rest); val = drop 2 rest
              in line @ '' handle=0x'' @ hex_padded 4 h @ '' len='' @ ljust 3 (str_of_int (int (length val))) @
                 '' '' @ hex_text val @
                 (if length val \<le> 4 then ''  (int='' @ str_of_int (from_bytes_little val) @ '')'' else [])
         else if opcode \<in> HANDLE_ONLY_OPS \<and> 2 \<le> length rest
         then line @ '' handle=0x'' @ hex_padded 4 (le (take 2 rest))
         else if opcode \<in> VALUE_ONLY_OPS
         then line @ '' len='' @ ljust 3 (str_of_int (int (length rest))) @ '' '' @ hex_text rest
         else if (opcode = 2 \<or> opcode = 3) \<and> 2 \<le> length rest
         then line @ '' mtu='' @ str_of_int (int (le (take 2 rest)))
         else line @ '' '' @ hex_text rest)"

record transcript =
  tr_tx :: reasm
  tr_rx :: reasm
  tr_types :: "(nat \<times> nat) list"
  tr_att_count :: nat
  tr_handle_lens :: "(nat \<times> nat list) list"
  tr_lines :: "(direction \<times> string) list"

definition transcript_new :: transcript where
  "transcript_new =
     \<lparr>tr_tx = (\<lambda>_. None), tr_rx = (\<lambda>_. None), tr_types = [], tr_att_count = 0, tr_handle_lens = [],
      tr_lines = []\<rparr>"

definition is_smp :: "bytes \<Rightarrow> bool" where
  "is_smp pdu \<longleftrightarrow> take 5 pdu = SMP_TAG"

definition note_handle :: "nat \<Rightarrow> bytes \<Rightarrow> transcript \<Rightarrow> transcript" where
  "note_handle opcode rest t =
     (if opcode \<in> HANDLE_VALUE_OPS \<and> 2 \<le> length rest
      then let h = le (take 2 rest); n = length (drop 2 rest);
               lens = (case map_of (tr_handle_lens t) h of None \<Rightarrow> [] | Some ls \<Rightarrow> ls)
           in t\<lparr>tr_handle_lens := AList.update h (List.insert n lens) (tr_handle_lens t)\<rparr>
      else t)"

definition INTERESTING_OPS :: "nat set" where
  "INTERESTING_OPS = {0x12, 0x52, 0x0A, 0x0B, 0x1B, 0x1D, 0xD2, 0x0C, 0x0D}"

definition note_pdu :: "bool \<Rightarrow> direction \<Rightarrow> bytes \<Rightarrow> transcript \<Rightarrow> transcript" where
  "note_pdu show_all dir pdu t =
     (if pdu = [] then t
      else if is_smp pdu then t\<lparr>tr_lines := tr_lines t @ [(dir, '' SMP  '' @ hex_text (drop 5 pdu))]\<rparr>
      else let opcode = unat (pdu ! 0); rest = drop 1 pdu; t1 = note_handle opcode rest t;
               t2 = t1\<lparr>tr_att_count := tr_att_count t1 + 1\<rparr>
           in if opcode \<in> INTERESTING_OPS \<or> show_all
              then t2\<lparr>tr_lines := tr_lines t2 @ [(dir, att_line opcode rest)]\<rparr> else t2)"

definition note_record :: "bool \<Rightarrow> byte \<times> bytes \<Rightarrow> transcript \<Rightarrow> transcript" where
  "note_record show_all rec t =
     (let (ptype, payload) = rec;
          n = (case map_of (tr_types t) (unat ptype) of None \<Rightarrow> 0 | Some n \<Rightarrow> n);
          t1 = t\<lparr>tr_types := AList.update (unat ptype) (n + 1) (tr_types t)\<rparr>
      in if ptype = 2
         then (let (pdu, reasm) = att_from_acl payload (tr_tx t1); t2 = t1\<lparr>tr_tx := reasm\<rparr>
               in case pdu of None \<Rightarrow> t2 | Some d \<Rightarrow> note_pdu show_all Sent d t2)
         else if ptype = 3
         then (let (pdu, reasm) = att_from_acl payload (tr_rx t1); t2 = t1\<lparr>tr_rx := reasm\<rparr>
               in case pdu of None \<Rightarrow> t2 | Some d \<Rightarrow> note_pdu show_all Received d t2)
         else t1)"

definition transcript_of :: "bool \<Rightarrow> bytes \<Rightarrow> transcript" where
  "transcript_of show_all buf = fold (note_record show_all) (records buf) transcript_new"

definition summary_lines :: "transcript \<Rightarrow> string list" where
  "summary_lines t =
     [char_of (10 :: nat) # ''=== summary ==='',
      ''record types: '' @ py_repr (J_obj (map (\<lambda>k. (''0x'' @ hex_padded 2 k,
        J_int (int (the (map_of (tr_types t) k))))) (sort (map fst (tr_types t))))),
      ''total ATT PDUs: '' @ str_of_int (int (tr_att_count t)),
      ''handles written/notified (handle: value-lengths seen):''] @
     map (\<lambda>h. ''  0x'' @ hex_padded 4 h @ '': '' @
        py_repr (J_list (map (J_int \<circ> int) (sort (the (map_of (tr_handle_lens t) h))))))
       (sort (map fst (tr_handle_lens t)))"

subsection \<open>Captures\<close>

text \<open>
  \<open>main\<close>: the first argument that is not an option names the capture; without one the usage is
  printed and the program exits.
\<close>

datatype pklg_ending = Usage_exit string | Cannot_open | Printed "(direction \<times> string) list" "string list"

definition pklg_main :: "(string \<Rightarrow> bytes option) \<Rightarrow> string list \<Rightarrow> pklg_ending" where
  "pklg_main open_file argv =
     (let args = filter (\<lambda>a. take 2 a \<noteq> ''--'') argv; flags = filter (\<lambda>a. take 2 a = ''--'') argv
      in case args of
           [] \<Rightarrow> Usage_exit ''usage: parse_pklg.py capture.pklg [--all]''
         | path # _ \<Rightarrow>
             (case open_file path of
                None \<Rightarrow> Cannot_open
              | Some buf \<Rightarrow>
                  (let t = transcript_of (''--all'' \<in> set flags) buf
                   in Printed (tr_lines t) (summary_lines t))))"

text \<open>A record of a capture: time stamp, type and payload.\<close>

type_synonym capture_record = "bytes \<times> byte \<times> bytes"

definition record_ok :: "capture_record \<Rightarrow> bool" where
  "record_ok r \<longleftrightarrow> length (fst r) = 8 \<and> length (snd (snd r)) + 9 < 2 ^ 32"

definition encode_record :: "capture_record \<Rightarrow> bytes" where
  "encode_record r =
     to_bytes_little 4 (int (length (snd (snd r)) + 9)) @ fst r @ [fst (snd r)] @ snd (snd r)"

lemma le_to_bytes: "x < 256 ^ n \<Longrightarrow> le (to_bytes_little n (int x)) = x"
  by (simp add: le_def from_to_bytes_little)

lemma length_encode_record: "record_ok r \<Longrightarrow> length (encode_record r) = 13 + length (snd (snd r))"
  by (simp add: encode_record_def record_ok_def)

lemma records_from_step:
  assumes "record_ok r"
  shows "records_from (pre @ encode_record r @ rest) (length pre) =
    snd r # records_from (pre @ encode_record r @ rest) (length (pre @ encode_record r))"
proof -
  obtain ts ptype payload where r: "r = (ts, ptype, payload)" by (cases r)
  let ?buf = "pre @ encode_record r @ rest"
  have ts: "length ts = 8" and small: "length payload + 9 < 256 ^ 4"
    using assms by (simp_all add: r record_ok_def)
  have "take 4 (drop (length pre) ?buf) = to_bytes_little 4 (int (length payload + 9))"
    by (simp add: encode_record_def r)
  then have len: "le (take 4 (drop (length pre) ?buf)) = length payload + 9"
    using le_to_bytes [OF small] by simp
  have "drop (length pre + 13) ?buf = payload @ rest" using ts
    by (simp add: encode_record_def r)
  moreover have "?buf ! (length pre + 12) = ptype" using ts
    by (simp add: encode_record_def r nth_append)
  ultimately show ?thesis
    using ts by (subst records_from.simps, unfold Let_def len)
      (simp add: r length_encode_record [OF assms, unfolded r] add.commute add.left_commute)
qed

lemma records_capture:
  assumes "list_all record_ok rs" and "length rest < 13"
  shows "records_from (pre @ concat (map encode_record rs) @ rest) (length pre) = map snd rs"
  using assms(1)
proof (induction rs arbitrary: pre)
  case Nil
  then show ?case using assms(2) by (subst records_from.simps) simp
next
  case (Cons r rs)
  then show ?case
    using records_from_step [of r pre "concat (map encode_record rs) @ rest"] Cons.IH [of "pre @ encode_record r"]
    by simp
qed

subsection \<open>Connections are independent\<close>

lemma att_from_acl_elsewhere:
  "c \<noteq> acl_connection p \<Longrightarrow> snd (att_from_acl p r) c = r c"
  by (auto simp: att_from_acl_def complete_fragment_def Let_def split: option.splits)

lemma att_from_acl_local:
  "r (acl_connection p) = s (acl_connection p) \<Longrightarrow>
     fst (att_from_acl p r) = fst (att_from_acl p s) \<and>
     snd (att_from_acl p r) (acl_connection p) = snd (att_from_acl p s) (acl_connection p)"
  by (auto simp: att_from_acl_def complete_fragment_def Let_def split: option.splits)

lemma acl_run_Cons:
  "acl_run r (p # ps) =
     (case fst (att_from_acl p r) of None \<Rightarrow> [] | Some pdu \<Rightarrow> [(acl_connection p, pdu)]) @
     acl_run (snd (att_from_acl p r)) ps"
  by (simp split: prod.split option.split)

declare acl_run.simps(2) [simp del]

lemma acl_run_connection:
  "r c = s c \<Longrightarrow>
   filter (\<lambda>x. fst x = c) (acl_run r ps) = acl_run s (filter (\<lambda>p. acl_connection p = c) ps)"
proof (induction ps arbitrary: r s)
  case Nil
  then show ?case by simp
next
  case (Cons p ps)
  show ?case
  proof (cases "acl_connection p = c")
    case True
    have "r (acl_connection p) = s (acl_connection p)" using True Cons.prems by simp
    note loc = att_from_acl_local [where r = r and s = s, OF this]
    have "filter (\<lambda>x. fst x = c) (acl_run (snd (att_from_acl p r)) ps) =
        acl_run (snd (att_from_acl p s)) (filter (\<lambda>p. acl_connection p = c) ps)"
      using loc True by (intro Cons.IH) simp
    with loc True show ?thesis by (simp add: acl_run_Cons split: option.split)
  next
    case False
    then have "snd (att_from_acl p r) c = s c" using att_from_acl_elsewhere [of c p r] Cons.prems by simp
    from Cons.IH [where r = "snd (att_from_acl p r)" and s = s, OF this] False show ?thesis
      by (simp add: acl_run_Cons split: option.split)
  qed
qed

subsection \<open>Fragments\<close>

definition acl_packet :: "nat \<Rightarrow> nat \<Rightarrow> bytes \<Rightarrow> bytes" where
  "acl_packet conn boundary data =
     to_bytes_little 2 (int (conn + 4096 * boundary)) @ to_bytes_little 2 (int (length data)) @ data"

definition l2cap_frame :: "bytes \<Rightarrow> bytes" where
  "l2cap_frame pdu = to_bytes_little 2 (int (length pdu)) @ to_bytes_little 2 (int ATT_CID) @ pdu"

text \<open>
  An ATT PDU sent as ACL packets of one connection: a start packet holding at least the L2CAP
  header and non-empty continuations.
\<close>

definition cut_ok :: "bytes \<Rightarrow> bytes list \<Rightarrow> bool" where
  "cut_ok pdu pieces \<longleftrightarrow>
     length pdu < 65536 \<and> concat pieces = l2cap_frame pdu \<and>
     (case pieces of [] \<Rightarrow> False
      | p # ps \<Rightarrow> 4 \<le> length p \<and> list_all (\<lambda>q. q \<noteq> [] \<and> length q < 65536) ps \<and> length p < 65536)"

fun acl_fragments :: "nat \<Rightarrow> bytes list \<Rightarrow> bytes list" where
  "acl_fragments conn [] = []"
| "acl_fragments conn (p # ps) = acl_packet conn 2 p # map (acl_packet conn 1) ps"

lemma acl_packet_fields:
  assumes "conn < 4096" and "boundary < 4" and "length data < 65536"
  shows "acl_connection (acl_packet conn boundary data) = conn"
    and "acl_boundary (acl_packet conn boundary data) = boundary"
    and "acl_data (acl_packet conn boundary data) = data"
    and "4 \<le> length (acl_packet conn boundary data)"
proof -
  have f: "le (take 2 (acl_packet conn boundary data)) = conn + 4096 * boundary"
    using assms le_to_bytes [of "conn + 4096 * boundary" 2] by (simp add: acl_packet_def)
  have m: "(0x0FFF :: nat) = mask 12" "(3 :: nat) = mask 2" by (simp_all add: mask_eq_exp_minus_1)
  show "acl_connection (acl_packet conn boundary data) = conn"
    using assms unfolding acl_connection_def f m take_bit_eq_mask [symmetric] by (simp add: take_bit_eq_mod)
  show "acl_boundary (acl_packet conn boundary data) = boundary"
    using assms unfolding acl_boundary_def f m take_bit_eq_mask [symmetric]
    by (simp add: take_bit_eq_mod drop_bit_eq_div)
  show "acl_data (acl_packet conn boundary data) = data"
    using assms le_to_bytes [of "length data" 2] by (simp add: acl_data_def acl_packet_def)
  show "4 \<le> length (acl_packet conn boundary data)" by (simp add: acl_packet_def)
qed

lemma acl_run_continue:
  assumes conn: "conn < 4096"
  shows "r conn = Some \<lparr>fr_cid = ATT_CID, fr_need = length d + length (concat ps), fr_data = d\<rparr> \<Longrightarrow> ps \<noteq> [] \<Longrightarrow>
    list_all (\<lambda>q. q \<noteq> [] \<and> length q < 65536) ps \<Longrightarrow>
    acl_run r (map (acl_packet conn 1) ps @ rest) = (conn, d @ concat ps) # acl_run (r(conn := None)) rest"
proof (induction ps arbitrary: r d)
  case Nil
  then show ?case by simp
next
  case (Cons p ps)
  have p: "length p < 65536" "p \<noteq> []" using Cons.prems(3) by simp_all
  note f = acl_packet_fields [OF conn _ p(1), of 1, simplified]
  let ?b = "\<lparr>fr_cid = ATT_CID, fr_need = length d + length (concat (p # ps)), fr_data = d @ p\<rparr>"
  have att: "att_from_acl (acl_packet conn 1 p) r = complete_fragment conn ?b r"
    using f Cons.prems(1) by (simp add: att_from_acl_def)
  show ?case
  proof (cases "ps = []")
    case True
    then show ?thesis using att f by (simp add: acl_run_Cons complete_fragment_def fun_upd_def)
  next
    case False
    then have "concat ps \<noteq> []" using Cons.prems(3) by (cases ps) auto
    then have "att_from_acl (acl_packet conn 1 p) r = (None, r(conn := Some ?b))"
      using att by (simp add: complete_fragment_def)
    then show ?thesis
      using Cons.IH [of "r(conn := Some ?b)" "d @ p"] Cons.prems(3) False
      by (simp add: acl_run_Cons add.assoc fun_upd_def if_distrib cong: if_cong)
  qed
qed

lemma acl_run_fragments:
  assumes conn: "conn < 4096" and cut: "cut_ok pdu pieces"
  shows "acl_run r (acl_fragments conn pieces @ rest) = (conn, pdu) # acl_run (r(conn := None)) rest"
proof -
  obtain p ps where pieces: "pieces = p # ps" using cut by (cases pieces) (auto simp: cut_ok_def)
  have frame: "p @ concat ps = l2cap_frame pdu" and len: "length pdu < 256 ^ 2" "4 \<le> length p" "length p < 65536"
    and ps: "list_all (\<lambda>q. q \<noteq> [] \<and> length q < 65536) ps"
    using cut by (simp_all add: cut_ok_def pieces)
  have "take 4 p = take 4 (l2cap_frame pdu)" using len(2) by (simp flip: frame)
  then have head: "take 4 p = to_bytes_little 2 (int (length pdu)) @ to_bytes_little 2 (int ATT_CID)"
    by (simp add: l2cap_frame_def)
  have "take 2 p = take 2 (take 4 p)" "take 2 (drop 2 p) = drop 2 (take 4 p)" by (simp_all add: drop_take)
  then have fields: "le (take 2 p) = length pdu" "le (take 2 (drop 2 p)) = ATT_CID"
    using le_to_bytes [OF len(1)] le_to_bytes [of ATT_CID 2] by (simp_all add: head ATT_CID_def)
  have "drop 4 p @ concat ps = drop 4 (l2cap_frame pdu)" using len(2) by (simp flip: frame)
  then have data: "drop 4 p @ concat ps = pdu" by (simp add: l2cap_frame_def)
  then have need: "length pdu = length (drop 4 p) + length (concat ps)" by (metis length_append)
  note f = acl_packet_fields [OF conn _ len(3), of 2, simplified]
  let ?b = "\<lparr>fr_cid = ATT_CID, fr_need = length pdu, fr_data = drop 4 p\<rparr>"
  have att: "att_from_acl (acl_packet conn 2 p) r = complete_fragment conn ?b r"
    using f len(2) fields by (simp add: att_from_acl_def)
  show ?thesis
  proof (cases "ps = []")
    case True
    then have "drop 4 p = pdu" using data by simp
    then show ?thesis using att f True by (simp add: acl_run_Cons pieces complete_fragment_def fun_upd_def)
  next
    case False
    then have "concat ps \<noteq> []" using ps by (cases ps) auto
    then have "att_from_acl (acl_packet conn 2 p) r = (None, r(conn := Some ?b))"
      using att need by (simp add: complete_fragment_def)
    then show ?thesis
      using acl_run_continue [OF conn, of "r(conn := Some ?b)" "drop 4 p" ps rest] ps False data
      by (simp add: acl_run_Cons pieces need)
  qed
qed

lemma acl_run_stream:
  "conn < 4096 \<Longrightarrow> list_all (\<lambda>(pdu, pieces). cut_ok pdu pieces) cuts \<Longrightarrow>
   map snd (acl_run r (concat (map (acl_fragments conn \<circ> snd) cuts))) = map fst cuts"
  by (induction cuts arbitrary: r) (auto simp: acl_run_fragments)

subsection \<open>Specification of the transcript\<close>

definition payloads :: "byte \<Rightarrow> (byte \<times> bytes) list \<Rightarrow> bytes list" where
  "payloads ptype rs = map snd (filter (\<lambda>r. fst r = ptype) rs)"

text \<open>The PDUs of one direction of a capture, each with its connection.\<close>

definition capture_pdus :: "byte \<Rightarrow> bytes \<Rightarrow> (nat \<times> bytes) list" where
  "capture_pdus ptype buf = acl_run (\<lambda>_. None) (payloads ptype (records buf))"

definition is_att :: "bytes \<Rightarrow> bool" where
  "is_att pdu \<longleftrightarrow> pdu \<noteq> [] \<and> \<not> is_smp pdu"

definition pdu_lines :: "bool \<Rightarrow> bytes \<Rightarrow> string list" where
  "pdu_lines show_all pdu =
     (if pdu = [] then []
      else if is_smp pdu then ['' SMP  '' @ hex_text (drop 5 pdu)]
      else if unat (pdu ! 0) \<in> INTERESTING_OPS \<or> show_all then [att_line (unat (pdu ! 0)) (drop 1 pdu)]
      else [])"

definition lines_of :: "direction \<Rightarrow> transcript \<Rightarrow> string list" where
  "lines_of dir t = map snd (filter (\<lambda>l. fst l = dir) (tr_lines t))"

lemma note_handle_simps [simp]:
  "tr_tx (note_handle opc rest t) = tr_tx t" "tr_rx (note_handle opc rest t) = tr_rx t"
  "tr_att_count (note_handle opc rest t) = tr_att_count t" "tr_lines (note_handle opc rest t) = tr_lines t"
  by (simp_all add: note_handle_def Let_def)

lemma note_pdu_simps [simp]:
  "tr_tx (note_pdu b dir pdu t) = tr_tx t" "tr_rx (note_pdu b dir pdu t) = tr_rx t"
  "tr_att_count (note_pdu b dir pdu t) = tr_att_count t + (if is_att pdu then 1 else 0)"
  "lines_of dir (note_pdu b dir pdu t) = lines_of dir t @ pdu_lines b pdu"
  "dir' \<noteq> dir \<Longrightarrow> lines_of dir' (note_pdu b dir pdu t) = lines_of dir' t"
  by (simp_all add: note_pdu_def is_att_def lines_of_def pdu_lines_def Let_def)

lemma note_record_simps:
  "tr_tx (note_record b (ptype, p) t) = (if ptype = 2 then snd (att_from_acl p (tr_tx t)) else tr_tx t)"
  "tr_rx (note_record b (ptype, p) t) = (if ptype = 3 then snd (att_from_acl p (tr_rx t)) else tr_rx t)"
  "lines_of Sent (note_record b (ptype, p) t) =
     lines_of Sent t @ (if ptype = 2 then case fst (att_from_acl p (tr_tx t)) of None \<Rightarrow> [] | Some d \<Rightarrow> pdu_lines b d
       else [])"
  "lines_of Received (note_record b (ptype, p) t) =
     lines_of Received t @ (if ptype = 3 then case fst (att_from_acl p (tr_rx t)) of None \<Rightarrow> [] | Some d \<Rightarrow> pdu_lines b d
       else [])"
  "tr_att_count (note_record b (ptype, p) t) = tr_att_count t +
     (case fst (att_from_acl p (if ptype = 2 then tr_tx t else tr_rx t)) of
        Some d \<Rightarrow> (if (ptype = 2 \<or> ptype = 3) \<and> is_att d then 1 else 0) | None \<Rightarrow> 0)"
proof -
  have set: "lines_of d (t\<lparr>tr_types := x\<rparr>) = lines_of d t" "lines_of d (t\<lparr>tr_types := x, tr_tx := y\<rparr>) = lines_of d t"
    "lines_of d (t\<lparr>tr_types := x, tr_rx := y\<rparr>) = lines_of d t" for d x y
    by (simp_all add: lines_of_def)
  obtain q y where tx: "att_from_acl p (tr_tx t) = (q, y)" by (cases "att_from_acl p (tr_tx t)")
  obtain q' y' where rx: "att_from_acl p (tr_rx t) = (q', y')" by (cases "att_from_acl p (tr_rx t)")
  show "tr_tx (note_record b (ptype, p) t) = (if ptype = 2 then snd (att_from_acl p (tr_tx t)) else tr_tx t)"
    "tr_rx (note_record b (ptype, p) t) = (if ptype = 3 then snd (att_from_acl p (tr_rx t)) else tr_rx t)"
    "lines_of Sent (note_record b (ptype, p) t) =
       lines_of Sent t @ (if ptype = 2 then case fst (att_from_acl p (tr_tx t)) of None \<Rightarrow> [] | Some d \<Rightarrow> pdu_lines b d
         else [])"
    "lines_of Received (note_record b (ptype, p) t) =
       lines_of Received t @ (if ptype = 3 then case fst (att_from_acl p (tr_rx t)) of None \<Rightarrow> [] | Some d \<Rightarrow> pdu_lines b d
         else [])"
    "tr_att_count (note_record b (ptype, p) t) = tr_att_count t +
       (case fst (att_from_acl p (if ptype = 2 then tr_tx t else tr_rx t)) of
          Some d \<Rightarrow> (if (ptype = 2 \<or> ptype = 3) \<and> is_att d then 1 else 0) | None \<Rightarrow> 0)"
    by (cases q; cases q'; simp add: note_record_def Let_def tx rx set)+
qed

lemma transcript_fold:
  "lines_of Sent (fold (note_record b) rs t) =
     lines_of Sent t @ concat (map (pdu_lines b \<circ> snd) (acl_run (tr_tx t) (payloads 2 rs))) \<and>
   lines_of Received (fold (note_record b) rs t) =
     lines_of Received t @ concat (map (pdu_lines b \<circ> snd) (acl_run (tr_rx t) (payloads 3 rs))) \<and>
   tr_att_count (fold (note_record b) rs t) = tr_att_count t +
     length (filter (is_att \<circ> snd) (acl_run (tr_tx t) (payloads 2 rs) @ acl_run (tr_rx t) (payloads 3 rs)))"
proof (induction rs arbitrary: t)
  case Nil
  then show ?case by (simp add: payloads_def)
next
  case (Cons r rs)
  obtain ptype p where r: "r = (ptype, p)" by (cases r)
  show ?case
    using Cons.IH [of "note_record b r t"]
    by (cases "ptype = 2"; cases "ptype = 3")
      (auto simp: r payloads_def note_record_simps acl_run_Cons split: option.splits)
qed

subsection \<open>Properties\<close>

text \<open>C35: The transcript lists, for each direction separately and in order, exactly the lines of the
  PDUs reassembled from that direction's ACL records, whatever records are interleaved with them,
  and counts each non-empty PDU that is not a security-manager one.\<close>

theorem transcript_refines_reassembly:
  "lines_of Sent (transcript_of show_all buf) = concat (map (pdu_lines show_all \<circ> snd) (capture_pdus 2 buf)) \<and>
   lines_of Received (transcript_of show_all buf) = concat (map (pdu_lines show_all \<circ> snd) (capture_pdus 3 buf)) \<and>
   tr_att_count (transcript_of show_all buf) =
     length (filter (is_att \<circ> snd) (capture_pdus 2 buf @ capture_pdus 3 buf))"
  using transcript_fold [of show_all "records buf" transcript_new]
  by (simp add: transcript_of_def capture_pdus_def transcript_new_def lines_of_def)

text \<open>C16: Capture a connection's ATT PDUs, each cut into ACL packets in any way that keeps its L2CAP
  header together, among any other records and other connections' packets: parsing the file yields
  exactly those PDUs of that connection, in order. A truncated record at the end is ignored.\<close>

theorem captured_pdus_reassembled:
  assumes "list_all record_ok rs" and "length rest < 13" and "conn < 4096"
    and "list_all (\<lambda>(pdu, pieces). cut_ok pdu pieces) cuts"
    and "filter (\<lambda>p. acl_connection p = conn) (payloads ptype (map snd rs)) =
      concat (map (acl_fragments conn \<circ> snd) cuts)"
  shows "map snd (filter (\<lambda>x. fst x = conn) (capture_pdus ptype (concat (map encode_record rs) @ rest))) =
    map fst cuts"
proof -
  have "records (concat (map encode_record rs) @ rest) = map snd rs"
    using records_capture [OF assms(1,2), of "[]"] by (simp add: records_def)
  then show ?thesis
    using acl_run_connection [of "\<lambda>_. None" conn "\<lambda>_. None"] acl_run_stream [OF assms(3,4)] assms(5)
    by (simp add: capture_pdus_def)
qed

theorem captured_pdus_reassembled_witness:
  "map snd (filter (\<lambda>x. fst x = 64) (capture_pdus 2 (concat (map encode_record
      [(replicate 8 0, 2, acl_packet 64 2 [3, 0, 4, 0, 0x52]), (replicate 8 0, 3, [1, 2]),
       (replicate 8 0, 2, acl_packet 65 1 [9]), (replicate 8 0, 2, acl_packet 64 1 [0x1F, 0])]) @ [7]))) =
   [[0x52, 0x1F, 0]]"
proof -
  have "cut_ok [0x52, 0x1F, 0] [[3, 0, 4, 0, 0x52], [0x1F, 0]]"
    by (simp add: cut_ok_def l2cap_frame_def ATT_CID_def to_bytes_little_numeral numeral_2_eq_2)
  then show ?thesis
    using captured_pdus_reassembled [where conn = 64 and ptype = 2 and rest = "[7]"
        and cuts = "[([0x52, 0x1F, 0], [[3, 0, 4, 0, 0x52], [0x1F, 0]])]"
        and rs = "[(replicate 8 0, 2, acl_packet 64 2 [3, 0, 4, 0, 0x52]), (replicate 8 0, 3, [1, 2]),
       (replicate 8 0, 2, acl_packet 65 1 [9]), (replicate 8 0, 2, acl_packet 64 1 [0x1F, 0])]"]
      acl_packet_fields [of 64 2 "[3, 0, 4, 0, 0x52]"] acl_packet_fields [of 64 1 "[0x1F, 0]"]
      acl_packet_fields [of 65 1 "[9]"]
    by (simp add: record_ok_def payloads_def) (simp add: acl_packet_def)
qed

end
