(* ===== verification/Redaction.thy ===== *)
theory Redaction
  imports Json_Text "HOL-Library.Sublist"
begin

text \<open>
  \<open>contrib/mitm_tilt_addon.py\<close>: what the capture of a flow shows and saves. \<open>json.loads\<close> is the
  parameter \<open>json_of\<close> (\<open>None\<close> when it raises); the flow's fields are a record. What a call of
  \<open>response\<close> logs, the file it saves and the counter it leaves are the result of \<open>capture_flow\<close>. The
  ellipsis of a mask is written \<open>...\<close>.
\<close>

subsection \<open>Secret names\<close>

definition HOSTS :: "string list" where
  "HOSTS = [''tiltsmarthome.com'', ''mysmartblinds.com'', ''mysmartblinds.auth0.com'']"

definition occurs_in :: "string \<Rightarrow> string \<Rightarrow> bool" where
  "occurs_in part s \<longleftrightarrow> (\<exists>t \<in> set (suffixes s). prefix part t)"

text \<open>\<open>SECRET_FIELD.search(k)\<close>, ignoring case.\<close>

definition SECRET_WORDS :: "string list" where
  "SECRET_WORDS = [''key'', ''token'', ''secret'', ''passwd'', ''password'', ''authorization'']"

definition secret_field :: "string \<Rightarrow> bool" where
  "secret_field k \<longleftrightarrow> (\<exists>w \<in> set SECRET_WORDS. occurs_in w (lower k))"

definition SHOWN_WORDS :: "string list" where
  "SHOWN_WORDS = [''mac'', ''name'', ''id'', ''position'', ''model'']"

definition shown_field :: "string \<Rightarrow> bool" where
  "shown_field k \<longleftrightarrow> (\<exists>w \<in> set SHOWN_WORDS. occurs_in w (lower k))"

subsection \<open>Masking\<close>

definition redacted :: "nat \<Rightarrow> string" where
  "redacted n = ''<redacted:'' @ str_of_int (int n) @ ''>''"

definition mask_value :: "json \<Rightarrow> string" where
  "mask_value v =
     (let s = py_str v
      in if length s \<le> 10 then redacted (length s)
         else take 4 s @ ''...'' @ drop (length s - 4) s @ '' (len '' @ str_of_int (int (length s)) @ '')'')"

text \<open>\<open>isinstance(v, (str, int, float))\<close>; a \<open>bool\<close> is an \<open>int\<close>.\<close>

definition is_scalar :: "json \<Rightarrow> bool" where
  "is_scalar v = (case v of J_str _ \<Rightarrow> True | J_int _ \<Rightarrow> True | J_float _ \<Rightarrow> True | J_bool _ \<Rightarrow> True | _ \<Rightarrow> False)"

fun redact :: "json \<Rightarrow> json" where
  "redact (J_obj kvs) =
     J_obj (map (\<lambda>kv. (fst kv, if is_scalar (snd kv) \<and> secret_field (fst kv)
       then J_str (redacted (length (py_str (snd kv)))) else redact (snd kv))) kvs)"
| "redact (J_list xs) = J_list (map redact xs)"
| "redact j = j"

fun split_once :: "char \<Rightarrow> string \<Rightarrow> string \<times> string option" where
  "split_once sep [] = ([], None)"
| "split_once sep (c # cs) =
     (if c = sep then ([], Some cs) else (case split_once sep cs of (a, b) \<Rightarrow> (c # a, b)))"

definition redact_header :: "string \<times> string \<Rightarrow> string \<times> json" where
  "redact_header kv =
     (let (k, v) = kv
      in if secret_field k
         then case split_once CHR '' '' v of
             (scheme, Some token) \<Rightarrow> (k, J_str (scheme @ '' '' @ redacted (length token)))
           | (_, None) \<Rightarrow> (k, J_str (redacted (length v)))
         else (k, J_str v))"

subsection \<open>The lines printed\<close>

fun print_hits :: "string \<Rightarrow> json \<Rightarrow> string list"
  and object_hits :: "string \<Rightarrow> (string \<times> json) list \<Rightarrow> string list"
  and list_hits :: "string \<Rightarrow> nat \<Rightarrow> json list \<Rightarrow> string list" where
  "print_hits path (J_obj kvs) = object_hits path kvs"
| "print_hits path (J_list xs) = list_hits path 0 xs"
| "print_hits path _ = []"
| "object_hits path [] = []"
| "object_hits path ((k, v) # kvs) =
     (let kp = (if path = [] then k else path @ ''.'' @ k)
      in (if is_scalar v
          then if secret_field k then [''[tilt]   '' @ kp @ '' = '' @ mask_value v]
               else if shown_field k then [''[tilt]   '' @ kp @ '' = '' @ py_repr v]
               else []
          else []) @ print_hits kp v @ object_hits path kvs)"
| "list_hits path i [] = []"
| "list_hits path i (v # vs) =
     print_hits (path @ ''['' @ str_of_int (int i) @ '']'') v @ list_hits path (i + 1) vs"

subsection \<open>Capturing a flow\<close>

record flow =
  fl_host :: string
  fl_method :: string
  fl_url :: string
  fl_headers :: "(string \<times> string) list"
  fl_request_text :: "string option"
  fl_response :: "(int \<times> string option) option"

definition parse_body :: "(string \<Rightarrow> json option) \<Rightarrow> string \<Rightarrow> json option" where
  "parse_body json_of body = (case json_of body of None \<Rightarrow> None | Some J_null \<Rightarrow> None | Some j \<Rightarrow> Some j)"

definition body_text :: "string option \<Rightarrow> string" where
  "body_text t = (case t of None \<Rightarrow> [] | Some s \<Rightarrow> s)"

definition saved_body :: "(string \<Rightarrow> json option) \<Rightarrow> string \<Rightarrow> json" where
  "saved_body json_of body =
     (case parse_body json_of body of Some j \<Rightarrow> redact j | None \<Rightarrow> J_str (take 500 body))"

text \<open>A dictionary built in a loop: a later entry replaces the value of an earlier one.\<close>

definition put :: "string \<times> json \<Rightarrow> (string \<times> json) list \<Rightarrow> (string \<times> json) list" where
  "put kv d =
     (if fst kv \<in> fst ` set d then map (\<lambda>e. if fst e = fst kv then kv else e) d else d @ [kv])"

definition redact_headers :: "(string \<times> string) list \<Rightarrow> json" where
  "redact_headers hs = J_obj (foldl (\<lambda>d h. put (redact_header h) d) [] hs)"

definition zero_padded :: "nat \<Rightarrow> string" where
  "zero_padded n = (let s = str_of_int (int n) in replicate (3 - length s) CHR ''0'' @ s)"

text \<open>The exceptions of creating the directory and of opening a file in it, \<open>None\<close> when there is none.\<close>

record capture_files =
  cf_makedirs :: "string option"
  cf_open :: "string \<Rightarrow> string option"

text \<open>
  What the handler of a flow logs, the file it saves, by its name and text, and the counter \<open>n\<close> of
  captures it leaves.
\<close>

definition capture_flow ::
  "(string \<Rightarrow> json option) \<Rightarrow> capture_files \<Rightarrow> flow \<Rightarrow> nat \<Rightarrow> string list \<times> (string \<times> string) option \<times> nat" where
  "capture_flow json_of files flow n =
     (if \<not> (\<exists>h \<in> set HOSTS. occurs_in h (fl_host flow)) then ([], None, n)
      else
        let status = (case fl_response flow of None \<Rightarrow> J_str ''?'' | Some (code, _) \<Rightarrow> J_int code);
            response = (case fl_response flow of None \<Rightarrow> [] | Some (_, t) \<Rightarrow> body_text t);
            hits = (case parse_body json_of response of None \<Rightarrow> [] | Some j \<Rightarrow> print_hits [] j);
            log = [''[tilt] '' @ fl_method flow @ '' '' @ py_str status @ '' '' @ fl_url flow] @ hits;
            failed = (\<lambda>e. log @ [''[tilt]   (capture write failed: '' @ e @ '')''])
        in case cf_makedirs files of
             Some e \<Rightarrow> (failed e, None, n)
           | None \<Rightarrow>
               (let request = body_text (fl_request_text flow);
                    rec = J_obj
                      [(''request'', J_obj
                         [(''method'', J_str (fl_method flow)), (''url'', J_str (fl_url flow)),
                          (''headers'', redact_headers (fl_headers flow)), (''body'', saved_body json_of request)]),
                       (''response'', J_obj [(''status'', status), (''json'', saved_body json_of response)])];
                    name = ''tilt-capture/'' @ zero_padded (Suc n) @ ''-'' @ fl_method flow @ ''.json''
                in case cf_open files name of
                     Some e \<Rightarrow> (failed e, None, Suc n)
                   | None \<Rightarrow> (log @ [''[tilt]   saved redacted -> '' @ name], Some (name, dumps rec), Suc n)))"

text \<open>The files that the calls of one run save, in order.\<close>

fun captures :: "(string \<Rightarrow> json option) \<Rightarrow> (capture_files \<times> flow) list \<Rightarrow> nat \<Rightarrow> (string \<times> string) list" where
  "captures json_of [] n = []"
| "captures json_of ((files, flow) # calls) n =
     (case capture_flow json_of files flow n of
        (_, saved, n1) \<Rightarrow> (case saved of None \<Rightarrow> [] | Some f \<Rightarrow> [f]) @ captures json_of calls n1)"

subsection \<open>Which documents look the same redacted\<close>

text \<open>Equal but for scalar values of the same printed length under secret names.\<close>

inductive same_public :: "json \<Rightarrow> json \<Rightarrow> bool" where
  same: "same_public j j"
| lists: "list_all2 same_public xs ys \<Longrightarrow> same_public (J_list xs) (J_list ys)"
| objects: "list_all2 (\<lambda>p q. fst p = fst q \<and>
      (same_public (snd p) (snd q) \<or>
       secret_field (fst p) \<and> is_scalar (snd p) \<and> is_scalar (snd q) \<and>
         length (py_str (snd p)) = length (py_str (snd q)))) ps qs \<Longrightarrow>
    same_public (J_obj ps) (J_obj qs)"

lemma list_all2_map_eq: "list_all2 (\<lambda>x y. f x = f y) xs ys \<Longrightarrow> map f xs = map f ys"
  by (induction rule: list_all2_induct) simp_all

lemma same_public_scalar: "same_public a b \<Longrightarrow> is_scalar a \<or> is_scalar b \<Longrightarrow> a = b"
  by (erule same_public.cases) (auto simp: is_scalar_def)

lemma redact_same_public: "same_public a b \<Longrightarrow> redact a = redact b"
proof (induction rule: same_public.induct)
  case (same j)
  then show ?case ..
next
  case (lists xs ys)
  have "list_all2 (\<lambda>x y. redact x = redact y) xs ys"
    using lists by (rule list_all2_mono) simp
  then show ?case using list_all2_map_eq by simp
next
  case (objects ps qs)
  let ?f = "\<lambda>kv. (fst kv, if is_scalar (snd kv) \<and> secret_field (fst kv)
       then J_str (redacted (length (py_str (snd kv)))) else redact (snd kv))"
  have "list_all2 (\<lambda>p q. ?f p = ?f q) ps qs"
    using objects by (rule list_all2_mono) (auto dest: same_public_scalar)
  then have "map ?f ps = map ?f qs" by (rule list_all2_map_eq)
  then show ?case by (simp only: redact.simps)
qed

text \<open>Headers that are equal but for the credentials of secret ones, of equal length.\<close>

definition same_header :: "string \<times> string \<Rightarrow> string \<times> string \<Rightarrow> bool" where
  "same_header g h \<longleftrightarrow>
     fst g = fst h \<and>
     (snd g = snd h \<or>
      secret_field (fst g) \<and>
      (case (split_once CHR '' '' (snd g), split_once CHR '' '' (snd h)) of
         ((a, Some t), (b, Some u)) \<Rightarrow> a = b \<and> length t = length u
       | ((_, None), (_, None)) \<Rightarrow> length (snd g) = length (snd h)
       | _ \<Rightarrow> False))"

lemma redact_same_header: "same_header g h \<Longrightarrow> redact_header g = redact_header h"
  by (cases g; cases h) (auto simp: same_header_def redact_header_def Let_def split: prod.splits option.splits)

lemma redact_headers_eq:
  "list_all2 same_header gs hs \<Longrightarrow> redact_headers gs = redact_headers hs"
proof -
  have "list_all2 same_header gs hs \<Longrightarrow>
      foldl (\<lambda>d h. put (redact_header h) d) d gs = foldl (\<lambda>d h. put (redact_header h) d) d hs" for d
    by (induction gs hs arbitrary: d rule: list_all2_induct) (simp_all add: redact_same_header)
  then show "list_all2 same_header gs hs \<Longrightarrow> redact_headers gs = redact_headers hs"
    by (simp add: redact_headers_def)
qed

subsection \<open>The files of a run\<close>

text \<open>The number in a file's name determines it, so that no capture of a run replaces another.\<close>

definition capture_number :: "string \<Rightarrow> int" where
  "capture_number name = int_of_digits (takeWhile is_digit (drop (length ''tilt-capture/'') name))"

lemma int_of_digits_zeros: "int_of_digits (replicate k CHR ''0'' @ ds) = int_of_digits ds"
  by (induction k) (simp_all add: int_of_digits_def)

lemma zero_padded_digits: "list_all is_digit (zero_padded n)" "int_of_digits (zero_padded n) = int n"
  using digits_of_nat_digits [of n]
  by (auto simp: zero_padded_def Let_def str_of_int_def int_of_digits_zeros int_of_digits_of_nat list_all_iff is_digit_def)

lemma capture_number_name:
  "capture_number (''tilt-capture/'' @ zero_padded n @ ''-'' @ rest) = int n"
proof -
  have "takeWhile is_digit (zero_padded n @ ''-'' @ rest) = zero_padded n"
    using zero_padded_digits(1) [of n]
    by (subst takeWhile_append2) (auto simp: list_all_iff is_digit_def)
  then show ?thesis by (simp add: capture_number_def zero_padded_digits)
qed

lemma capture_flow_number:
  assumes "capture_flow json_of files flow n = (log, saved, n1)"
  shows "n \<le> n1" "saved = Some (name, t) \<Longrightarrow> capture_number name = int n1 \<and> n1 = Suc n"
  using assms capture_number_name
  by (auto simp: capture_flow_def Let_def split: if_split_asm option.splits)

lemma captures_numbers:
  "\<forall>f \<in> set (captures json_of calls n). int n < capture_number (fst f)"
  "distinct (map (\<lambda>f. capture_number (fst f)) (captures json_of calls n))"
proof (induction json_of calls n rule: captures.induct)
  case (2 json_of files flow calls n)
  obtain log saved n1 where c: "capture_flow json_of files flow n = (log, saved, n1)" by (metis prod_cases3)
  note num = capture_flow_number [OF c]
  { case 1
    show ?case using "2.IH"(1) [OF c [symmetric] refl] num by (fastforce simp: c split: option.splits) }
  { case 2
    show ?case using "2.IH" [OF c [symmetric] refl] num by (fastforce simp: c split: option.splits) }
qed simp_all

lemma captures_keep_their_files: "distinct (map fst (captures json_of calls n))"
  using captures_numbers(2) [of json_of calls n] by (auto simp: distinct_map inj_on_def)

subsection \<open>Secrets that are not redacted\<close>

lemma secret_list_not_redacted:
  "redact (J_obj [(''tokens'', J_list [J_str s])]) = J_obj [(''tokens'', J_list [J_str s])]"
  by (simp add: is_scalar_def)

lemma plain_body_not_redacted:
  "json_of body = None \<Longrightarrow> length body \<le> 500 \<Longrightarrow> saved_body json_of body = J_str body"
  by (simp add: saved_body_def parse_body_def)

subsection \<open>Properties\<close>

text \<open>C36: The file saved for a flow with JSON bodies does not depend on its secrets: two flows whose
  bodies differ only in plain values of the same printed length under secret names, and whose
  headers differ only in the credentials of secret headers, give the same file under the same name,
  or fail to write one alike.\<close>

theorem saved_file_hides_secrets:
  assumes "fl_host f = fl_host g" and "fl_method f = fl_method g" and "fl_url f = fl_url g"
    and "list_all2 same_header (fl_headers f) (fl_headers g)"
    and "fl_response f = Some (code, t)" and "fl_response g = Some (code, u)"
    and "parse_body json_of (body_text (fl_request_text f)) = Some a"
    and "parse_body json_of (body_text (fl_request_text g)) = Some b" and "same_public a b"
    and "parse_body json_of (body_text t) = Some c"
    and "parse_body json_of (body_text u) = Some d" and "same_public c d"
  shows "snd (capture_flow json_of files f n) = snd (capture_flow json_of files g n)"
proof -
  have "saved_body json_of (body_text (fl_request_text f)) = saved_body json_of (body_text (fl_request_text g))"
    "saved_body json_of (body_text t) = saved_body json_of (body_text u)"
    using redact_same_public [OF assms(9)] redact_same_public [OF assms(12)] assms(7,8,10,11)
    by (simp_all add: saved_body_def)
  with redact_headers_eq [OF assms(4)] assms(1-3,5,6) show ?thesis
    by (simp add: capture_flow_def Let_def split: option.split)
qed

text \<open>Two logins of the witness, with different passwords and tokens.\<close>

definition login_body :: "string \<Rightarrow> json" where
  "login_body secret = J_obj [(''user'', J_str ''me''), (''password'', J_str secret)]"

definition login_flow :: "string \<Rightarrow> flow" where
  "login_flow secret =
     \<lparr>fl_host = ''api.tiltsmarthome.com'', fl_method = ''POST'', fl_url = ''https://api.tiltsmarthome.com/v2'',
      fl_headers = [(''Authorization'', ''Bearer '' @ secret)], fl_request_text = Some (dumps (login_body secret)),
      fl_response = Some (200, Some (dumps (login_body secret)))\<rparr>"

definition read_json :: "string \<Rightarrow> json option" where
  "read_json s = (case loads (\<lambda>r. r) s of Read v _ \<Rightarrow> Some v | _ \<Rightarrow> None)"

lemma parse_login_body: "parse_body read_json (dumps (login_body secret)) = Some (login_body secret)"
  by (simp add: parse_body_def read_json_def json_reads_back login_body_def)

definition working_files :: capture_files where
  "working_files = \<lparr>cf_makedirs = None, cf_open = \<lambda>_. None\<rparr>"

theorem saved_file_hides_secrets_witness:
  "\<exists>file. snd (capture_flow read_json working_files (login_flow ''hunter2'') 0) = (Some file, 1) \<and>
     snd (capture_flow read_json working_files (login_flow ''letmein'') 0) = (Some file, 1)"
proof -
  have secret: "secret_field ''password''" "secret_field ''Authorization''" by code_simp+
  have "same_public (login_body ''hunter2'') (login_body ''letmein'')"
    unfolding login_body_def by (rule same_public.objects) (simp add: secret is_scalar_def same_public.same)
  moreover have "same_header (''Authorization'', ''Bearer hunter2'') (''Authorization'', ''Bearer letmein'')"
    by (simp add: same_header_def secret)
  ultimately have "snd (capture_flow read_json working_files (login_flow ''hunter2'') 0) =
      snd (capture_flow read_json working_files (login_flow ''letmein'') 0)"
    by (intro saved_file_hides_secrets [where code = 200 and t = "Some (dumps (login_body ''hunter2''))"
        and u = "Some (dumps (login_body ''letmein''))" and a = "login_body ''hunter2''" and c = "login_body ''hunter2''"
        and b = "login_body ''letmein''" and d = "login_body ''letmein''"]) (simp_all add: login_flow_def body_text_def parse_login_body)
  moreover have "\<exists>h \<in> set HOSTS. occurs_in h ''api.tiltsmarthome.com''" by code_simp
  then have "\<exists>file. snd (capture_flow read_json working_files (login_flow ''hunter2'') 0) = (Some file, 1)"
    by (simp add: capture_flow_def login_flow_def working_files_def Let_def)
  ultimately show ?thesis by metis
qed

end
