(* ===== verification/Spec2Isabelle.thy ===== *)
theory Spec2Isabelle
  imports Concurrent_Moves Radio Gate_Auth Backup Packet_Log Redaction
begin

text \<open>
  Verification library for \<open>smartblinds-ble\<close>, a Python client for motorised shades.

  \<^bold>\<open>The program.\<close> The package drives two generations of shades over Bluetooth Low Energy. For Tilt
  roller shades (\<open>tilt/protocol.py\<close>, \<open>tilt/ble.py\<close>) a client opens a transient connection, proves the
  pairing key in a handshake, and exchanges encrypted, checksummed requests that are cut into
  acknowledged chunks. For the legacy motors (\<open>blind.py\<close>) it writes the key and then a position.
  Two modules export the keys of an account from the vendors' clouds (\<open>tilt_cloud.py\<close>, \<open>cloud.py\<close>),
  the tools under \<open>tools/\<close> and \<open>contrib/\<close> use these modules from the command line.

  \<^bold>\<open>Theories, from the bottom up.\<close>
  \<^item> \<open>Prelude\<close>: results of calls that may raise (\<open>rbind\<close>), integers and bytes, rounding, printing,
    and the locale \<open>cyclic_counter\<close> of the three wrapping counters.
  \<^item> \<open>Tilt_Types\<close>, \<open>Checksum\<close>, \<open>Hmac_Sha256\<close>, \<open>Crypto_Layer\<close>, \<open>Utf8\<close>, \<open>App_Layer\<close>, \<open>Chunking\<close>: the
    codec of \<open>tilt/protocol.py\<close>, one definition per function under its name. The lemmas give each
    function's result on every branch; the properties are the equivalence of \<open>crc16\<close> with the
    bitwise CRC-16/CCITT-FALSE, error detection, round trips, and that reassembly delivers runs of
    consecutive chunks. The AES-CTR cipher is the parameter \<open>ctr\<close>, of which \<open>ctr_cipher\<close> is assumed.
  \<^item> \<open>Shade_Side\<close>: the codec and fake shade of \<open>tests/tilt_helpers.py\<close>, the other end of the round trips.
  \<^item> \<open>Link\<close>: \<open>_TiltBleSession\<close>'s queues, acknowledgement waiters, notification callback, worker and
    \<open>_send_frame\<close> as a state machine: the record \<open>link\<close> is the object's fields with the place at which
    the two tasks wait, \<open>link_step\<close> one resumption of a task or callback. Notifications, timers,
    failing writes and cancellations come in any order. \<open>sender_inv\<close> and \<open>receiver_inv\<close> are its invariants.
  \<^item> \<open>Send_Frame\<close>: what a whole call of \<open>_send_frame\<close> writes, returns and takes. \<open>exchange\<close> runs a call
    along a schedule of events and then, with the fuel \<open>sender_measure\<close>, to its end by failing writes
    and expiring timers; the measure falls with every turn of the sender, so that fuel is enough. The
    locale \<open>frame_link\<close> is the interface the layers above rely on.
  \<^item> \<open>Session\<close>: \<open>authenticate\<close>, \<open>read_status\<close>, \<open>set_position\<close> and the request identifiers over any
    \<open>_send_frame\<close>, with traces of the frames sent.
  \<^item> \<open>Ble_Lock\<close>: \<open>_global_ble_lock\<close> and the \<open>async with\<close> around a session, as steps of the tasks of the
    event loops with the acquire, wake-up, cancellation and release of \<open>asyncio.Lock\<close>.
  \<^item> \<open>Shade_Client\<close>: \<open>TiltShadeClient\<close>: position changes with read-back, retries of reads, the client
    factory, the lifetime of a connection over an arbitrary BLE client \<open>ble_env\<close>.
  \<^item> \<open>Fake_Device\<close>: the fake shade's own transport (\<open>write_gatt_char\<close>, its assembler, acknowledgement
    waiters and a task per request), composed with \<open>Link\<close>: \<open>peered_step\<close> is a turn of one of the three
    tasks. \<open>exchanging\<close> is the invariant of a call under any interleaving; each turn takes one from
    \<open>turns_left\<close>, so \<open>turns_of_call\<close>, two turns per chunk of request and reply and two more, is the fuel
    with which \<open>device_exchange\<close> ends; its parameter \<open>sched\<close> is the event loop's choice of turns.
  \<^item> \<open>Lost_Reply\<close>: the same pair when the notifications of a reply are lost and both sides time out.
  \<^item> \<open>End_To_End\<close>: the client against the fake shade through all layers. The locale \<open>shade_reader\<close> is the
    contract of a peer that answers handshake and reads, \<open>shade_peer\<close> and \<open>losing_peer\<close> add an answered or
    a lost position request, \<open>device_client\<close> is the connection's; all are interpreted on the chunked
    exchanges of \<open>Fake_Device\<close> and \<open>Lost_Reply\<close>.
  \<^item> \<open>Concurrent_Clients\<close>: the tasks of an event loop that run sessions in turns inside the lock, and why
    a session, handshake and operation, can be one function: the loop refines \<open>one_by_one\<close>. \<open>Concurrent_Moves\<close> adds the fake shade.
  \<^item> \<open>Radio\<close>: the link and any shade over a radio that loses, delays and notifies, with every timer and
    cancellation: a position request is carried out at most once. The locale \<open>moving_shade\<close> is what is
    needed of a shade, that each chunk it receives starts at most one command; the fake shade has it.
  \<^item> \<open>Py_Text\<close>, \<open>Json\<close>: strings and untyped JSON values with the exceptions of Python's operations.
    \<open>Json_Text\<close>: JSON text as \<open>json.dump(indent=2)\<close> writes and \<open>json.loads\<close> reads it. The reader has two units
    of fuel per character and one more, which \<open>loads_enough\<close> shows to be enough; \<open>json_reads_back\<close> is the
    round trip.
  \<^item> \<open>Tilt_Cloud\<close>, \<open>Legacy_Cloud\<close>: the exports. The specification is an account as a record, its JSON
    document and the list it exports; the refinement theorems say the code computes that list. For any
    other store document \<open>store_entries\<close> lists what the devices are made from.
  \<^item> \<open>Legacy_Blind\<close>: \<open>SmartBlind\<close> with keys, tilts, percentages and the key scan.
  \<^item> \<open>Tools\<close>: \<open>tools/find_key.py\<close>, \<open>import_tilt.py\<close>, \<open>import_cloud.py\<close> from parsed arguments to
    output and the text of the saved file. \<open>Backup\<close>: that text, read back, controls the fake
    shade, or makes the legacy client of every shade.
  \<^item> \<open>Packet_Log\<close>: \<open>contrib/parse_pklg.py\<close>: records, reassembly per connection, transcript.
  \<^item> \<open>Gate_Auth\<close>: \<open>contrib/gate_auth_mac.py\<close>: loading keys and probing shades, over \<open>Shade_Client\<close>.
  \<^item> \<open>Redaction\<close>: \<open>contrib/mitm_tilt_addon.py\<close>: what a captured flow logs and saves.

  \<^bold>\<open>Parameters.\<close> Code outside the repository is an argument: the BLE client (\<open>ble_env\<close>, \<open>motor_env\<close>), the
  cipher, \<open>urlopen\<close>, \<open>smartblinds_client\<close> and \<open>requests\<close> (\<open>legacy_api\<close>), the prompts and the
  environment; \<open>json.loads\<close> of a response, a capture or a key file is a parameter too, the one of a saved
  export is \<open>loads\<close>. Floating-point rounding is the parameter \<open>double\<close> with the hypothesis \<open>double_rounding\<close>.

  \<^bold>\<open>Bounds.\<close> Strings are lists of 8-bit characters, the Latin-1 part of Unicode (parsed shade names are
  full UTF-8); dashes, ellipses and arrows of messages are written in ASCII or as constructors. A
  JSON float is its printed form, and the fake shade's travel is rounded from an exact fraction. The message text of Python's own \<open>TypeError\<close> and \<open>AttributeError\<close> is
  left out.

  \<^bold>\<open>Not modelled.\<close> The fixed pauses between operations (a cancellation during one behaves as one
  raised by the next call), logging other than the gate check's and the capture's, argument parsing,
  reading files, writes that fail once a file is open, and the package's re-exports.
\<close>

end
